(* ===== verification/Rpc_Prelude.thy ===== *)
theory Rpc_Prelude
  imports Main "HOL-Library.Word" "HOL-Library.AList"
begin

text \<open>
  The prelude of the development: the types every component shares (a byte, a C++
  \<^verbatim>\<open>std::string\<close> as the list of its bytes), the memory image of a machine integer on
  the little-endian hosts the framework is built for, the write of a block into a
  \<^verbatim>\<open>std::vector<char>\<close>, the errno values the code tests, the decimal rendering of
  \<^verbatim>\<open>std::to_string\<close>, and the generic facts on words and lists the component
  theories use.  \<open>wire_simps\<close> collects the rewrite rules for byte images.
\<close>

unbundle bit_operations_syntax

named_theorems wire_simps \<open>rewrite rules for byte images of machine integers\<close>

section \<open>Shared types\<close>

type_synonym byte = "8 word"
type_synonym bytes = "8 word list"
type_synonym u8 = "8 word"
type_synonym u16 = "16 word"
type_synonym u32 = "32 word"
type_synonym u64 = "64 word"

text \<open>A string literal of the source, as the bytes of the \<^verbatim>\<open>std::string\<close> it makes.\<close>

definition str :: "string \<Rightarrow> bytes" where
  "str s = map of_char s"

section \<open>Memory images of integers\<close>

text \<open>
  \<open>le_bytes n w\<close> is what \<^verbatim>\<open>memcpy\<close> of an \<open>n\<close>-byte integer writes on a little-endian
  host, \<open>le_word\<close> what \<^verbatim>\<open>memcpy\<close> into an integer reads, and \<open>byteswap\<close> is
  \<^verbatim>\<open>htons\<close>, \<^verbatim>\<open>htonl\<close> and \<^verbatim>\<open>htobe64\<close> on such a host.
\<close>

primrec le_bytes :: "nat \<Rightarrow> 'a::len word \<Rightarrow> bytes" where
  "le_bytes 0 w = []"
| "le_bytes (Suc n) w = ucast w # le_bytes n (drop_bit 8 w)"

primrec le_word :: "bytes \<Rightarrow> 'a::len word" where
  "le_word [] = 0"
| "le_word (b # bs) = ucast b OR push_bit 8 (le_word bs)"

definition byteswap :: "nat \<Rightarrow> 'a::len word \<Rightarrow> 'a word" where
  "byteswap n w = le_word (rev (le_bytes n w))"

text \<open>\<open>poke i xs m\<close>: the block \<open>xs\<close> copied over the memory \<open>m\<close> from index \<open>i\<close>.\<close>

definition poke :: "nat \<Rightarrow> 'a list \<Rightarrow> 'a list \<Rightarrow> 'a list" where
  "poke i xs m = take i m @ xs @ drop (i + length xs) m"

section \<open>Error numbers and decimal rendering\<close>

text \<open>The errno values the sources compare with, as Linux numbers them.\<close>

definition EINTR :: int where "EINTR = 4"
definition EBADF :: int where "EBADF = 9"
definition EAGAIN :: int where "EAGAIN = 11"
definition EPERM :: int where "EPERM = 1"
definition EACCES :: int where "EACCES = 13"
definition EFAULT :: int where "EFAULT = 14"
definition EPIPE :: int where "EPIPE = 32"
definition ENOTSOCK :: int where "ENOTSOCK = 88"
definition EAFNOSUPPORT :: int where "EAFNOSUPPORT = 97"
definition EADDRINUSE :: int where "EADDRINUSE = 98"
definition EADDRNOTAVAIL :: int where "EADDRNOTAVAIL = 99"
definition ENETUNREACH :: int where "ENETUNREACH = 101"
definition ECONNRESET :: int where "ECONNRESET = 104"
definition EISCONN :: int where "EISCONN = 106"
definition ECONNREFUSED :: int where "ECONNREFUSED = 111"
definition EALREADY :: int where "EALREADY = 114"
definition EINPROGRESS :: int where "EINPROGRESS = 115"

lemmas errno_defs = EINTR_def EBADF_def EAGAIN_def EPERM_def EACCES_def EFAULT_def
  EPIPE_def ENOTSOCK_def EAFNOSUPPORT_def EADDRINUSE_def EADDRNOTAVAIL_def
  ENETUNREACH_def ECONNRESET_def EISCONN_def ECONNREFUSED_def EALREADY_def EINPROGRESS_def

text \<open>\<^verbatim>\<open>std::to_string\<close> and \<^verbatim>\<open>operator<<\<close> on an unsigned or non-negative integer.\<close>

fun to_string :: "nat \<Rightarrow> bytes" where
  "to_string n =
     (if n < 10 then [of_nat (48 + n)] else to_string (n div 10) @ [of_nat (48 + n mod 10)])"

declare to_string.simps [simp del]

section \<open>Facts about memory images\<close>

lemma le_bytes_numeral [simp]:
  "le_bytes (numeral k) w = ucast w # le_bytes (pred_numeral k) (drop_bit 8 w)"
  by (subst numeral_eq_Suc [of k]) (rule le_bytes.simps(2))

lemma length_le_bytes [simp]: "length (le_bytes n w) = n"
  by (induction n arbitrary: w) simp_all

lemma le_word_le_bytes: "le_word (le_bytes n w) = (take_bit (8 * n) w :: 'a::len word)"
proof (induction n arbitrary: w)
  case (Suc n)
  have "ucast (ucast w :: byte) OR push_bit 8 (take_bit (8 * n) (drop_bit 8 w)) =
      (take_bit (8 + 8 * n) w :: 'a word)"
    by (rule bit_word_eqI) (auto simp: bit_simps)
  then show ?case by (simp add: Suc.IH)
qed simp

lemma le_word_id [wire_simps]:
  "LENGTH('a) \<le> 8 * n \<Longrightarrow> le_word (le_bytes n w) = (w :: 'a::len word)"
  by (simp add: le_word_le_bytes take_bit_word_eq_self)

lemma le_bytes_inject:
  assumes "LENGTH('a) \<le> 8 * n" and "le_bytes n v = le_bytes n (w :: 'a::len word)"
  shows "v = w"
  using arg_cong [OF assms(2), of "le_word :: bytes \<Rightarrow> 'a word"] assms(1)
  by (simp add: le_word_id)

lemma bit_le_word_high: "8 * length bs \<le> i \<Longrightarrow> \<not> bit (le_word bs :: 'a::len word) i"
proof (induction bs arbitrary: i)
  case (Cons b bs)
  have "\<not> bit b i"
    using Cons.prems bit_imp_le_length by fastforce
  moreover have "\<not> bit (le_word bs :: 'a word) (i - 8)"
    using Cons.prems by (intro Cons.IH) simp
  ultimately show ?case by (simp add: bit_simps)
qed simp

lemma le_bytes_le_word:
  "8 * length bs \<le> LENGTH('a) \<Longrightarrow> le_bytes (length bs) (le_word bs :: 'a::len word) = bs"
proof (induction bs)
  case (Cons b bs)
  have "ucast (ucast b OR push_bit 8 (le_word bs :: 'a word)) = b"
    using Cons.prems by (intro bit_word_eqI) (auto simp: bit_simps)
  moreover have "drop_bit 8 (ucast b OR push_bit 8 (le_word bs :: 'a word)) = le_word bs"
  proof (rule bit_word_eqI)
    fix i assume "i < LENGTH('a)"
    moreover have "\<not> bit b (8 + i)"
      using bit_imp_le_length by fastforce
    moreover have "bit (le_word bs :: 'a word) i \<Longrightarrow> 8 + i < LENGTH('a)"
      using bit_le_word_high [of bs i, where 'a = 'a] Cons.prems by fastforce
    ultimately show "bit (drop_bit 8 (ucast b OR push_bit 8 (le_word bs :: 'a word))) i
        = bit (le_word bs :: 'a word) i"
      by (auto simp: bit_simps)
  qed
  ultimately show ?case using Cons by simp
qed simp

lemma le_word_inject:
  assumes "length a = length b" and "8 * length b \<le> LENGTH('a)"
    and "(le_word a :: 'a::len word) = le_word b"
  shows "a = b"
  using assms le_bytes_le_word [of a, where 'a = 'a] le_bytes_le_word [of b, where 'a = 'a] by metis

lemma drop_push_le_word:
  assumes "8 + 8 * length bs \<le> LENGTH('a)"
  shows "drop_bit 8 (push_bit 8 (le_word bs)) = (le_word bs :: 'a::len word)"
proof (rule bit_word_eqI)
  fix i assume "i < LENGTH('a)"
  moreover have "bit (le_word bs :: 'a word) i \<Longrightarrow> 8 + i < LENGTH('a)"
    using bit_le_word_high [of bs i, where 'a = 'a] assms by fastforce
  ultimately show "bit (drop_bit 8 (push_bit 8 (le_word bs :: 'a word))) i = bit (le_word bs :: 'a word) i"
    by (auto simp: bit_simps)
qed

lemma xor_left_cancel: "(a XOR b = a XOR c) \<longleftrightarrow> b = (c :: 'a::len word)"
  by (metis xor.assoc xor_self_eq xor.left_neutral)

text \<open>
  The bytes a swapped integer leaves in memory are the integer's bytes, most significant
  first, and swapping twice is the identity: the two facts the wire format rests on.
\<close>

lemma le_bytes_byteswap [wire_simps]:
  "8 * n \<le> LENGTH('a) \<Longrightarrow> le_bytes n (byteswap n (w :: 'a::len word)) = rev (le_bytes n w)"
  using le_bytes_le_word [of "rev (le_bytes n w)", where 'a = 'a] by (simp add: byteswap_def)

lemma byteswap_byteswap [wire_simps]:
  assumes n: "8 * n = LENGTH('a)"
  shows "byteswap n (byteswap n (w :: 'a::len word)) = w"
proof -
  have "byteswap n (byteswap n w) = le_word (rev (le_bytes n (byteswap n w)))"
    by (rule byteswap_def)
  also have "\<dots> = le_word (le_bytes n w)"
    using n by (subst le_bytes_byteswap) simp_all
  also have "\<dots> = w"
    using n by (intro le_word_id) simp
  finally show ?thesis .
qed

lemma byteswap_le_word_rev [wire_simps]:
  assumes n: "8 * n = LENGTH('a)"
  shows "byteswap n (le_word (rev (le_bytes n w))) = (w :: 'a::len word)"
  unfolding byteswap_def [symmetric] using n by (rule byteswap_byteswap)

section \<open>Facts about lists\<close>

lemma length_poke [simp]: "i + length xs \<le> length m \<Longrightarrow> length (poke i xs m) = length m"
  by (simp add: poke_def)

lemma take_poke: "i + length xs \<le> length m \<Longrightarrow> take (i + length xs) (poke i xs m) = take i m @ xs"
  by (simp add: poke_def)

lemma take_drop_append_mid:
  "length a = i \<Longrightarrow> length b = n \<Longrightarrow> take n (drop i (a @ b @ c)) = b"
  by auto

lemma map_of_AList_update: "map_of (AList.update k v al) = (map_of al)(k \<mapsto> v)"
  by (rule update_conv')

lemma to_string_not_Nil [simp]: "to_string n \<noteq> []" "[] \<noteq> to_string n"
  by (subst to_string.simps, simp)+

lemma digit_inject:
  assumes "a < 10" and "b < 10"
  shows "(of_nat (48 + a) :: 8 word) = of_nat (48 + b) \<longleftrightarrow> a = b"
  using assms by (auto simp: word_of_nat_eq_iff take_bit_nat_eq_self simp del: of_nat_add)

lemma to_string_inject [simp]: "to_string m = to_string n \<longleftrightarrow> m = n"
proof (induction m arbitrary: n rule: to_string.induct)
  case (1 m)
  show ?case
  proof (cases "m < 10 \<or> n < 10")
    case True
    then show ?thesis
      using digit_inject [of m n]
      by (subst to_string.simps, subst (2) to_string.simps) (auto simp del: of_nat_add)
  next
    case False
    then have m: "\<not> m < 10" and n: "\<not> n < 10" by auto
    have "to_string m = to_string n \<longleftrightarrow> to_string (m div 10) = to_string (n div 10) \<and> m mod 10 = n mod 10"
      using m n digit_inject [of "m mod 10" "n mod 10"]
      by (subst to_string.simps, subst (2) to_string.simps) (simp del: of_nat_add)
    then show ?thesis
      using "1.IH" [OF m, of "n div 10"] by (metis div_mult_mod_eq)
  qed
qed

end
