(* ===== verification/Buffer.thy ===== *)
theory Buffer
  imports Rpc_Prelude
begin

text \<open>
  The network buffer of \<^verbatim>\<open>src/src/network/buffer.h\<close> and \<^verbatim>\<open>buffer.cc\<close>: one vector with
  a read and a write index, of which the bytes between the indices are the unread data.
  The record and the operations follow the class; \<open>content\<close> is the abstract value (the
  unread bytes) and \<open>buf_inv\<close> the class invariant.  The locale \<open>byte_stream\<close> is what the
  codec and the connections rely on, and the buffer is an interpretation of it.

  Sizes are \<^typ>\<open>nat\<close>: under \<open>buf_inv\<close> none of the subtractions of the class goes below
  zero, so the truncated subtraction of \<^typ>\<open>nat\<close> and the wrapping one of \<^verbatim>\<open>size_t\<close> agree.
  What \<^verbatim>\<open>readv\<close> and \<^verbatim>\<open>write\<close> answer is an argument: the list of the answers the kernel
  gives to the successive calls of the retry loop.
\<close>

section \<open>The class\<close>

record buffer =
  buf_data :: bytes
  readerIndex :: nat
  writerIndex :: nat

definition kCheapPrepend :: nat where "kCheapPrepend = 8"
definition kInitialSize :: nat where "kInitialSize = 1024"

definition new_buffer :: buffer where
  "new_buffer = \<lparr>buf_data = replicate (kCheapPrepend + kInitialSize) 0,
     readerIndex = kCheapPrepend, writerIndex = kCheapPrepend\<rparr>"

definition readableBytes :: "buffer \<Rightarrow> nat" where
  "readableBytes b = writerIndex b - readerIndex b"

definition writableBytes :: "buffer \<Rightarrow> nat" where
  "writableBytes b = length (buf_data b) - writerIndex b"

definition prependableBytes :: "buffer \<Rightarrow> nat" where
  "prependableBytes b = readerIndex b"

text \<open>\<^verbatim>\<open>peek()\<close> is a pointer to the unread data; the model gives the memory from there on.\<close>

definition peek :: "buffer \<Rightarrow> bytes" where
  "peek b = drop (readerIndex b) (buf_data b)"

definition retrieveAll :: "buffer \<Rightarrow> buffer" where
  "retrieveAll b = b\<lparr>readerIndex := kCheapPrepend, writerIndex := kCheapPrepend\<rparr>"

definition retrieve :: "buffer \<Rightarrow> nat \<Rightarrow> buffer" where
  "retrieve b len = (if len < readableBytes b
     then b\<lparr>readerIndex := readerIndex b + len\<rparr> else retrieveAll b)"

definition retrieveAllAsString :: "buffer \<Rightarrow> bytes \<times> buffer" where
  "retrieveAllAsString b = (take (readableBytes b) (peek b), retrieveAll b)"

definition retrieveAsString :: "buffer \<Rightarrow> nat \<Rightarrow> bytes \<times> buffer" where
  "retrieveAsString b len =
     (let len = (if len > readableBytes b then readableBytes b else len)
      in (take len (peek b), retrieve b len))"

definition makeSpace :: "buffer \<Rightarrow> nat \<Rightarrow> buffer" where
  "makeSpace b len =
     (if writableBytes b + prependableBytes b < len + kCheapPrepend
      then b\<lparr>buf_data := take (writerIndex b + len) (buf_data b)
               @ replicate (writerIndex b + len - length (buf_data b)) 0\<rparr>
      else let readable = readableBytes b in
        b\<lparr>buf_data := poke kCheapPrepend (take readable (peek b)) (buf_data b),
          readerIndex := kCheapPrepend,
          writerIndex := kCheapPrepend + readable\<rparr>)"

definition ensureWritableBytes :: "buffer \<Rightarrow> nat \<Rightarrow> buffer" where
  "ensureWritableBytes b len = (if writableBytes b < len then makeSpace b len else b)"

definition append_bytes :: "buffer \<Rightarrow> bytes \<Rightarrow> buffer" where
  "append_bytes b xs =
     (let b = ensureWritableBytes b (length xs)
      in b\<lparr>buf_data := poke (writerIndex b) xs (buf_data b),
           writerIndex := writerIndex b + length xs\<rparr>)"

text \<open>
  One answer of \<^verbatim>\<open>readv\<close>: the bytes the socket has ready (none at end of file), of which
  the call takes as many as its two blocks hold, or an errno.  The bytes go to the free tail
  of the vector first and to the stack buffer \<^verbatim>\<open>extrabuf\<close> after it.
\<close>

datatype readv_answer = ReadvData bytes | ReadvError int

definition extrabuf_size :: nat where "extrabuf_size = 65536"

definition iov_capacity :: "buffer \<Rightarrow> nat" where
  "iov_capacity b = (if writableBytes b < extrabuf_size
     then writableBytes b + extrabuf_size else writableBytes b)"

definition readFd_store :: "buffer \<Rightarrow> bytes \<Rightarrow> buffer" where
  "readFd_store b d =
     (let writable = writableBytes b;
          b' = b\<lparr>buf_data := poke (writerIndex b) (take writable d) (buf_data b)\<rparr>
      in if length d \<le> writable
         then b'\<lparr>writerIndex := writerIndex b' + length d\<rparr>
         else append_bytes (b'\<lparr>writerIndex := length (buf_data b')\<rparr>) (drop writable d))"

text \<open>
  The result is \<open>None\<close> while the loop still waits for an answer, and otherwise the return
  value, the errno stored in \<^verbatim>\<open>*savedErrno\<close> if one is, the buffer and the unused answers.
\<close>

fun readFd :: "buffer \<Rightarrow> readv_answer list \<Rightarrow> (int \<times> int option \<times> buffer \<times> readv_answer list) option" where
  "readFd b [] = None"
| "readFd b (ReadvError e # rest) =
     (if e = EINTR then readFd b rest else Some (-1, Some e, b, rest))"
| "readFd b (ReadvData ready # rest) =
     (let d = take (iov_capacity b) ready
      in Some (int (length d), None, readFd_store b d, rest))"

datatype write_answer = Wrote nat | WriteError int

fun writeFd :: "buffer \<Rightarrow> write_answer list \<Rightarrow> (int \<times> int option \<times> write_answer list) option" where
  "writeFd b [] = None"
| "writeFd b (WriteError e # rest) =
     (if e = EINTR then writeFd b rest else Some (-1, Some e, rest))"
| "writeFd b (Wrote n # rest) = Some (int n, None, rest)"

section \<open>Abstract value and invariant\<close>

definition content :: "buffer \<Rightarrow> bytes" where
  "content b = take (readableBytes b) (peek b)"

definition buf_inv :: "buffer \<Rightarrow> bool" where
  "buf_inv b \<longleftrightarrow> kCheapPrepend \<le> readerIndex b \<and> readerIndex b \<le> writerIndex b
     \<and> writerIndex b \<le> length (buf_data b)"

lemmas buf_defs = content_def peek_def readableBytes_def writableBytes_def prependableBytes_def
  buf_inv_def

section \<open>The interface of a byte stream\<close>

locale byte_stream =
  fixes stream :: "'b \<Rightarrow> bytes"
    and invar :: "'b \<Rightarrow> bool"
    and size_of :: "'b \<Rightarrow> nat"
    and put :: "'b \<Rightarrow> bytes \<Rightarrow> 'b"
    and drop_front :: "'b \<Rightarrow> nat \<Rightarrow> 'b"
    and clear :: "'b \<Rightarrow> 'b"
  assumes size_of_stream: "invar b \<Longrightarrow> size_of b = length (stream b)"
    and stream_put: "invar b \<Longrightarrow> stream (put b xs) = stream b @ xs"
    and invar_put: "invar b \<Longrightarrow> invar (put b xs)"
    and stream_drop_front: "invar b \<Longrightarrow> stream (drop_front b n) = drop n (stream b)"
    and invar_drop_front: "invar b \<Longrightarrow> invar (drop_front b n)"
    and stream_clear: "invar b \<Longrightarrow> stream (clear b) = []"
    and invar_clear: "invar b \<Longrightarrow> invar (clear b)"
begin

lemmas stream_specs = size_of_stream stream_put invar_put stream_drop_front invar_drop_front
  stream_clear invar_clear

text \<open>Writing block by block is writing the concatenation: how the peer cuts the data into
  segments does not matter.\<close>

lemma foldl_put:
  "invar b \<Longrightarrow> invar (foldl put b xss) \<and> stream (foldl put b xss) = stream b @ concat xss"
  by (induction xss arbitrary: b) (simp_all add: stream_specs)

lemma fifo: "invar b \<Longrightarrow> stream (drop_front (put b xs) (size_of b)) = xs"
  by (simp add: stream_specs)

lemma drop_front_put_short:
  "invar b \<Longrightarrow> n \<le> size_of b \<Longrightarrow> stream (drop_front (put b xs) n) = stream (put (drop_front b n) xs)"
  by (simp add: stream_specs)

lemma drop_front_drop_front:
  "invar b \<Longrightarrow> stream (drop_front (drop_front b m) n) = stream (drop_front b (m + n))"
  by (simp add: stream_specs add.commute)

end

section \<open>Correctness of the operations\<close>

lemma buf_inv_new [simp, intro]: "buf_inv new_buffer"
  by (simp add: buf_defs new_buffer_def kCheapPrepend_def kInitialSize_def)

lemma content_new [simp]: "content new_buffer = []"
  by (simp add: buf_defs new_buffer_def)

lemma length_content: "buf_inv b \<Longrightarrow> length (content b) = readableBytes b"
  by (auto simp: buf_defs)

lemma retrieveAll_spec:
  "buf_inv b \<Longrightarrow> buf_inv (retrieveAll b) \<and> content (retrieveAll b) = []"
  by (simp add: buf_defs retrieveAll_def)

lemma retrieve_spec:
  assumes "buf_inv b"
  shows "buf_inv (retrieve b n) \<and> content (retrieve b n) = drop n (content b)"
proof (cases "n < readableBytes b")
  case True
  with assms show ?thesis
    by (auto simp: retrieve_def buf_defs drop_take add.commute)
next
  case False
  with assms have "drop n (content b) = []"
    using length_content [of b] by simp
  with False assms show ?thesis
    using retrieveAll_spec [of b] by (simp add: retrieve_def)
qed

lemma makeSpace_spec:
  assumes inv: "buf_inv b" and full: "writableBytes b < len"
  shows "buf_inv (makeSpace b len) \<and> content (makeSpace b len) = content b
    \<and> len \<le> writableBytes (makeSpace b len)"
proof (cases "writableBytes b + prependableBytes b < len + kCheapPrepend")
  case True
  with assms show ?thesis
    by (auto simp: makeSpace_def buf_defs)
next
  case False
  let ?r = "take (readableBytes b) (peek b)"
  have len_r: "length ?r = readableBytes b"
    using length_content [OF inv] by (simp add: content_def)
  have fits: "kCheapPrepend + length ?r \<le> length (buf_data b)"
    using inv len_r by (auto simp: buf_defs)
  have "drop kCheapPrepend (poke kCheapPrepend ?r (buf_data b))
      = ?r @ drop (kCheapPrepend + length ?r) (buf_data b)"
    using fits by (simp add: poke_def)
  then show ?thesis
    using False inv fits len_r
    by (auto simp: makeSpace_def Let_def content_def buf_inv_def peek_def readableBytes_def
        writableBytes_def prependableBytes_def)
qed

lemma ensureWritableBytes_spec:
  assumes "buf_inv b"
  shows "buf_inv (ensureWritableBytes b len) \<and> content (ensureWritableBytes b len) = content b
    \<and> len \<le> writableBytes (ensureWritableBytes b len)"
  using assms makeSpace_spec [of b len] by (auto simp: ensureWritableBytes_def)

lemma store_at_writer:
  assumes inv: "buf_inv b" and room: "length xs \<le> writableBytes b"
  defines "b' \<equiv> b\<lparr>buf_data := poke (writerIndex b) xs (buf_data b),
    writerIndex := writerIndex b + length xs\<rparr>"
  shows "buf_inv b' \<and> content b' = content b @ xs"
proof -
  have fits: "writerIndex b + length xs \<le> length (buf_data b)"
    using inv room by (auto simp: buf_defs)
  have "take (writerIndex b + length xs) (poke (writerIndex b) xs (buf_data b))
      = take (writerIndex b) (buf_data b) @ xs"
    using fits by (rule take_poke)
  moreover have "content b' = drop (readerIndex b)
      (take (writerIndex b + length xs) (poke (writerIndex b) xs (buf_data b)))"
    using inv by (simp add: b'_def buf_defs drop_take)
  moreover have "content b = drop (readerIndex b) (take (writerIndex b) (buf_data b))"
    by (simp add: buf_defs drop_take)
  ultimately have "content b' = content b @ xs"
    using inv by (simp add: buf_inv_def)
  then show ?thesis
    using inv fits by (simp add: b'_def buf_inv_def)
qed

lemma append_bytes_spec:
  assumes "buf_inv b"
  shows "buf_inv (append_bytes b xs) \<and> content (append_bytes b xs) = content b @ xs"
  using ensureWritableBytes_spec [OF assms, of "length xs"]
    store_at_writer [of "ensureWritableBytes b (length xs)" xs]
  by (simp add: append_bytes_def Let_def)

lemma readFd_store_spec:
  assumes "buf_inv b"
  shows "buf_inv (readFd_store b d) \<and> content (readFd_store b d) = content b @ d"
proof (cases "length d \<le> writableBytes b")
  case True
  then show ?thesis
    using store_at_writer [OF assms True] by (simp add: readFd_store_def Let_def)
next
  case False
  let ?d = "take (writableBytes b) d"
  let ?b = "b\<lparr>buf_data := poke (writerIndex b) ?d (buf_data b),
    writerIndex := writerIndex b + length ?d\<rparr>"
  have "length (poke (writerIndex b) ?d (buf_data b)) = writerIndex b + length ?d"
    using False assms by (simp add: buf_defs poke_def)
  then have eq: "readFd_store b d = append_bytes ?b (drop (writableBytes b) d)"
    using False by (simp add: readFd_store_def Let_def)
  have "buf_inv ?b \<and> content ?b = content b @ ?d"
    using store_at_writer [OF assms, of ?d] by simp
  with append_bytes_spec [of ?b "drop (writableBytes b) d"] show ?thesis
    by (simp add: eq)
qed

interpretation net_buffer: byte_stream content buf_inv readableBytes append_bytes retrieve retrieveAll
  by unfold_locales (simp_all add: length_content append_bytes_spec retrieve_spec retrieveAll_spec)

lemma readableBytes_retrieve_less:
  "0 < n \<Longrightarrow> 0 < readableBytes b \<Longrightarrow> readableBytes (retrieve b n) < readableBytes b"
  by (auto simp: retrieve_def retrieveAll_def readableBytes_def)

lemma length_buf_data_append:
  assumes "buf_inv b"
  shows "length (buf_data (append_bytes b xs)) =
    (if readableBytes b + length xs + kCheapPrepend \<le> length (buf_data b)
        \<or> length xs \<le> writableBytes b
     then length (buf_data b) else writerIndex b + length xs)"
proof -
  let ?e = "ensureWritableBytes b (length xs)"
  have "buf_inv ?e" and "length xs \<le> writableBytes ?e"
    using ensureWritableBytes_spec [OF assms] by blast+
  then have "writerIndex ?e + length xs \<le> length (buf_data ?e)"
    by (auto simp: buf_inv_def writableBytes_def)
  then have store: "length (buf_data (append_bytes b xs)) = length (buf_data ?e)"
    by (simp add: append_bytes_def Let_def)
  have moved: "kCheapPrepend + length (take (readableBytes b) (peek b)) \<le> length (buf_data b)"
    using assms by (auto simp: buf_inv_def readableBytes_def peek_def)
  have "\<not> writableBytes b + prependableBytes b < length xs + kCheapPrepend
      \<longleftrightarrow> readableBytes b + length xs + kCheapPrepend \<le> length (buf_data b)"
    using assms by (auto simp: buf_inv_def readableBytes_def writableBytes_def prependableBytes_def)
  moreover have "writerIndex b \<le> length (buf_data b)"
    using assms by (simp add: buf_inv_def)
  ultimately show ?thesis
    using moved by (auto simp: store ensureWritableBytes_def makeSpace_def Let_def writableBytes_def)
qed

lemma readFd_interrupted:
  "readFd b (replicate k (ReadvError EINTR) @ rest) = readFd b rest"
  by (induction k) simp_all

section \<open>Properties\<close>

text \<open>C28: However the peer's data is cut into blocks, appending the blocks one after the
  other leaves the buffer well-formed and its unread content is the old content followed by
  the concatenation of the blocks; dropping the old content then leaves exactly that
  data.\<close>

theorem buffer_is_fifo:
  assumes "buf_inv b"
  shows "buf_inv (foldl append_bytes b xss)
    \<and> content (foldl append_bytes b xss) = content b @ concat xss
    \<and> content (retrieve (foldl append_bytes b xss) (readableBytes b)) = concat xss"
  using net_buffer.foldl_put [OF assms, of xss] assms
  by (simp add: net_buffer.stream_specs)

theorem buffer_is_fifo_witness:
  "content (retrieve (foldl append_bytes new_buffer [[1, 2], [], [3]]) (readableBytes new_buffer))
     = [1, 2, 3]"
  using buffer_is_fifo [OF buf_inv_new, of "[[1, 2], [], [3]]"] by simp

text \<open>\<open>readFd\<close> retries while the call is interrupted and then takes as many of the
  ready bytes as its two blocks hold: they are appended to the unread content, in order and
  whether or not they overflow the vector into the stack buffer, and their number is the
  result.\<close>

theorem readFd_appends:
  assumes "buf_inv b"
  shows "\<exists>b'. readFd b (replicate k (ReadvError EINTR) @ ReadvData ready # rest)
      = Some (int (min (length ready) (iov_capacity b)), None, b', rest)
    \<and> buf_inv b' \<and> content b' = content b @ take (iov_capacity b) ready"
  using readFd_store_spec [OF assms, of "take (iov_capacity b) ready"]
  by (auto simp: readFd_interrupted Let_def)

theorem readFd_appends_witness:
  "\<exists>b'. readFd new_buffer (replicate 2 (ReadvError EINTR) @ [ReadvData [7, 8, 9]])
      = Some (3, None, b', []) \<and> buf_inv b' \<and> content b' = [7, 8, 9]"
proof -
  have "iov_capacity new_buffer = 66560"
    by (simp add: iov_capacity_def writableBytes_def new_buffer_def kCheapPrepend_def
        kInitialSize_def extrabuf_size_def)
  then show ?thesis
    using readFd_appends [OF buf_inv_new, of 2 "[7, 8, 9]" "[]"] by simp
qed

text \<open>Appending reallocates only when it must: when the unread data, the new block and
  the reserved prefix fit in the vector, its size stays as it is (the data is moved to the
  front instead), and otherwise it grows to exactly the write index plus the block.\<close>

theorem append_grows_only_when_full:
  assumes "buf_inv b"
  shows "length (buf_data (append_bytes b xs)) \<le> max (length (buf_data b)) (writerIndex b + length xs)
    \<and> (readableBytes b + length xs + kCheapPrepend \<le> length (buf_data b)
        \<longrightarrow> length (buf_data (append_bytes b xs)) = length (buf_data b))"
  using length_buf_data_append [OF assms, of xs] by simp

theorem append_grows_only_when_full_witness:
  "readableBytes new_buffer + length [1 :: byte] + kCheapPrepend \<le> length (buf_data new_buffer)
   \<and> length (buf_data (append_bytes new_buffer [1])) = length (buf_data new_buffer)"
  using append_grows_only_when_full [OF buf_inv_new, of "[1]"]
  by (simp add: new_buffer_def readableBytes_def kCheapPrepend_def kInitialSize_def)

end
