(* ===== verification/Crc32.thy ===== *)
theory Crc32
  imports Rpc_Prelude
begin

text \<open>
  The CRC32 of \<^verbatim>\<open>src/src/codec/rpc_codec.cc\<close>: the 256-entry table and the table-driven
  routine \<open>crc32\<close>, the bit-by-bit routine of IEEE 802.3 as its reference, and what the
  checksum promises to the packet format.  The reference step \<open>crc_bit\<close> is linear and
  injective on the 32-bit register, from which it follows that no change confined to four
  consecutive bytes keeps the checksum.
\<close>

section \<open>The code\<close>

definition kCrc32Table :: "u32 list" where
  "kCrc32Table =
    [0x00000000, 0x77073096, 0xee0e612c, 0x990951ba, 0x076dc419, 0x706af48f,
     0xe963a535, 0x9e6495a3, 0x0edb8832, 0x79dcb8a4, 0xe0d5e91e, 0x97d2d988,
     0x09b64c2b, 0x7eb17cbd, 0xe7b82d07, 0x90bf1d91, 0x1db71064, 0x6ab020f2,
     0xf3b97148, 0x84be41de, 0x1adad47d, 0x6ddde4eb, 0xf4d4b551, 0x83d385c7,
     0x136c9856, 0x646ba8c0, 0xfd62f97a, 0x8a65c9ec, 0x14015c4f, 0x63066cd9,
     0xfa0f3d63, 0x8d080df5, 0x3b6e20c8, 0x4c69105e, 0xd56041e4, 0xa2677172,
     0x3c03e4d1, 0x4b04d447, 0xd20d85fd, 0xa50ab56b, 0x35b5a8fa, 0x42b2986c,
     0xdbbbc9d6, 0xacbcf940, 0x32d86ce3, 0x45df5c75, 0xdcd60dcf, 0xabd13d59,
     0x26d930ac, 0x51de003a, 0xc8d75180, 0xbfd06116, 0x21b4f4b5, 0x56b3c423,
     0xcfba9599, 0xb8bda50f, 0x2802b89e, 0x5f058808, 0xc60cd9b2, 0xb10be924,
     0x2f6f7c87, 0x58684c11, 0xc1611dab, 0xb6662d3d, 0x76dc4190, 0x01db7106,
     0x98d220bc, 0xefd5102a, 0x71b18589, 0x06b6b51f, 0x9fbfe4a5, 0xe8b8d433,
     0x7807c9a2, 0x0f00f934, 0x9609a88e, 0xe10e9818, 0x7f6a0dbb, 0x086d3d2d,
     0x91646c97, 0xe6635c01, 0x6b6b51f4, 0x1c6c6162, 0x856530d8, 0xf262004e,
     0x6c0695ed, 0x1b01a57b, 0x8208f4c1, 0xf50fc457, 0x65b0d9c6, 0x12b7e950,
     0x8bbeb8ea, 0xfcb9887c, 0x62dd1ddf, 0x15da2d49, 0x8cd37cf3, 0xfbd44c65,
     0x4db26158, 0x3ab551ce, 0xa3bc0074, 0xd4bb30e2, 0x4adfa541, 0x3dd895d7,
     0xa4d1c46d, 0xd3d6f4fb, 0x4369e96a, 0x346ed9fc, 0xad678846, 0xda60b8d0,
     0x44042d73, 0x33031de5, 0xaa0a4c5f, 0xdd0d7cc9, 0x5005713c, 0x270241aa,
     0xbe0b1010, 0xc90c2086, 0x5768b525, 0x206f85b3, 0xb966d409, 0xce61e49f,
     0x5edef90e, 0x29d9c998, 0xb0d09822, 0xc7d7a8b4, 0x59b33d17, 0x2eb40d81,
     0xb7bd5c3b, 0xc0ba6cad, 0xedb88320, 0x9abfb3b6, 0x03b6e20c, 0x74b1d29a,
     0xead54739, 0x9dd277af, 0x04db2615, 0x73dc1683, 0xe3630b12, 0x94643b84,
     0x0d6d6a3e, 0x7a6a5aa8, 0xe40ecf0b, 0x9309ff9d, 0x0a00ae27, 0x7d079eb1,
     0xf00f9344, 0x8708a3d2, 0x1e01f268, 0x6906c2fe, 0xf762575d, 0x806567cb,
     0x196c3671, 0x6e6b06e7, 0xfed41b76, 0x89d32be0, 0x10da7a5a, 0x67dd4acc,
     0xf9b9df6f, 0x8ebeeff9, 0x17b7be43, 0x60b08ed5, 0xd6d6a3e8, 0xa1d1937e,
     0x38d8c2c4, 0x4fdff252, 0xd1bb67f1, 0xa6bc5767, 0x3fb506dd, 0x48b2364b,
     0xd80d2bda, 0xaf0a1b4c, 0x36034af6, 0x41047a60, 0xdf60efc3, 0xa867df55,
     0x316e8eef, 0x4669be79, 0xcb61b38c, 0xbc66831a, 0x256fd2a0, 0x5268e236,
     0xcc0c7795, 0xbb0b4703, 0x220216b9, 0x5505262f, 0xc5ba3bbe, 0xb2bd0b28,
     0x2bb45a92, 0x5cb36a04, 0xc2d7ffa7, 0xb5d0cf31, 0x2cd99e8b, 0x5bdeae1d,
     0x9b64c2b0, 0xec63f226, 0x756aa39c, 0x026d930a, 0x9c0906a9, 0xeb0e363f,
     0x72076785, 0x05005713, 0x95bf4a82, 0xe2b87a14, 0x7bb12bae, 0x0cb61b38,
     0x92d28e9b, 0xe5d5be0d, 0x7cdcefb7, 0x0bdbdf21, 0x86d3d2d4, 0xf1d4e242,
     0x68ddb3f8, 0x1fda836e, 0x81be16cd, 0xf6b9265b, 0x6fb077e1, 0x18b74777,
     0x88085ae6, 0xff0f6a70, 0x66063bca, 0x11010b5c, 0x8f659eff, 0xf862ae69,
     0x616bffd3, 0x166ccf45, 0xa00ae278, 0xd70dd2ee, 0x4e048354, 0x3903b3c2,
     0xa7672661, 0xd06016f7, 0x4969474d, 0x3e6e77db, 0xaed16a4a, 0xd9d65adc,
     0x40df0b66, 0x37d83bf0, 0xa9bcae53, 0xdebb9ec5, 0x47b2cf7f, 0x30b5ffe9,
     0xbdbdf21c, 0xcabac28a, 0x53b39330, 0x24b4a3a6, 0xbad03605, 0xcdd70693,
     0x54de5729, 0x23d967bf, 0xb3667a2e, 0xc4614ab8, 0x5d681b02, 0x2a6f2b94,
     0xb40bbe37, 0xc30c8ea1, 0x5a05df1b, 0x2d02ef8d]"

definition crc32_step :: "u32 \<Rightarrow> byte \<Rightarrow> u32" where
  "crc32_step crc b = kCrc32Table ! unat ((crc XOR ucast b) AND 0xFF) XOR drop_bit 8 crc"

definition crc32 :: "bytes \<Rightarrow> u32" where
  "crc32 data = foldl crc32_step 0xFFFFFFFF data XOR 0xFFFFFFFF"

section \<open>The bit-by-bit reference\<close>

definition crc_bit :: "u32 \<Rightarrow> u32" where
  "crc_bit c = (if bit c 0 then drop_bit 1 c XOR 0xEDB88320 else drop_bit 1 c)"

definition crc_byte :: "u32 \<Rightarrow> byte \<Rightarrow> u32" where
  "crc_byte c b = (crc_bit ^^ 8) (c XOR ucast b)"

definition crc32_reference :: "bytes \<Rightarrow> u32" where
  "crc32_reference data = NOT (foldl crc_byte (- 1) data)"

section \<open>The register is updated linearly and injectively\<close>

lemma crc_bit_xor: "crc_bit (a XOR b) = crc_bit a XOR crc_bit b"
  by (rule bit_word_eqI) (auto simp: crc_bit_def bit_simps)

lemma crc_bit_zero [simp]: "crc_bit 0 = 0"
  by (simp add: crc_bit_def)

lemma crc_bit_eq_zero: "crc_bit c = 0 \<Longrightarrow> c = 0"
proof -
  assume z: "crc_bit c = 0"
  have "\<not> bit c 0"
  proof
    assume "bit c 0"
    then have "bit (crc_bit c) 31"
      using bit_imp_le_length [of c 32] by (auto simp: crc_bit_def bit_simps)
    with z show False by simp
  qed
  then have d: "drop_bit 1 c = 0"
    using z by (simp add: crc_bit_def)
  show "c = 0"
  proof (rule bit_word_eqI)
    fix i
    show "bit c i = bit (0 :: u32) i"
      using \<open>\<not> bit c 0\<close> arg_cong [OF d, of "\<lambda>w. bit w (i - 1)"]
      by (cases i) (simp_all add: bit_simps)
  qed
qed

lemma crc_bits_xor: "(crc_bit ^^ n) (a XOR b) = (crc_bit ^^ n) a XOR (crc_bit ^^ n) b"
  by (induction n) (simp_all add: crc_bit_xor)

lemma crc_bits_inj: "(crc_bit ^^ n) a = (crc_bit ^^ n) b \<Longrightarrow> a = b"
proof -
  assume "(crc_bit ^^ n) a = (crc_bit ^^ n) b"
  then have "(crc_bit ^^ n) (a XOR b) = 0"
    by (simp add: crc_bits_xor)
  moreover have "(crc_bit ^^ n) c = 0 \<Longrightarrow> c = 0" for c
    by (induction n) (auto dest: crc_bit_eq_zero)
  ultimately have "a XOR b = 0" by blast
  moreover have "a = (a XOR b) XOR b" by (simp add: xor.assoc)
  ultimately show "a = b" by simp
qed

text \<open>Eight steps on a register whose low byte is clear only shift it.\<close>

lemma crc_bits_shift: "n \<le> 8 \<Longrightarrow> (crc_bit ^^ n) (push_bit 8 d) = drop_bit n (push_bit 8 d)"
proof (induction n)
  case (Suc n)
  then have "(crc_bit ^^ Suc n) (push_bit 8 d) = crc_bit (drop_bit n (push_bit 8 d))"
    by simp
  also have "\<dots> = drop_bit 1 (drop_bit n (push_bit 8 d))"
    using Suc.prems by (simp add: crc_bit_def bit_simps)
  finally show ?case by (simp add: drop_bit_drop_bit)
qed simp

lemma and_255_eq: "(c :: u32) AND 0xFF = take_bit 8 c"
  by (simp add: take_bit_eq_mask mask_eq_exp_minus_1)

lemma crc_bits_split:
  "(crc_bit ^^ 8) c = (crc_bit ^^ 8) (c AND 0xFF) XOR drop_bit 8 c"
proof -
  have "c = take_bit 8 c XOR push_bit 8 (drop_bit 8 c)"
    by (rule bit_word_eqI) (auto simp: bit_simps)
  then have "(crc_bit ^^ 8) c = (crc_bit ^^ 8) (take_bit 8 c XOR push_bit 8 (drop_bit 8 c))"
    by (rule arg_cong)
  also have "\<dots> = (crc_bit ^^ 8) (take_bit 8 c) XOR drop_bit 8 (push_bit 8 (drop_bit 8 c))"
    by (simp only: crc_bits_xor crc_bits_shift order_refl)
  also have "drop_bit 8 (push_bit 8 (drop_bit 8 c)) = drop_bit 8 c"
    by (rule bit_word_eqI) (auto simp: bit_simps dest: bit_imp_le_length)
  finally show ?thesis by (simp only: and_255_eq)
qed

section \<open>The table\<close>

text \<open>The reference step on integers, where the kernel evaluates the 2048 steps of the table
  quickly.\<close>

definition crc_bit_int :: "int \<Rightarrow> int" where
  "crc_bit_int x = (if odd x then x div 2 XOR 0xEDB88320 else x div 2)"

definition crc_byte_int :: "int \<Rightarrow> int" where
  "crc_byte_int x = crc_bit_int (crc_bit_int (crc_bit_int (crc_bit_int
     (crc_bit_int (crc_bit_int (crc_bit_int (crc_bit_int x)))))))"

lemma crc_bit_int_simps:
  "crc_bit_int 0 = 0" "crc_bit_int 1 = 0xEDB88320"
  "crc_bit_int (numeral (num.Bit0 n)) = numeral n"
  "crc_bit_int (numeral (num.Bit1 n)) = numeral n XOR 0xEDB88320"
  by (simp_all add: crc_bit_int_def)

lemma uint_crc_bit: "uint (crc_bit c) = crc_bit_int (uint c)"
proof -
  have "bit (uint c) 0 = bit c 0"
    by (simp add: bit_uint_iff)
  then have "bit c 0 = odd (uint c)"
    by (simp add: bit_0 [of "uint c"])
  moreover have "uint (drop_bit 1 c) = drop_bit 1 (uint c)"
    by (rule bit_eqI) (auto simp: bit_simps dest: bit_imp_le_length)
  moreover have "drop_bit 1 (uint c) = uint c div 2"
    by (simp add: drop_bit_eq_div)
  ultimately show ?thesis
    by (simp add: crc_bit_def crc_bit_int_def unsigned_xor_eq)
qed

lemma uint_crc_byte: "uint ((crc_bit ^^ 8) c) = crc_byte_int (uint c)"
  by (simp add: numeral_eq_Suc crc_byte_int_def uint_crc_bit)

lemma kCrc32Table_int: "map uint kCrc32Table = map crc_byte_int [0..255]"
  by (simp add: kCrc32Table_def upto_rec1 crc_byte_int_def crc_bit_int_simps)

lemma length_kCrc32Table: "length kCrc32Table = 256"
  by (simp add: kCrc32Table_def)

lemma kCrc32Table_nth:
  assumes "i < 256"
  shows "kCrc32Table ! i = (crc_bit ^^ 8) (word_of_nat i)"
proof -
  have "uint (kCrc32Table ! i) = map uint kCrc32Table ! i"
    using assms by (simp add: length_kCrc32Table)
  also have "\<dots> = crc_byte_int (int i)"
    unfolding kCrc32Table_int using assms by (simp add: nth_upto)
  also have "\<dots> = uint ((crc_bit ^^ 8) (word_of_nat i :: u32))"
    using assms by (simp add: uint_crc_byte unsigned_of_nat take_bit_nat_eq_self)
  finally show ?thesis by (rule word_uint_eqI)
qed

lemma crc32_step_eq: "crc32_step c b = crc_byte c b"
proof -
  have idx: "unat ((c XOR ucast b) AND 0xFF) < 256"
  proof -
    have "unat (take_bit 8 (c XOR ucast b)) = take_bit 8 (unat (c XOR ucast b))"
      by (rule unsigned_take_bit_eq)
    also have "\<dots> < 2 ^ 8"
      by (rule take_bit_nat_less_exp)
    finally show ?thesis
      by (simp only: and_255_eq) simp
  qed
  have "drop_bit 8 (c XOR ucast b) = drop_bit 8 c"
    by (rule bit_word_eqI) (auto simp: bit_simps dest: bit_imp_le_length)
  then show ?thesis
    unfolding crc32_step_def crc_byte_def
    by (subst kCrc32Table_nth [OF idx], subst crc_bits_split) simp
qed

lemma crc32_eq_reference: "crc32 data = crc32_reference data"
proof -
  have "foldl crc32_step c data = foldl crc_byte c data" for c
    by (induction data arbitrary: c) (simp_all add: crc32_step_eq)
  moreover have ones: "(0xFFFFFFFF :: u32) = - 1"
    by simp
  moreover have "x XOR - 1 = NOT x" for x :: u32
    by (rule bit_word_eqI) (simp add: bit_simps)
  ultimately show ?thesis
    unfolding crc32_def crc32_reference_def ones by simp
qed

section \<open>Detection of short bursts\<close>

lemma or_push_eq_xor: "ucast b OR push_bit 8 w = (ucast (b :: byte) XOR push_bit 8 w :: u32)"
proof (rule bit_word_eqI)
  fix i
  show "bit (ucast b OR push_bit 8 w :: u32) i = bit (ucast b XOR push_bit 8 w :: u32) i"
    using bit_imp_le_length [of b i] by (auto simp: bit_simps)
qed

lemma foldl_crc_byte_short:
  "length d \<le> 4 \<Longrightarrow> foldl crc_byte c d = (crc_bit ^^ (8 * length d)) (c XOR le_word d)"
proof (induction d arbitrary: c)
  case (Cons b d)
  let ?w = "le_word d :: u32"
  have shift: "(crc_bit ^^ 8) (push_bit 8 ?w) = ?w"
    using Cons.prems drop_push_le_word [of d, where 'a = 32]
    by (simp add: crc_bits_shift)
  have "foldl crc_byte c (b # d) = (crc_bit ^^ (8 * length d)) (crc_byte c b XOR ?w)"
    using Cons by simp
  also have "crc_byte c b XOR ?w = (crc_bit ^^ 8) (c XOR ucast b XOR push_bit 8 ?w)"
    by (simp only: crc_byte_def crc_bits_xor shift xor.assoc)
  also have "c XOR ucast b XOR push_bit 8 ?w = c XOR le_word (b # d)"
    by (simp add: or_push_eq_xor ac_simps)
  moreover have "8 * length (b # d) = 8 * length d + 8"
    by simp
  ultimately show ?case
    by (simp only: funpow_add o_apply)
qed simp

lemma crc_foldl_inj: "foldl crc_byte c d = foldl crc_byte c' d \<Longrightarrow> c = c'"
proof (induction d arbitrary: c c')
  case (Cons b d)
  then have "crc_byte c b = crc_byte c' b" by simp
  then have "c XOR ucast b = c' XOR ucast b"
    unfolding crc_byte_def by (rule crc_bits_inj)
  then show ?case
    by (simp add: xor_left_cancel xor.commute [of _ "ucast b"])
qed simp

lemma crc32_short_burst:
  assumes len: "length a = length b" "length b \<le> 4" and ne: "a \<noteq> b"
  shows "crc32 (xs @ a @ ys) \<noteq> crc32 (xs @ b @ ys)"
proof
  let ?c = "foldl crc_byte (- 1) xs"
  assume "crc32 (xs @ a @ ys) = crc32 (xs @ b @ ys)"
  then have "foldl crc_byte (foldl crc_byte ?c a) ys = foldl crc_byte (foldl crc_byte ?c b) ys"
    by (simp add: crc32_eq_reference crc32_reference_def)
  then have "foldl crc_byte ?c a = foldl crc_byte ?c b"
    by (rule crc_foldl_inj)
  then have "(crc_bit ^^ (8 * length b)) (?c XOR le_word a)
      = (crc_bit ^^ (8 * length b)) (?c XOR le_word b)"
    using len by (simp add: foldl_crc_byte_short)
  then have "?c XOR le_word a = ?c XOR le_word b"
    by (rule crc_bits_inj)
  then have "(le_word a :: u32) = le_word b"
    by (simp only: xor_left_cancel)
  with len have "a = b"
    by (intro le_word_inject [where 'a = 32]) simp_all
  with ne show False by simp
qed

section \<open>Properties\<close>

text \<open>C27: The table-driven checksum is the bit-by-bit CRC32 of IEEE 802.3 (reflected
  polynomial \<open>0xEDB88320\<close>, register preset to and result complemented with all ones), on
  every input.\<close>

theorem crc32_is_ieee: "crc32 data = crc32_reference data"
  by (rule crc32_eq_reference)

text \<open>A change confined to at most four consecutive bytes always changes the checksum,
  wherever it happens and whatever the data around it.\<close>

theorem crc32_detects_burst:
  assumes "length a = length b" and "length b \<le> 4" and "a \<noteq> b"
  shows "crc32 (xs @ a @ ys) \<noteq> crc32 (xs @ b @ ys)"
  using assms by (rule crc32_short_burst)

theorem crc32_detects_burst_witness:
  "crc32 ([0x52, 0x50] @ [1, 2, 3, 4] @ [9]) \<noteq> crc32 ([0x52, 0x50] @ [1, 2, 3, 5] @ [9])"
  by (rule crc32_detects_burst) simp_all

end
