(* ===== verification/Protobuf.thy ===== *)
theory Protobuf
  imports Rpc_Prelude "HOL-Library.List_Lexorder" "HOL-Library.Multiset"
begin

text \<open>
  The generated message classes of \<^verbatim>\<open>src/src/protocol/rpc_service.pb.cc\<close>: what they share, and
  the two the framework sends, \<open>RpcRequest\<close> and \<open>RpcResponse\<close>, with their \<^verbatim>\<open>Clear\<close>,
  \<^verbatim>\<open>_InternalParse\<close>, \<^verbatim>\<open>_InternalSerialize\<close>, \<^verbatim>\<open>ByteSizeLong\<close>, \<^verbatim>\<open>MergeFrom\<close>, \<^verbatim>\<open>CopyFrom\<close> and
  \<^verbatim>\<open>InternalSwap\<close>, and the fields of \<open>Heartbeat\<close>, which the codec writes itself.  The other
  classes are in \<open>ServiceMessages\<close>.  A map field is the association list of its entries in
  iteration order, with distinct keys.

  Every generated parser is the same loop around a \<^verbatim>\<open>switch\<close> on the tag: the loop is
  \<open>parse_fields\<close>, the \<^verbatim>\<open>switch\<close> of a class its argument.  What a class does with a tag is a
  \<open>field_handler\<close>; \<open>handler_ok\<close> is what the loop relies on, and \<open>parses\<close> describes a parse that
  succeeds, with a rule for each way a field is written.

  The protobuf runtime the generated code calls is not part of the repository: it is the
  record argument \<open>pb_runtime\<close>, and the locale \<open>wire_runtime\<close> states what its documentation
  promises of it (a field written is read back, the sizes are those written, reading
  consumes input).  The theory \<open>Wire_Format\<close> interprets it.
\<close>

section \<open>Message classes\<close>

record RpcRequest =
  req_payload :: bytes
  req_metadata :: "(bytes \<times> bytes) list"
  req_unknown :: bytes

record RpcResponse =
  resp_success :: bool
  resp_payload :: bytes
  resp_error_msg :: bytes
  resp_unknown :: bytes

record Heartbeat =
  hb_service_name :: bytes
  hb_node_id :: bytes
  hb_timestamp :: int
  hb_extra :: "(bytes \<times> bytes) list"
  hb_unknown :: bytes

section \<open>The runtime\<close>

record pb_runtime =
  rt_ReadTag :: "bytes \<Rightarrow> (u32 \<times> bytes) option"
  rt_ReadVarint64 :: "bytes \<Rightarrow> (u64 \<times> bytes) option"
  rt_ReadString :: "bytes \<Rightarrow> (bytes \<times> bytes) option"
  rt_ParseMapEntry :: "bytes \<Rightarrow> ((bytes \<times> bytes) \<times> bytes) option"
  rt_ReadMessage :: "bytes \<Rightarrow> (bytes \<times> bytes) option"
  rt_UnknownFieldParse :: "u32 \<Rightarrow> bytes \<Rightarrow> (bytes \<times> bytes) option"
  rt_VerifyUTF8 :: "bytes \<Rightarrow> bool"
  rt_WriteBool :: "nat \<Rightarrow> bool \<Rightarrow> bytes"
  rt_WriteBytes :: "nat \<Rightarrow> bytes \<Rightarrow> bytes"
  rt_WriteString :: "nat \<Rightarrow> bytes \<Rightarrow> bytes"
  rt_WriteMapEntry :: "nat \<Rightarrow> bytes \<Rightarrow> bytes \<Rightarrow> bytes"
  rt_WriteInt64 :: "nat \<Rightarrow> int \<Rightarrow> bytes"
  rt_WriteInt32 :: "nat \<Rightarrow> int \<Rightarrow> bytes"
  rt_WriteMessage :: "nat \<Rightarrow> bytes \<Rightarrow> bytes"
  rt_BytesSize :: "bytes \<Rightarrow> nat"
  rt_MapEntrySize :: "bytes \<Rightarrow> bytes \<Rightarrow> nat"
  rt_Int64Size :: "int \<Rightarrow> nat"
  rt_Int32Size :: "int \<Rightarrow> nat"
  rt_MessageSize :: "nat \<Rightarrow> nat"
  rt_IsDeterministic :: bool
  rt_SizeAccepted :: "nat \<Rightarrow> bool"
  rt_EndAccepted :: "u32 option \<Rightarrow> bool"
  rt_LimitAccepted :: "u32 option \<Rightarrow> bool"
  rt_PartialRequest :: "bytes \<Rightarrow> RpcRequest"
  rt_PartialResponse :: "bytes \<Rightarrow> RpcResponse"

text \<open>The last two are what a failed parse leaves in the message it parsed into.\<close>

text \<open>A parse step fails (a null pointer), runs out of fuel, or yields a value.\<close>

datatype 'a step = Failed | OutOfFuel | Done 'a

primrec step_bind :: "'a step \<Rightarrow> ('a \<Rightarrow> 'b step) \<Rightarrow> 'b step" where
  "step_bind Failed f = Failed"
| "step_bind OutOfFuel f = OutOfFuel"
| "step_bind (Done x) f = f x"

primrec null_fails :: "'a option \<Rightarrow> 'a step" where
  "null_fails None = Failed"
| "null_fails (Some x) = Done x"

section \<open>The loop of a generated parser\<close>

text \<open>What a class does behind a tag: it reads a value into the message, or fails.\<close>

type_synonym 'm field_handler = "nat \<Rightarrow> 'm \<Rightarrow> bytes \<Rightarrow> ('m \<times> bytes) step"

fun parse_fields :: "pb_runtime \<Rightarrow> (u32 \<Rightarrow> 'm field_handler option) \<Rightarrow> (bytes \<Rightarrow> 'm \<Rightarrow> 'm)
    \<Rightarrow> nat \<Rightarrow> 'm \<Rightarrow> bytes \<Rightarrow> ('m \<times> u32 option) step" where
  "parse_fields rt field unknown 0 m ptr = OutOfFuel"
| "parse_fields rt field unknown (Suc n) m ptr =
     (if ptr = [] then Done (m, None)
      else step_bind (null_fails (rt_ReadTag rt ptr)) (\<lambda>(tag, p).
        case field tag of
          Some h \<Rightarrow> step_bind (h n m p) (\<lambda>(m', q). parse_fields rt field unknown n m' q)
        | None \<Rightarrow>
            if tag AND 7 = 4 \<or> tag = 0 then Done (m, Some tag)
            else step_bind (null_fails (rt_UnknownFieldParse rt tag p)) (\<lambda>(raw, q).
              parse_fields rt field unknown n (unknown raw m) q)))"

text \<open>The handlers of \<^verbatim>\<open>bytes\<close>, \<^verbatim>\<open>string\<close> and integer fields.\<close>

definition bytes_value :: "pb_runtime \<Rightarrow> (bytes \<Rightarrow> 'm \<Rightarrow> 'm) \<Rightarrow> 'm field_handler" where
  "bytes_value rt put n m p = step_bind (null_fails (rt_ReadString rt p)) (\<lambda>(s, q). Done (put s m, q))"

definition string_value :: "pb_runtime \<Rightarrow> (bytes \<Rightarrow> 'm \<Rightarrow> 'm) \<Rightarrow> 'm field_handler" where
  "string_value rt put n m p = step_bind (null_fails (rt_ReadString rt p)) (\<lambda>(s, q).
     if rt_VerifyUTF8 rt s then Done (put s m, q) else Failed)"

definition varint_value :: "pb_runtime \<Rightarrow> (u64 \<Rightarrow> 'm \<Rightarrow> 'm) \<Rightarrow> 'm field_handler" where
  "varint_value rt put n m p = step_bind (null_fails (rt_ReadVarint64 rt p)) (\<lambda>(w, q). Done (put w m, q))"

text \<open>The \<^verbatim>\<open>do\<close> loop over consecutive elements of a map or a repeated field, each behind the
  same tag byte.\<close>

fun repeat_field :: "(bytes \<Rightarrow> ('e \<times> bytes) step) \<Rightarrow> byte \<Rightarrow> ('e \<Rightarrow> 'm \<Rightarrow> 'm) \<Rightarrow> 'm field_handler" where
  "repeat_field rd tag add 0 m ptr = OutOfFuel"
| "repeat_field rd tag add (Suc n) m ptr =
     step_bind (rd ptr) (\<lambda>(e, q).
       if q \<noteq> [] \<and> hd q = tag then repeat_field rd tag add n (add e m) (tl q)
       else Done (add e m, q))"

definition map_value :: "pb_runtime \<Rightarrow> byte \<Rightarrow> (bytes \<times> bytes \<Rightarrow> 'm \<Rightarrow> 'm) \<Rightarrow> 'm field_handler" where
  "map_value rt tag add = repeat_field (\<lambda>p. null_fails (rt_ParseMapEntry rt p)) tag add"

text \<open>The entries of a map in the order they are written, and the bytes of a map field.\<close>

definition map_entries :: "pb_runtime \<Rightarrow> (bytes \<times> bytes) list \<Rightarrow> (bytes \<times> bytes) list" where
  "map_entries rt es = (if rt_IsDeterministic rt \<and> length es > 1 then sort_key fst es else es)"

definition write_map :: "pb_runtime \<Rightarrow> nat \<Rightarrow> (bytes \<times> bytes) list \<Rightarrow> bytes" where
  "write_map rt f es =
     (if es \<noteq> [] then concat (map (\<lambda>(k, v). rt_WriteMapEntry rt f k v) (map_entries rt es)) else [])"

definition map_size :: "pb_runtime \<Rightarrow> (bytes \<times> bytes) list \<Rightarrow> nat" where
  "map_size rt es = 1 * length es + sum_list (map (\<lambda>(k, v). rt_MapEntrySize rt k v) es)"

definition merge_map :: "(bytes \<times> bytes) list \<Rightarrow> (bytes \<times> bytes) list \<Rightarrow> (bytes \<times> bytes) list" where
  "merge_map al es = foldl (\<lambda>al (k, v). AList.update k v al) al es"

text \<open>A field whose value is the default of its type is not written and takes no space.\<close>

definition write_string :: "pb_runtime \<Rightarrow> nat \<Rightarrow> bytes \<Rightarrow> bytes" where
  "write_string rt f v = (if length v > 0 then rt_WriteString rt f v else [])"

definition string_size :: "pb_runtime \<Rightarrow> bytes \<Rightarrow> nat" where
  "string_size rt v = (if length v > 0 then 1 + rt_BytesSize rt v else 0)"

text \<open>\<^verbatim>\<open>SerializeToString\<close> and \<^verbatim>\<open>ParseFromString\<close>: the runtime's drivers around the generated
  methods, which refuse a message that is too large and an input that does not end at its
  end.\<close>

definition serialize_with :: "pb_runtime \<Rightarrow> ('m \<Rightarrow> nat) \<Rightarrow> ('m \<Rightarrow> bytes) \<Rightarrow> 'm \<Rightarrow> bytes option" where
  "serialize_with rt sz ser m = (if rt_SizeAccepted rt (sz m) then Some (ser m) else None)"

definition parse_with :: "pb_runtime \<Rightarrow> (nat \<Rightarrow> 'm \<Rightarrow> bytes \<Rightarrow> ('m \<times> u32 option) step) \<Rightarrow> 'm \<Rightarrow> bytes \<Rightarrow> 'm option" where
  "parse_with rt prs new data =
     (case prs (Suc (length data)) new data of
        Done (m, e) \<Rightarrow> if rt_EndAccepted rt e then Some m else None
      | _ \<Rightarrow> None)"

section \<open>Operations of the message classes\<close>

subsection \<open>RpcRequest\<close>

definition RpcRequest_Clear :: "RpcRequest \<Rightarrow> RpcRequest" where
  "RpcRequest_Clear m = m\<lparr>req_metadata := [], req_payload := [], req_unknown := []\<rparr>"

definition RpcRequest_new :: RpcRequest where
  "RpcRequest_new = \<lparr>req_payload = [], req_metadata = [], req_unknown = []\<rparr>"

definition RpcRequest_copy :: "RpcRequest \<Rightarrow> RpcRequest" where
  "RpcRequest_copy from = \<lparr>req_payload = req_payload from, req_metadata = merge_map [] (req_metadata from),
     req_unknown = req_unknown from\<rparr>"

definition RpcRequest_set_metadata :: "bytes \<Rightarrow> bytes \<Rightarrow> RpcRequest \<Rightarrow> RpcRequest" where
  "RpcRequest_set_metadata k v m = m\<lparr>req_metadata := AList.update k v (req_metadata m)\<rparr>"

definition RpcRequest_field :: "pb_runtime \<Rightarrow> u32 \<Rightarrow> RpcRequest field_handler option" where
  "RpcRequest_field rt tag =
     (if drop_bit 3 tag = 1 \<and> (ucast tag :: u8) = 10
      then Some (bytes_value rt (\<lambda>s m. m\<lparr>req_payload := s\<rparr>))
      else if drop_bit 3 tag = 2 \<and> (ucast tag :: u8) = 18
      then Some (map_value rt 18 (\<lambda>(k, v). RpcRequest_set_metadata k v))
      else None)"

definition RpcRequest_InternalParse ::
  "pb_runtime \<Rightarrow> nat \<Rightarrow> RpcRequest \<Rightarrow> bytes \<Rightarrow> (RpcRequest \<times> u32 option) step" where
  "RpcRequest_InternalParse rt =
     parse_fields rt (RpcRequest_field rt) (\<lambda>raw m. m\<lparr>req_unknown := req_unknown m @ raw\<rparr>)"

definition RpcRequest_InternalSerialize :: "pb_runtime \<Rightarrow> RpcRequest \<Rightarrow> bytes" where
  "RpcRequest_InternalSerialize rt m =
     (if length (req_payload m) > 0 then rt_WriteBytes rt 1 (req_payload m) else [])
     @ write_map rt 2 (req_metadata m)
     @ req_unknown m"

definition RpcRequest_ByteSizeLong :: "pb_runtime \<Rightarrow> RpcRequest \<Rightarrow> nat" where
  "RpcRequest_ByteSizeLong rt m =
     map_size rt (req_metadata m)
     + (if length (req_payload m) > 0 then 1 + rt_BytesSize rt (req_payload m) else 0)
     + length (req_unknown m)"

definition RpcRequest_MergeFrom :: "RpcRequest \<Rightarrow> RpcRequest \<Rightarrow> RpcRequest" where
  "RpcRequest_MergeFrom this from =
     (let m = this\<lparr>req_unknown := req_unknown this @ req_unknown from,
                   req_metadata := merge_map (req_metadata this) (req_metadata from)\<rparr>
      in if length (req_payload from) > 0 then m\<lparr>req_payload := req_payload from\<rparr> else m)"

definition RpcRequest_CopyFrom :: "RpcRequest \<Rightarrow> RpcRequest \<Rightarrow> RpcRequest" where
  "RpcRequest_CopyFrom this from = RpcRequest_MergeFrom (RpcRequest_Clear this) from"

definition RpcRequest_Swap :: "RpcRequest \<Rightarrow> RpcRequest \<Rightarrow> RpcRequest \<times> RpcRequest" where
  "RpcRequest_Swap this other =
     (this\<lparr>req_unknown := req_unknown other, req_metadata := req_metadata other, req_payload := req_payload other\<rparr>,
      other\<lparr>req_unknown := req_unknown this, req_metadata := req_metadata this, req_payload := req_payload this\<rparr>)"

definition RpcRequest_SerializeToString :: "pb_runtime \<Rightarrow> RpcRequest \<Rightarrow> bytes option" where
  "RpcRequest_SerializeToString rt =
     serialize_with rt (RpcRequest_ByteSizeLong rt) (RpcRequest_InternalSerialize rt)"

definition RpcRequest_ParseFromString :: "pb_runtime \<Rightarrow> bytes \<Rightarrow> RpcRequest option" where
  "RpcRequest_ParseFromString rt = parse_with rt (RpcRequest_InternalParse rt) RpcRequest_new"

subsection \<open>RpcResponse\<close>

definition RpcResponse_Clear :: "RpcResponse \<Rightarrow> RpcResponse" where
  "RpcResponse_Clear m =
     m\<lparr>resp_payload := [], resp_error_msg := [], resp_success := False, resp_unknown := []\<rparr>"

definition RpcResponse_new :: RpcResponse where
  "RpcResponse_new =
     \<lparr>resp_success = False, resp_payload = [], resp_error_msg = [], resp_unknown = []\<rparr>"

definition RpcResponse_copy :: "RpcResponse \<Rightarrow> RpcResponse" where
  "RpcResponse_copy from = \<lparr>resp_success = resp_success from, resp_payload = resp_payload from,
     resp_error_msg = resp_error_msg from, resp_unknown = resp_unknown from\<rparr>"

definition RpcResponse_field :: "pb_runtime \<Rightarrow> u32 \<Rightarrow> RpcResponse field_handler option" where
  "RpcResponse_field rt tag =
     (if drop_bit 3 tag = 1 \<and> (ucast tag :: u8) = 8
      then Some (varint_value rt (\<lambda>w m. m\<lparr>resp_success := (w \<noteq> 0)\<rparr>))
      else if drop_bit 3 tag = 2 \<and> (ucast tag :: u8) = 18
      then Some (bytes_value rt (\<lambda>s m. m\<lparr>resp_payload := s\<rparr>))
      else if drop_bit 3 tag = 3 \<and> (ucast tag :: u8) = 26
      then Some (string_value rt (\<lambda>s m. m\<lparr>resp_error_msg := s\<rparr>))
      else None)"

definition RpcResponse_InternalParse ::
  "pb_runtime \<Rightarrow> nat \<Rightarrow> RpcResponse \<Rightarrow> bytes \<Rightarrow> (RpcResponse \<times> u32 option) step" where
  "RpcResponse_InternalParse rt =
     parse_fields rt (RpcResponse_field rt) (\<lambda>raw m. m\<lparr>resp_unknown := resp_unknown m @ raw\<rparr>)"

definition RpcResponse_InternalSerialize :: "pb_runtime \<Rightarrow> RpcResponse \<Rightarrow> bytes" where
  "RpcResponse_InternalSerialize rt m =
     (if resp_success m then rt_WriteBool rt 1 (resp_success m) else [])
     @ (if length (resp_payload m) > 0 then rt_WriteBytes rt 2 (resp_payload m) else [])
     @ write_string rt 3 (resp_error_msg m)
     @ resp_unknown m"

definition RpcResponse_ByteSizeLong :: "pb_runtime \<Rightarrow> RpcResponse \<Rightarrow> nat" where
  "RpcResponse_ByteSizeLong rt m =
     (if length (resp_payload m) > 0 then 1 + rt_BytesSize rt (resp_payload m) else 0)
     + string_size rt (resp_error_msg m)
     + (if resp_success m then 1 + 1 else 0)
     + length (resp_unknown m)"

definition RpcResponse_MergeFrom :: "RpcResponse \<Rightarrow> RpcResponse \<Rightarrow> RpcResponse" where
  "RpcResponse_MergeFrom this from =
     (let m = this\<lparr>resp_unknown := resp_unknown this @ resp_unknown from\<rparr>;
          m = (if length (resp_payload from) > 0 then m\<lparr>resp_payload := resp_payload from\<rparr> else m);
          m = (if length (resp_error_msg from) > 0
               then m\<lparr>resp_error_msg := resp_error_msg from\<rparr> else m)
      in if resp_success from then m\<lparr>resp_success := resp_success from\<rparr> else m)"

definition RpcResponse_CopyFrom :: "RpcResponse \<Rightarrow> RpcResponse \<Rightarrow> RpcResponse" where
  "RpcResponse_CopyFrom this from = RpcResponse_MergeFrom (RpcResponse_Clear this) from"

definition RpcResponse_Swap :: "RpcResponse \<Rightarrow> RpcResponse \<Rightarrow> RpcResponse \<times> RpcResponse" where
  "RpcResponse_Swap this other =
     (this\<lparr>resp_unknown := resp_unknown other, resp_payload := resp_payload other,
        resp_error_msg := resp_error_msg other, resp_success := resp_success other\<rparr>,
      other\<lparr>resp_unknown := resp_unknown this, resp_payload := resp_payload this,
        resp_error_msg := resp_error_msg this, resp_success := resp_success this\<rparr>)"

definition RpcResponse_SerializeToString :: "pb_runtime \<Rightarrow> RpcResponse \<Rightarrow> bytes option" where
  "RpcResponse_SerializeToString rt =
     serialize_with rt (RpcResponse_ByteSizeLong rt) (RpcResponse_InternalSerialize rt)"

definition RpcResponse_ParseFromString :: "pb_runtime \<Rightarrow> bytes \<Rightarrow> RpcResponse option" where
  "RpcResponse_ParseFromString rt = parse_with rt (RpcResponse_InternalParse rt) RpcResponse_new"

text \<open>The error responses the framework makes: \<^verbatim>\<open>set_success(false); set_error_msg(s)\<close>.\<close>

definition error_response :: "bytes \<Rightarrow> RpcResponse" where
  "error_response s = RpcResponse_new\<lparr>resp_success := False, resp_error_msg := s\<rparr>"

subsection \<open>Heartbeat\<close>

definition Heartbeat_new :: Heartbeat where
  "Heartbeat_new = \<lparr>hb_service_name = [], hb_node_id = [], hb_timestamp = 0, hb_extra = [],
     hb_unknown = []\<rparr>"

section \<open>What the runtime promises\<close>

text \<open>The largest length the runtime reads for a field, \<^verbatim>\<open>INT_MAX\<close> less its slop bytes.\<close>

definition kMaxField :: nat where "kMaxField = 2147483631"

locale wire_runtime =
  fixes rt :: pb_runtime
  assumes tag_consumes: "rt_ReadTag rt p = Some (t, q) \<Longrightarrow> length q < length p"
    and varint_consumes: "rt_ReadVarint64 rt p = Some (w, q) \<Longrightarrow> length q \<le> length p"
    and string_consumes: "rt_ReadString rt p = Some (s, q) \<Longrightarrow> length q \<le> length p"
    and entry_consumes: "rt_ParseMapEntry rt p = Some (e, q) \<Longrightarrow> length q \<le> length p"
    and unknown_consumes: "rt_UnknownFieldParse rt t p = Some (s, q) \<Longrightarrow> length q \<le> length p"
    and tag_one_byte: "b < 128 \<Longrightarrow> rt_ReadTag rt (b # p) = Some (ucast b, p)"
    and bool_field: "0 < f \<Longrightarrow> f < 16 \<Longrightarrow>
      \<exists>body. rt_WriteBool rt f True = of_nat (8 * f) # body
        \<and> (\<forall>r. rt_ReadVarint64 rt (body @ r) = Some (1, r))"
    and bytes_field: "0 < f \<Longrightarrow> f < 16 \<Longrightarrow> length v \<le> kMaxField \<Longrightarrow>
      \<exists>body. rt_WriteBytes rt f v = of_nat (8 * f + 2) # body
        \<and> (\<forall>r. rt_ReadString rt (body @ r) = Some (v, r))"
    and string_field: "0 < f \<Longrightarrow> f < 16 \<Longrightarrow> length v \<le> kMaxField \<Longrightarrow>
      \<exists>body. rt_WriteString rt f v = of_nat (8 * f + 2) # body
        \<and> (\<forall>r. rt_ReadString rt (body @ r) = Some (v, r))"
    and entry_field: "0 < f \<Longrightarrow> f < 16 \<Longrightarrow> rt_MapEntrySize rt k v \<le> kMaxField \<Longrightarrow>
      rt_VerifyUTF8 rt k \<Longrightarrow> rt_VerifyUTF8 rt v \<Longrightarrow>
      \<exists>body. rt_WriteMapEntry rt f k v = of_nat (8 * f + 2) # body
        \<and> (\<forall>r. rt_ParseMapEntry rt (body @ r) = Some ((k, v), r))"
    and int64_field: "0 < f \<Longrightarrow> f < 16 \<Longrightarrow> - (2 ^ 63) \<le> i \<Longrightarrow> i < 2 ^ 63 \<Longrightarrow>
      \<exists>body. rt_WriteInt64 rt f i = of_nat (8 * f) # body
        \<and> (\<forall>r. rt_ReadVarint64 rt (body @ r) = Some (word_of_int i, r))"
    and int32_field: "0 < f \<Longrightarrow> f < 16 \<Longrightarrow> - (2 ^ 31) \<le> i \<Longrightarrow> i < 2 ^ 31 \<Longrightarrow>
      \<exists>body. rt_WriteInt32 rt f i = of_nat (8 * f) # body
        \<and> (\<forall>r. rt_ReadVarint64 rt (body @ r) = Some (word_of_int i, r))"
    and message_field: "0 < f \<Longrightarrow> f < 16 \<Longrightarrow> length v \<le> kMaxField \<Longrightarrow>
      \<exists>body. rt_WriteMessage rt f v = of_nat (8 * f + 2) # body
        \<and> (\<forall>r. rt_ReadMessage rt (body @ r) = Some (v, r))"
    and message_consumes: "rt_ReadMessage rt p = Some (s, q) \<Longrightarrow> length q \<le> length p"
    and bool_size: "0 < f \<Longrightarrow> f < 16 \<Longrightarrow> length (rt_WriteBool rt f True) = 2"
    and bytes_size: "0 < f \<Longrightarrow> f < 16 \<Longrightarrow> length (rt_WriteBytes rt f v) = 1 + rt_BytesSize rt v"
    and string_bytes_size: "0 < f \<Longrightarrow> f < 16 \<Longrightarrow> length (rt_WriteString rt f v) = 1 + rt_BytesSize rt v"
    and entry_size: "0 < f \<Longrightarrow> f < 16 \<Longrightarrow>
      length (rt_WriteMapEntry rt f k v) = 1 + rt_MapEntrySize rt k v"
    and int64_size: "0 < f \<Longrightarrow> f < 16 \<Longrightarrow> length (rt_WriteInt64 rt f i) = 1 + rt_Int64Size rt i"
    and int32_size: "0 < f \<Longrightarrow> f < 16 \<Longrightarrow> length (rt_WriteInt32 rt f i) = 1 + rt_Int32Size rt i"
    and message_size: "0 < f \<Longrightarrow> f < 16 \<Longrightarrow>
      length (rt_WriteMessage rt f v) = 1 + rt_MessageSize rt (length v)"
    and bytes_size_ge: "length v \<le> rt_BytesSize rt v"
    and bytes_size_le: "length v < 2 ^ 32 \<Longrightarrow> rt_BytesSize rt v \<le> length v + 5"
    and message_size_ge: "n \<le> rt_MessageSize rt n"
    and size_accepted: "n \<le> 2147483647 \<Longrightarrow> rt_SizeAccepted rt n"
    and end_accepted: "rt_EndAccepted rt None"
    and limit_accepted: "rt_LimitAccepted rt None"

section \<open>Messages that survive the wire\<close>

definition req_ok :: "pb_runtime \<Rightarrow> RpcRequest \<Rightarrow> bool" where
  "req_ok rt m \<longleftrightarrow> distinct (map fst (req_metadata m))
     \<and> list_all (\<lambda>(k, v). rt_VerifyUTF8 rt k \<and> rt_VerifyUTF8 rt v) (req_metadata m)
     \<and> req_unknown m = [] \<and> RpcRequest_ByteSizeLong rt m \<le> kMaxField"

text \<open>Two requests are the same message when their fields are: a map field is the mapping,
  not the order of its entries.\<close>

definition req_same :: "RpcRequest \<Rightarrow> RpcRequest \<Rightarrow> bool" where
  "req_same m m' \<longleftrightarrow> req_payload m = req_payload m'
     \<and> map_of (req_metadata m) = map_of (req_metadata m') \<and> req_unknown m = req_unknown m'"

definition resp_ok :: "pb_runtime \<Rightarrow> RpcResponse \<Rightarrow> bool" where
  "resp_ok rt m \<longleftrightarrow> rt_VerifyUTF8 rt (resp_error_msg m) \<and> resp_unknown m = []
     \<and> RpcResponse_ByteSizeLong rt m \<le> kMaxField"

section \<open>Map fields as association lists\<close>

lemma map_of_foldl_update:
  fixes es :: "('k \<times> 'v) list"
  assumes "distinct (map fst es)"
  shows "map_of (foldl (\<lambda>al (k, v). AList.update k v al) al es) = map_of al ++ map_of es"
  using assms
proof (induction es arbitrary: al)
  case (Cons e es)
  obtain k v where e: "e = (k, v)" by fastforce
  have "k \<notin> dom (map_of es)"
    using Cons.prems by (simp add: e dom_map_of_conv_image_fst)
  then have "(map_of al)(k \<mapsto> v) ++ map_of es = (map_of al ++ map_of es)(k \<mapsto> v)"
    by (rule map_add_upd_left)
  with Cons.prems show ?case
    by (simp add: e Cons.IH map_of_AList_update del: fun_upd_apply)
qed simp

lemma map_of_merge_map:
  "distinct (map fst es) \<Longrightarrow> map_of (merge_map al es) = map_of al ++ map_of es"
  by (simp add: merge_map_def map_of_foldl_update)

lemma merge_map_Nil [simp]: "merge_map al [] = al"
  by (simp add: merge_map_def)

lemma mset_map_entries [simp]: "mset (map_entries rt es) = mset es"
  by (simp add: map_entries_def)

lemma set_map_entries [simp]: "set (map_entries rt es) = set es"
  by (metis mset_map_entries set_mset_mset)

lemma map_entries_distinct: "distinct (map fst es) \<Longrightarrow> distinct (map fst (map_entries rt es))"
  using mset_eq_imp_distinct_iff [of "map fst (map_entries rt es)" "map fst es"] by simp

lemma map_of_map_entries: "distinct (map fst es) \<Longrightarrow> map_of (map_entries rt es) = map_of es"
  by (subst map_of_inject_set) (simp_all add: map_entries_distinct)

lemma sint_int64: "- (2 ^ 63) \<le> i \<Longrightarrow> i < 2 ^ 63 \<Longrightarrow> sint (word_of_int i :: u64) = i"
  by (simp add: signed_of_int signed_take_bit_int_eq_self)

lemma sint_int32:
  "- (2 ^ 31) \<le> i \<Longrightarrow> i < 2 ^ 31 \<Longrightarrow> sint (ucast (word_of_int i :: u64) :: u32) = i"
  by (simp add: unsigned_of_int signed_of_int signed_take_bit_take_bit signed_take_bit_int_eq_self)

section \<open>Handlers\<close>

text \<open>What the loop relies on in a handler: with a unit of fuel for each byte and one more it
  returns, it does not give back more than it got, and more fuel changes nothing.\<close>

definition handler_ok :: "'m field_handler \<Rightarrow> bool" where
  "handler_ok h \<longleftrightarrow>
     (\<forall>n m p. length p < n \<longrightarrow> h n m p \<noteq> OutOfFuel)
   \<and> (\<forall>n m p m' q. h n m p = Done (m', q) \<longrightarrow> length q \<le> length p)
   \<and> (\<forall>n k m p. h n m p \<noteq> OutOfFuel \<longrightarrow> h (n + k) m p = h n m p)"

definition fields_ok :: "(u32 \<Rightarrow> 'm field_handler option) \<Rightarrow> bool" where
  "fields_ok field \<longleftrightarrow> (\<forall>tag h. field tag = Some h \<longrightarrow> handler_ok h)"

lemma null_fails_simps [simp]:
  "null_fails x \<noteq> OutOfFuel" "null_fails x = Done y \<longleftrightarrow> x = Some y" "null_fails x = Failed \<longleftrightarrow> x = None"
  by (cases x; simp)+

lemma step_bind_Done: "step_bind x f = Done y \<longleftrightarrow> (\<exists>z. x = Done z \<and> f z = Done y)"
  by (cases x) simp_all

lemma step_bind_OutOfFuel:
  "step_bind x f = OutOfFuel \<longleftrightarrow> x = OutOfFuel \<or> (\<exists>z. x = Done z \<and> f z = OutOfFuel)"
  by (cases x) simp_all

lemma step_bind_cong_Done: "(\<And>z. x = Done z \<Longrightarrow> f z = g z) \<Longrightarrow> step_bind x f = step_bind x g"
  by (cases x) simp_all

lemma repeat_field_fuel:
  assumes rd: "\<And>p. rd p \<noteq> OutOfFuel" and less: "\<And>p e q. rd p = Done (e, q) \<Longrightarrow> length q \<le> length p"
  shows "length p < n \<Longrightarrow> repeat_field rd tag add n m p \<noteq> OutOfFuel"
proof (induction n arbitrary: m p)
  case (Suc n)
  have "length (tl q) < n" if "rd p = Done (e, q)" "q \<noteq> []" for e q
    using less [OF that(1)] Suc.prems that(2) by (cases q) auto
  with Suc.IH rd show ?case by (auto simp: step_bind_OutOfFuel)
qed simp

lemma repeat_field_consumes:
  assumes less: "\<And>p e q. rd p = Done (e, q) \<Longrightarrow> length q \<le> length p"
  shows "repeat_field rd tag add n m p = Done (m', r) \<Longrightarrow> length r \<le> length p"
proof (induction n arbitrary: m p)
  case (Suc n)
  then obtain e q where q: "rd p = Done (e, q)" by (auto simp: step_bind_Done)
  show ?case
  proof (cases "q \<noteq> [] \<and> hd q = tag")
    case True
    then have "length r \<le> length (tl q)" using Suc.prems q by (intro Suc.IH) simp
    then show ?thesis using less [OF q] by simp
  next
    case False
    then show ?thesis using Suc.prems q less [OF q] by (simp split: if_splits)
  qed
qed simp

lemma repeat_field_mono:
  "repeat_field rd tag add n m p \<noteq> OutOfFuel \<Longrightarrow>
     repeat_field rd tag add (n + k) m p = repeat_field rd tag add n m p"
proof (induction n arbitrary: m p)
  case (Suc n)
  then show ?case by (cases "rd p") (auto split: if_splits)
qed simp

lemma repeat_field_ok:
  assumes "\<And>p. rd p \<noteq> OutOfFuel" and "\<And>p e q. rd p = Done (e, q) \<Longrightarrow> length q \<le> length p"
  shows "handler_ok (repeat_field rd tag add)"
  unfolding handler_ok_def
proof (intro conjI allI impI)
  show "length p < n \<Longrightarrow> repeat_field rd tag add n m p \<noteq> OutOfFuel" for n m p
    using assms by (rule repeat_field_fuel)
  show "repeat_field rd tag add n m p = Done (m', q) \<Longrightarrow> length q \<le> length p" for n m p m' q
    using assms(2) by (rule repeat_field_consumes)
qed (rule repeat_field_mono)

lemma parse_fields_mono:
  assumes ok: "fields_ok field"
  shows "parse_fields rt field unknown n m p \<noteq> OutOfFuel \<Longrightarrow>
    parse_fields rt field unknown (n + k) m p = parse_fields rt field unknown n m p"
proof (induction n arbitrary: m p)
  case (Suc n)
  show ?case
  proof (cases "p = [] \<or> rt_ReadTag rt p = None")
    case False
    then obtain tag q where tag: "p \<noteq> []" "rt_ReadTag rt p = Some (tag, q)" by auto
    show ?thesis
    proof (cases "field tag")
      case (Some h)
      then have h: "h n m q \<noteq> OutOfFuel" using Suc.prems tag by auto
      moreover have "handler_ok h" using ok Some by (auto simp: fields_ok_def)
      ultimately have "h (n + k) m q = h n m q" by (simp add: handler_ok_def)
      then show ?thesis using Suc tag Some by (cases "h n m q") auto
    next
      case None
      then show ?thesis using Suc tag by (cases "rt_UnknownFieldParse rt tag q") auto
    qed
  qed auto
qed simp

section \<open>Parses that succeed\<close>

text \<open>\<open>parses\<close>: from the message \<open>m\<close> the loop reads the bytes \<open>w\<close> to their end and has the
  message \<open>m'\<close>.\<close>

definition parses :: "pb_runtime \<Rightarrow> (u32 \<Rightarrow> 'm field_handler option) \<Rightarrow> (bytes \<Rightarrow> 'm \<Rightarrow> 'm)
    \<Rightarrow> 'm \<Rightarrow> bytes \<Rightarrow> 'm \<Rightarrow> bool" where
  "parses rt field unknown m w m' \<longleftrightarrow> (\<exists>n. parse_fields rt field unknown n m w = Done (m', None))"

text \<open>\<open>reads_as\<close>: in front of whatever the loop reads next, the bytes \<open>w\<close> take it from the message
  \<open>m\<close> to the message \<open>m'\<close>.\<close>

definition reads_as :: "pb_runtime \<Rightarrow> (u32 \<Rightarrow> 'm field_handler option) \<Rightarrow> (bytes \<Rightarrow> 'm \<Rightarrow> 'm)
    \<Rightarrow> 'm \<Rightarrow> bytes \<Rightarrow> 'm \<Rightarrow> bool" where
  "reads_as rt field unknown m w m' \<longleftrightarrow>
     (\<forall>r m''. parses rt field unknown m' r m'' \<longrightarrow> parses rt field unknown m (w @ r) m'')"

lemma reads_as_append:
  "reads_as rt field unknown m w m1 \<Longrightarrow> reads_as rt field unknown m1 w' m2 \<Longrightarrow>
     reads_as rt field unknown m (w @ w') m2"
  by (simp add: reads_as_def)

lemma parses_Nil: "parses rt field unknown m [] m"
  unfolding parses_def by (rule exI [of _ 1]) simp

lemma reads_as_parses: "reads_as rt field unknown m w m' \<Longrightarrow> parses rt field unknown m w m'"
  using parses_Nil unfolding reads_as_def by (metis append_Nil2)

context wire_runtime
begin

lemma values_ok [simp]:
  "handler_ok (bytes_value rt put)" "handler_ok (string_value rt put')" "handler_ok (varint_value rt put'')"
  "handler_ok (map_value rt tag add)"
proof -
  show "handler_ok (map_value rt tag add)"
    unfolding map_value_def by (rule repeat_field_ok) (auto dest: entry_consumes)
qed (auto simp: handler_ok_def bytes_value_def string_value_def varint_value_def step_bind_OutOfFuel step_bind_Done
    dest: string_consumes varint_consumes split: if_splits)

lemma parse_fields_fuel:
  assumes ok: "fields_ok field"
  shows "length p < n \<Longrightarrow> parse_fields rt field unknown n m p \<noteq> OutOfFuel"
proof (induction n arbitrary: m p)
  case (Suc n)
  show ?case
  proof (cases "p = [] \<or> rt_ReadTag rt p = None")
    case False
    then obtain tag q where tag: "p \<noteq> []" "rt_ReadTag rt p = Some (tag, q)" by auto
    then have q: "length q < n" using tag_consumes Suc.prems by fastforce
    show ?thesis
    proof (cases "field tag")
      case (Some h)
      then have "handler_ok h" using ok by (auto simp: fields_ok_def)
      then have h: "h n m q \<noteq> OutOfFuel" "\<And>m' r. h n m q = Done (m', r) \<Longrightarrow> length r < n"
        using q unfolding handler_ok_def by (blast, blast intro: le_less_trans)
      then show ?thesis using Suc.IH tag Some by (cases "h n m q") auto
    next
      case None
      have "length r < n" if "rt_UnknownFieldParse rt tag q = Some (s, r)" for s r
        using unknown_consumes [OF that] q by simp
      then show ?thesis using Suc.IH tag None by (auto simp: step_bind_OutOfFuel)
    qed
  qed auto
qed simp

text \<open>A successful parse is one the driver sees, with the fuel it gives.\<close>

lemma parses_complete:
  assumes ok: "fields_ok field" and "parses rt field unknown m w m'"
  shows "parse_fields rt field unknown (Suc (length w)) m w = Done (m', None)"
proof -
  obtain n where n: "parse_fields rt field unknown n m w = Done (m', None)"
    using assms(2) by (auto simp: parses_def)
  let ?k = "Suc (length w)"
  have "parse_fields rt field unknown ?k m w = parse_fields rt field unknown (?k + n) m w"
    by (rule parse_fields_mono [OF ok, symmetric], rule parse_fields_fuel [OF ok]) simp
  also have "\<dots> = parse_fields rt field unknown n m w"
    using parse_fields_mono [OF ok, of rt unknown n m w ?k] n by (simp add: add.commute del: parse_fields.simps)
  finally show ?thesis by (simp only: n)
qed

lemma parses_driver:
  "fields_ok field \<Longrightarrow> parses rt field unknown m w m' \<Longrightarrow>
     parse_with rt (parse_fields rt field unknown) m w = Some m'"
  using end_accepted by (simp add: parse_with_def parses_complete del: parse_fields.simps)

text \<open>What the payload of a packet needs of a class.\<close>

lemma message_wire:
  assumes "fields_ok field" and "parses rt field unknown new (ser m) m'" and "same m' m" and "sz m \<le> kMaxField"
  shows "\<exists>data m'. serialize_with rt sz ser m = Some data
    \<and> parse_with rt (parse_fields rt field unknown) new data = Some m' \<and> same m' m"
  using assms parses_driver [OF assms(1,2)] size_accepted [of "sz m"]
  by (auto simp: serialize_with_def kMaxField_def)

lemma parses_tag:
  assumes ok: "fields_ok field" and b: "b < 128" "field (ucast b) = Some h"
    and h: "h n m w = Done (m1, r)" and rest: "parses rt field unknown m1 r m'"
  shows "parses rt field unknown m (b # w) m'"
proof -
  obtain k where k: "parse_fields rt field unknown k m1 r = Done (m', None)"
    using rest by (auto simp: parses_def)
  have "handler_ok h" using ok b by (auto simp: fields_ok_def)
  then have "h (n + k) m w = Done (m1, r)" using h by (simp add: handler_ok_def)
  moreover have "parse_fields rt field unknown (n + k) m1 r = Done (m', None)"
    using parse_fields_mono [OF ok, of rt unknown k m1 r n] k by (simp add: add.commute)
  ultimately have "parse_fields rt field unknown (Suc (n + k)) m (b # w) = Done (m', None)"
    using b by (simp add: tag_one_byte)
  then show ?thesis unfolding parses_def by blast
qed

lemma ucast_tag: "k < 128 \<Longrightarrow> (ucast (of_nat k :: byte) :: u32) = of_nat k"
  by (simp add: unsigned_of_nat take_bit_eq_mod)

lemma tag_less: "k < 128 \<Longrightarrow> (of_nat k :: byte) < 128"
  by (simp add: word_less_nat_alt unat_of_nat)

lemma parses_value:
  assumes "fields_ok field" and "k < 128" and "field (of_nat k) = Some h"
    and "\<exists>body. w = of_nat k # body \<and> (\<forall>r. h 0 m (body @ r) = Done (m1, r))"
    and "parses rt field unknown m1 r m'"
  shows "parses rt field unknown m (w @ r) m'"
proof -
  obtain body where w: "w = of_nat k # body" "h 0 m (body @ r) = Done (m1, r)" using assms(4) by blast
  have "field (ucast (of_nat k :: byte)) = Some h" using assms(2,3) by (simp add: ucast_tag)
  from parses_tag [of field "of_nat k" h 0 m "body @ r" m1 r, OF assms(1) tag_less [OF assms(2)] this w(2) assms(5)]
  show ?thesis by (simp add: w(1))
qed

text \<open>One rule for each way a field is written.\<close>

lemma parses_bytes:
  assumes ok: "fields_ok field" and f: "0 < f" "f < 16" "field (of_nat (8 * f + 2)) = Some (bytes_value rt put)"
    and v: "length v \<le> kMaxField" and rest: "parses rt field unknown (if v = [] then m else put v m) r m'"
  shows "parses rt field unknown m ((if length v > 0 then rt_WriteBytes rt f v else []) @ r) m'"
proof (cases "v = []")
  case True
  then show ?thesis using rest by simp
next
  case False
  with rest have "parses rt field unknown (put v m) r m'" by simp
  then have "parses rt field unknown m (rt_WriteBytes rt f v @ r) m'"
    using bytes_field [OF f(1,2) v] f(2) by (intro parses_value [OF ok _ f(3)]) (auto simp: bytes_value_def)
  then show ?thesis using False by simp
qed

lemma parses_string:
  assumes ok: "fields_ok field" and f: "0 < f" "f < 16" "field (of_nat (8 * f + 2)) = Some (string_value rt put)"
    and v: "length v \<le> kMaxField" "rt_VerifyUTF8 rt v"
    and rest: "parses rt field unknown (if v = [] then m else put v m) r m'"
  shows "parses rt field unknown m (write_string rt f v @ r) m'"
proof (cases "v = []")
  case True
  then show ?thesis using rest by (simp add: write_string_def)
next
  case False
  with rest have "parses rt field unknown (put v m) r m'" by simp
  then have "parses rt field unknown m (rt_WriteString rt f v @ r) m'"
    using string_field [OF f(1,2) v(1)] f(2) v(2)
    by (intro parses_value [OF ok _ f(3)]) (auto simp: string_value_def)
  then show ?thesis using False by (simp add: write_string_def)
qed

lemma parses_varint:
  assumes ok: "fields_ok field" and f: "f < 16" "field (of_nat (8 * f)) = Some (varint_value rt put)"
    and w: "\<exists>body. w = of_nat (8 * f) # body \<and> (\<forall>r. rt_ReadVarint64 rt (body @ r) = Some (x, r))"
    and rest: "parses rt field unknown (if b then put x m else m) r m'"
  shows "parses rt field unknown m ((if b then w else []) @ r) m'"
proof (cases b)
  case True
  with rest have "parses rt field unknown (put x m) r m'" by simp
  then have "parses rt field unknown m (w @ r) m'"
    using w f(1) by (intro parses_value [OF ok _ f(2)]) (auto simp: varint_value_def)
  then show ?thesis using True by simp
next
  case False
  then show ?thesis using rest by simp
qed

text \<open>An element of a repeated field, whatever follows: the \<^verbatim>\<open>do\<close> loop stops at another tag and
  goes on at its own, as the outer loop would.\<close>

lemma parses_element:
  assumes ok: "fields_ok field" and k: "k < 128" "field (of_nat k) = Some (repeat_field rd (of_nat k) add)"
    and body: "\<And>r. rd (body @ r) = Done (e, r)" and rest: "parses rt field unknown (add e m) r m'"
  shows "parses rt field unknown m (of_nat k # body @ r) m'"
proof -
  let ?b = "of_nat k :: byte"
  let ?h = "repeat_field rd ?b add"
  have b: "?b < 128" "field (ucast ?b) = Some ?h" using k by (simp_all add: ucast_tag tag_less)
  show ?thesis
  proof (cases "r \<noteq> [] \<and> hd r = ?b")
    case False
    have "?h 1 m (body @ r) = Done (add e m, r)" using False by (auto simp: body)
    from parses_tag [OF ok b this rest] show ?thesis .
  next
    case True
    then obtain w where r: "r = ?b # w" by (cases r) auto
    obtain n where n: "parse_fields rt field unknown n (add e m) r = Done (m', None)"
      using rest by (auto simp: parses_def)
    then obtain n' where n': "n = Suc n'" by (cases n) auto
    from n b obtain m2 q where h: "?h n' (add e m) w = Done (m2, q)"
      and q: "parse_fields rt field unknown n' m2 q = Done (m', None)"
      by (auto simp: n' r tag_one_byte step_bind_Done)
    have "?h (Suc n') m (body @ r) = Done (m2, q)" using h by (simp add: body r)
    then show ?thesis by (rule parses_tag [OF ok b]) (auto simp: parses_def intro: q)
  qed
qed

lemma parses_repeated:
  assumes ok: "fields_ok field" and k: "k < 128" "field (of_nat k) = Some (repeat_field rd (of_nat k) add)"
    and es: "\<forall>e \<in> set es. \<exists>body. w e = of_nat k # body \<and> (\<forall>r. rd (body @ r) = Done (g e, r))"
    and rest: "parses rt field unknown (foldl (\<lambda>m e. add (g e) m) m es) r m'"
  shows "parses rt field unknown m (concat (map w es) @ r) m'"
  using es rest
proof (induction es arbitrary: m)
  case (Cons e es)
  then obtain body where body: "w e = of_nat k # body" "\<And>r. rd (body @ r) = Done (g e, r)" by auto
  have "parses rt field unknown (add (g e) m) (concat (map w es) @ r) m'"
    using Cons by simp
  from parses_element [OF ok k body(2) this] show ?case by (simp add: body(1))
qed simp

lemma parses_map:
  assumes ok: "fields_ok field" and f: "0 < f" "f < 16"
    "field (of_nat (8 * f + 2)) = Some (map_value rt (of_nat (8 * f + 2)) add)"
    and es: "\<forall>(k, v) \<in> set es. rt_VerifyUTF8 rt k \<and> rt_VerifyUTF8 rt v" "map_size rt es \<le> kMaxField"
    and rest: "parses rt field unknown (foldl (\<lambda>m e. add e m) m (map_entries rt es)) r m'"
  shows "parses rt field unknown m (write_map rt f es @ r) m'"
proof -
  have size: "rt_MapEntrySize rt k v \<le> kMaxField" if "(k, v) \<in> set es" for k v
  proof -
    have "rt_MapEntrySize rt k v \<le> sum_list (map (\<lambda>(k, v). rt_MapEntrySize rt k v) es)"
      using that by (force intro: member_le_sum_list)
    then show ?thesis using es(2) by (simp add: map_size_def)
  qed
  have "parses rt field unknown m
      (concat (map (\<lambda>(k, v). rt_WriteMapEntry rt f k v) (map_entries rt es)) @ r) m'"
  proof (rule parses_repeated [where g = "\<lambda>e. e", OF ok _ f(3) [unfolded map_value_def] _ rest])
    show "\<forall>e \<in> set (map_entries rt es). \<exists>body. (case e of (k, v) \<Rightarrow> rt_WriteMapEntry rt f k v) = of_nat (8 * f + 2) # body
        \<and> (\<forall>r. null_fails (rt_ParseMapEntry rt (body @ r)) = Done (e, r))"
    proof
      fix e
      assume "e \<in> set (map_entries rt es)"
      then obtain k v where e: "e = (k, v)" "(k, v) \<in> set es" by (metis prod.exhaust set_map_entries)
      with es(1) entry_field [OF f(1,2) size] show "\<exists>body. (case e of (k, v) \<Rightarrow> rt_WriteMapEntry rt f k v) = of_nat (8 * f + 2) # body
        \<and> (\<forall>r. null_fails (rt_ParseMapEntry rt (body @ r)) = Done (e, r))" by auto
    qed
  qed (use f(2) in simp)
  then show ?thesis by (auto simp: write_map_def map_entries_def)
qed

lemma parses_map_field:
  assumes ok: "fields_ok field" and f: "0 < f" "f < 16"
    "field (of_nat (8 * f + 2)) = Some (map_value rt (of_nat (8 * f + 2)) (\<lambda>(k, v) m. put (AList.update k v (get m)) m))"
    and lens: "\<And>x y m. put x (put y m) = put x m" "\<And>x m. get (put x m) = x" "\<And>m. put (get m) m = m"
    and es: "\<forall>(k, v) \<in> set es. rt_VerifyUTF8 rt k \<and> rt_VerifyUTF8 rt v" "map_size rt es \<le> kMaxField"
    and rest: "parses rt field unknown (put (merge_map (get m) (map_entries rt es)) m) r m'"
  shows "parses rt field unknown m (write_map rt f es @ r) m'"
proof (rule parses_map [OF ok f es])
  have "foldl (\<lambda>m e. (case e of (k, v) \<Rightarrow> \<lambda>m. put (AList.update k v (get m)) m) m) m xs = put (merge_map (get m) xs) m" for xs
    by (induction xs arbitrary: m) (auto simp: merge_map_def lens split: prod.splits)
  with rest show "parses rt field unknown
      (foldl (\<lambda>m e. (case e of (k, v) \<Rightarrow> \<lambda>m. put (AList.update k v (get m)) m) m) m (map_entries rt es)) r m'"
    by simp
qed

text \<open>The sizes the classes compute are those of the bytes they write.\<close>

lemma length_write_string: "0 < f \<Longrightarrow> f < 16 \<Longrightarrow> length (write_string rt f v) = string_size rt v"
  by (simp add: write_string_def string_size_def string_bytes_size)

lemma length_write_map:
  assumes "0 < f" "f < 16"
  shows "length (write_map rt f es) = map_size rt es"
proof -
  have "length (concat (map (\<lambda>(k, v). rt_WriteMapEntry rt f k v) xs))
      = length xs + sum_list (map (\<lambda>(k, v). rt_MapEntrySize rt k v) xs)" for xs
    by (induction xs) (auto simp: entry_size [OF assms])
  moreover have "sum_list (map g (map_entries rt es)) = sum_list (map g es)"
    and "length (map_entries rt es) = length es" for g :: "bytes \<times> bytes \<Rightarrow> nat"
    by (metis mset_map mset_map_entries sum_mset_sum_list, metis mset_map_entries size_mset)
  ultimately show ?thesis by (simp add: write_map_def map_size_def)
qed

lemma string_size_ge: "length v \<le> string_size rt v"
  using bytes_size_ge [of v] by (simp add: string_size_def)

lemma RpcRequest_fields_ok [simp]: "fields_ok (RpcRequest_field rt)"
  by (simp add: fields_ok_def RpcRequest_field_def)

lemma RpcResponse_fields_ok [simp]: "fields_ok (RpcResponse_field rt)"
  by (simp add: fields_ok_def RpcResponse_field_def)

lemma RpcRequest_parse_fuel:
  "length ptr < n \<Longrightarrow> RpcRequest_InternalParse rt n m ptr \<noteq> OutOfFuel"
  unfolding RpcRequest_InternalParse_def by (rule parse_fields_fuel) simp

lemma RpcResponse_parse_fuel:
  "length ptr < n \<Longrightarrow> RpcResponse_InternalParse rt n m ptr \<noteq> OutOfFuel"
  unfolding RpcResponse_InternalParse_def by (rule parse_fields_fuel) simp

lemma RpcRequest_size:
  "length (RpcRequest_InternalSerialize rt m) = RpcRequest_ByteSizeLong rt m"
  by (simp add: RpcRequest_InternalSerialize_def RpcRequest_ByteSizeLong_def bytes_size length_write_map)

lemma RpcResponse_size:
  "length (RpcResponse_InternalSerialize rt m) = RpcResponse_ByteSizeLong rt m"
  by (simp add: RpcResponse_InternalSerialize_def RpcResponse_ByteSizeLong_def bytes_size bool_size
      length_write_string)

text \<open>Reading what a message serializes to merges it into the message that reads.\<close>

lemma RpcRequest_reads:
  assumes ok: "req_ok rt b"
  shows "\<exists>m'. reads_as rt (RpcRequest_field rt) (\<lambda>raw m. m\<lparr>req_unknown := req_unknown m @ raw\<rparr>)
      m (RpcRequest_InternalSerialize rt b) m' \<and> req_same m' (RpcRequest_MergeFrom m b)"
proof -
  let ?p = "parses rt (RpcRequest_field rt) (\<lambda>raw m. m\<lparr>req_unknown := req_unknown m @ raw\<rparr>)"
  define m1 where "m1 = (if req_payload b = [] then m else m\<lparr>req_payload := req_payload b\<rparr>)"
  define m2 where "m2 = m1\<lparr>req_metadata := merge_map (req_metadata m1) (map_entries rt (req_metadata b))\<rparr>"
  have size: "map_size rt (req_metadata b) \<le> kMaxField" "length (req_payload b) \<le> kMaxField"
    using ok bytes_size_ge [of "req_payload b"] by (auto simp: req_ok_def RpcRequest_ByteSizeLong_def split: if_splits)
  have upd: "(\<lambda>(k, v). RpcRequest_set_metadata k v)
      = (\<lambda>(k, v) m. m\<lparr>req_metadata := AList.update k v (req_metadata m)\<rparr>)"
    by (auto simp: fun_eq_iff RpcRequest_set_metadata_def)
  have "?p m (RpcRequest_InternalSerialize rt b @ r) m''" if r: "?p m2 r m''" for r m''
  proof -
    have p2: "?p m1 (write_map rt 2 (req_metadata b) @ r) m''"
      by (rule parses_map_field [where get = req_metadata and put = "\<lambda>x. req_metadata_update (\<lambda>_. x)"])
        (use ok size r in \<open>auto simp: RpcRequest_field_def upd req_ok_def list_all_iff m2_def\<close>)
    have "?p m ((if length (req_payload b) > 0 then rt_WriteBytes rt 1 (req_payload b) else [])
        @ write_map rt 2 (req_metadata b) @ r) m''"
      by (rule parses_bytes [where put = "\<lambda>s m. m\<lparr>req_payload := s\<rparr>"])
        (use size p2 in \<open>simp_all add: RpcRequest_field_def m1_def split del: if_split\<close>)
    then show ?thesis using ok by (simp add: RpcRequest_InternalSerialize_def req_ok_def)
  qed
  moreover have "req_same m2 (RpcRequest_MergeFrom m b)"
    using ok by (auto simp: req_same_def RpcRequest_MergeFrom_def Let_def req_ok_def m1_def m2_def
        map_of_merge_map map_entries_distinct map_of_map_entries)
  ultimately show ?thesis unfolding reads_as_def by blast
qed

lemma RpcResponse_reads:
  assumes ok: "resp_ok rt b"
  shows "reads_as rt (RpcResponse_field rt) (\<lambda>raw m. m\<lparr>resp_unknown := resp_unknown m @ raw\<rparr>)
    m (RpcResponse_InternalSerialize rt b) (RpcResponse_MergeFrom m b)"
proof -
  let ?p = "parses rt (RpcResponse_field rt) (\<lambda>raw m. m\<lparr>resp_unknown := resp_unknown m @ raw\<rparr>)"
  define m1 where "m1 = (if resp_success b then m\<lparr>resp_success := True\<rparr> else m)"
  define m2 where "m2 = (if resp_payload b = [] then m1 else m1\<lparr>resp_payload := resp_payload b\<rparr>)"
  define m3 where "m3 = (if resp_error_msg b = [] then m2 else m2\<lparr>resp_error_msg := resp_error_msg b\<rparr>)"
  have size: "length (resp_payload b) \<le> kMaxField" "length (resp_error_msg b) \<le> kMaxField"
    using ok bytes_size_ge [of "resp_payload b"] string_size_ge [of "resp_error_msg b"]
    by (auto simp: resp_ok_def RpcResponse_ByteSizeLong_def split: if_splits)
  let ?e = "write_string rt 3 (resp_error_msg b)"
  let ?d = "if length (resp_payload b) > 0 then rt_WriteBytes rt 2 (resp_payload b) else []"
  have "?p m (RpcResponse_InternalSerialize rt b @ r) m''" if r: "?p m3 r m''" for r m''
  proof -
    have p3: "?p m2 (?e @ r) m''"
      by (rule parses_string [where put = "\<lambda>s m. m\<lparr>resp_error_msg := s\<rparr>"])
        (use ok size r in \<open>simp_all add: RpcResponse_field_def resp_ok_def m3_def split del: if_split\<close>)
    have p2: "?p m1 (?d @ ?e @ r) m''"
      by (rule parses_bytes [where put = "\<lambda>s m. m\<lparr>resp_payload := s\<rparr>"])
        (use size p3 in \<open>simp_all add: RpcResponse_field_def m2_def split del: if_split\<close>)
    have "?p m ((if resp_success b then rt_WriteBool rt 1 True else []) @ ?d @ ?e @ r) m''"
      by (rule parses_varint [where put = "\<lambda>w m. m\<lparr>resp_success := (w \<noteq> 0)\<rparr>",
            OF RpcResponse_fields_ok _ _ bool_field])
        (use p2 in \<open>simp_all add: RpcResponse_field_def m1_def cong: if_cong split del: if_split\<close>)
    then show ?thesis
      using ok by (simp add: RpcResponse_InternalSerialize_def resp_ok_def cong: if_cong split del: if_split)
  qed
  moreover have "m3 = RpcResponse_MergeFrom m b"
    using ok by (auto simp: RpcResponse_MergeFrom_def Let_def resp_ok_def m1_def m2_def m3_def)
  ultimately show ?thesis unfolding reads_as_def by blast
qed

text \<open>So the bytes of two messages, one after the other, are those of the merged message.\<close>

lemma RpcRequest_concat:
  assumes a: "req_ok rt a" and b: "req_ok rt b"
  shows "\<exists>m'. RpcRequest_ParseFromString rt (RpcRequest_InternalSerialize rt a @ RpcRequest_InternalSerialize rt b) = Some m'
    \<and> req_same m' (RpcRequest_MergeFrom a b)"
proof -
  let ?reads = "reads_as rt (RpcRequest_field rt) (\<lambda>raw m. m\<lparr>req_unknown := req_unknown m @ raw\<rparr>)"
  obtain m1 where m1: "?reads RpcRequest_new (RpcRequest_InternalSerialize rt a) m1"
    "req_same m1 (RpcRequest_MergeFrom RpcRequest_new a)" using RpcRequest_reads [OF a] by blast
  obtain m2 where m2: "?reads m1 (RpcRequest_InternalSerialize rt b) m2"
    "req_same m2 (RpcRequest_MergeFrom m1 b)" using RpcRequest_reads [OF b] by blast
  have "req_same m2 (RpcRequest_MergeFrom a b)"
    using m1(2) m2(2) a b
    by (auto simp: req_same_def RpcRequest_MergeFrom_def RpcRequest_new_def req_ok_def map_of_merge_map Let_def)
  with reads_as_append [OF m1(1) m2(1)] show ?thesis
    unfolding RpcRequest_ParseFromString_def RpcRequest_InternalParse_def
    by (auto dest!: reads_as_parses parses_driver [OF RpcRequest_fields_ok])
qed

lemma RpcResponse_concat:
  assumes a: "resp_ok rt a" and b: "resp_ok rt b"
  shows "RpcResponse_ParseFromString rt (RpcResponse_InternalSerialize rt a @ RpcResponse_InternalSerialize rt b)
    = Some (RpcResponse_MergeFrom a b)"
proof -
  have "RpcResponse_MergeFrom RpcResponse_new a = a"
    using a by (auto simp: RpcResponse_MergeFrom_def RpcResponse_new_def resp_ok_def Let_def)
  with reads_as_append [OF RpcResponse_reads [OF a, of RpcResponse_new] RpcResponse_reads [OF b]]
  show ?thesis
    unfolding RpcResponse_ParseFromString_def RpcResponse_InternalParse_def
    by (auto dest!: reads_as_parses parses_driver [OF RpcResponse_fields_ok])
qed

lemma RpcRequest_roundtrip:
  assumes ok: "req_ok rt m"
  shows "\<exists>m'. RpcRequest_ParseFromString rt (RpcRequest_InternalSerialize rt m) = Some m'
    \<and> req_same m' m"
proof -
  have "req_same (RpcRequest_MergeFrom RpcRequest_new m) m"
    using ok by (auto simp: req_same_def RpcRequest_MergeFrom_def RpcRequest_new_def req_ok_def
        map_of_merge_map Let_def)
  with RpcRequest_reads [OF ok, of RpcRequest_new] show ?thesis
    unfolding RpcRequest_ParseFromString_def RpcRequest_InternalParse_def
    by (auto dest!: reads_as_parses parses_driver [OF RpcRequest_fields_ok] simp: req_same_def)
qed

lemma RpcResponse_roundtrip:
  assumes ok: "resp_ok rt m"
  shows "RpcResponse_ParseFromString rt (RpcResponse_InternalSerialize rt m) = Some m"
proof -
  have "RpcResponse_MergeFrom RpcResponse_new m = m"
    using ok by (auto simp: RpcResponse_MergeFrom_def RpcResponse_new_def resp_ok_def Let_def)
  with RpcResponse_reads [OF ok, of RpcResponse_new] show ?thesis
    unfolding RpcResponse_ParseFromString_def RpcResponse_InternalParse_def
    by (auto dest!: reads_as_parses parses_driver [OF RpcResponse_fields_ok])
qed

end

section \<open>A message as a payload\<close>

text \<open>What the codec relies on when it carries a message as an opaque payload.\<close>

locale payload_message =
  fixes ser :: "'m \<Rightarrow> bytes option"
    and prs :: "bytes \<Rightarrow> 'm option"
    and ok :: "'m \<Rightarrow> bool"
    and same :: "'m \<Rightarrow> 'm \<Rightarrow> bool"
  assumes wire: "ok m \<Longrightarrow> \<exists>data m'. ser m = Some data \<and> prs data = Some m' \<and> same m' m"
    and same_sym: "same m m' \<Longrightarrow> same m' m"
    and same_trans: "same a b \<Longrightarrow> same b c \<Longrightarrow> same a c"
begin

text \<open>Two messages that serialize to the same bytes are the same message.\<close>

lemma ser_inject:
  assumes "ok m" "ok m'" "ser m = ser m'"
  shows "same m m'"
proof -
  obtain data a where a: "ser m = Some data" "prs data = Some a" "same a m"
    using wire [OF assms(1)] by blast
  obtain data' b where b: "ser m' = Some data'" "prs data' = Some b" "same b m'"
    using wire [OF assms(2)] by blast
  have "a = b" using a b assms(3) by simp
  with a(3) b(3) show ?thesis by (blast intro: same_trans same_sym)
qed

end

sublocale wire_runtime \<subseteq> req_msg: payload_message
  "RpcRequest_SerializeToString rt" "RpcRequest_ParseFromString rt" "req_ok rt" req_same
proof unfold_locales
  fix m
  assume ok: "req_ok rt m"
  then have "rt_SizeAccepted rt (RpcRequest_ByteSizeLong rt m)"
    by (intro size_accepted) (simp add: req_ok_def kMaxField_def)
  with RpcRequest_roundtrip [OF ok]
  show "\<exists>data m'. RpcRequest_SerializeToString rt m = Some data
      \<and> RpcRequest_ParseFromString rt data = Some m' \<and> req_same m' m"
    by (auto simp: RpcRequest_SerializeToString_def serialize_with_def)
qed (simp_all add: req_same_def)

sublocale wire_runtime \<subseteq> resp_msg: payload_message
  "RpcResponse_SerializeToString rt" "RpcResponse_ParseFromString rt" "resp_ok rt" "(=)"
proof unfold_locales
  fix m
  assume ok: "resp_ok rt m"
  then have "rt_SizeAccepted rt (RpcResponse_ByteSizeLong rt m)"
    by (intro size_accepted) (simp add: resp_ok_def kMaxField_def)
  with RpcResponse_roundtrip [OF ok]
  show "\<exists>data m'. RpcResponse_SerializeToString rt m = Some data
      \<and> RpcResponse_ParseFromString rt data = Some m' \<and> m' = m"
    by (simp add: RpcResponse_SerializeToString_def serialize_with_def)
qed simp_all

context wire_runtime
begin

lemmas request_wire = req_msg.wire

lemmas response_wire = resp_msg.wire

end

end
