(* ===== verification/Wire_Format.thy ===== *)
theory Wire_Format
  imports Protobuf
begin

text \<open>
  The base-128 wire format of the protobuf documentation as a runtime for the generated
  message classes: an interpretation of \<open>wire_runtime\<close>, on which the witnesses of every
  property about messages evaluate.  The properties of the message classes follow.
\<close>

section \<open>The wire format of the documentation as a runtime\<close>

fun varint :: "nat \<Rightarrow> bytes" where
  "varint n = (if n < 128 then [of_nat n] else of_nat (n mod 128 + 128) # varint (n div 128))"

declare varint.simps [simp del]

fun read_varint :: "bytes \<Rightarrow> (nat \<times> bytes) option" where
  "read_varint [] = None"
| "read_varint (b # p) =
     (if b < 128 then Some (unat b, p)
      else case read_varint p of None \<Rightarrow> None | Some (n, q) \<Rightarrow> Some (unat b - 128 + 128 * n, q))"

definition read_delimited :: "bytes \<Rightarrow> (bytes \<times> bytes) option" where
  "read_delimited p =
     (case read_varint p of None \<Rightarrow> None
      | Some (n, q) \<Rightarrow> if n \<le> length q then Some (take n q, drop n q) else None)"

definition delimited :: "bytes \<Rightarrow> bytes" where
  "delimited v = varint (length v) @ v"

text \<open>Well-formed UTF-8: no overlong forms, no surrogates, nothing past U+10FFFF.\<close>

definition utf8_cont :: "byte \<Rightarrow> bool" where
  "utf8_cont b \<longleftrightarrow> 0x80 \<le> b \<and> b < 0xC0"

fun utf8 :: "bytes \<Rightarrow> bool" where
  "utf8 [] \<longleftrightarrow> True"
| "utf8 (a # r) \<longleftrightarrow>
     (if a < 0x80 then utf8 r
      else if 0xC2 \<le> a \<and> a < 0xE0 then
        (case r of b # r' \<Rightarrow> utf8_cont b \<and> utf8 r' | _ \<Rightarrow> False)
      else if 0xE0 \<le> a \<and> a < 0xF0 then
        (case r of b # c # r' \<Rightarrow> utf8_cont b \<and> utf8_cont c
            \<and> (a = 0xE0 \<longrightarrow> 0xA0 \<le> b) \<and> (a = 0xED \<longrightarrow> b < 0xA0) \<and> utf8 r' | _ \<Rightarrow> False)
      else if 0xF0 \<le> a \<and> a < 0xF5 then
        (case r of b # c # d # r' \<Rightarrow> utf8_cont b \<and> utf8_cont c \<and> utf8_cont d
            \<and> (a = 0xF0 \<longrightarrow> 0x90 \<le> b) \<and> (a = 0xF4 \<longrightarrow> b < 0x90) \<and> utf8 r' | _ \<Rightarrow> False)
      else False)"

definition read_optional :: "byte \<Rightarrow> bytes \<Rightarrow> (bytes \<times> bytes) option" where
  "read_optional tag p = (if p \<noteq> [] \<and> hd p = tag then read_delimited (tl p) else Some ([], p))"

definition map_entry :: "bytes \<Rightarrow> bytes \<Rightarrow> bytes" where
  "map_entry k v = 10 # delimited k @ 18 # delimited v"

definition read_map_entry :: "bytes \<Rightarrow> ((bytes \<times> bytes) \<times> bytes) option" where
  "read_map_entry p =
     (case read_delimited p of None \<Rightarrow> None
      | Some (body, q) \<Rightarrow>
        (case read_optional 10 body of None \<Rightarrow> None
         | Some (k, r) \<Rightarrow>
           (case read_optional 18 r of None \<Rightarrow> None
            | Some (v, r') \<Rightarrow> if r' = [] \<and> utf8 k \<and> utf8 v then Some ((k, v), q) else None)))"

text \<open>A negative integer of either width is written as the 64 bits of its two's complement.\<close>

definition int_varint :: "int \<Rightarrow> bytes" where
  "int_varint i = varint (unat (word_of_int i :: u64))"

definition read_unknown :: "u32 \<Rightarrow> bytes \<Rightarrow> (bytes \<times> bytes) option" where
  "read_unknown t p =
     (let wt = t AND 7;
          fixed = (\<lambda>n. if n \<le> length p then Some (drop n p) else None);
          rest = (if wt = 0 then map_option snd (read_varint p)
                  else if wt = 1 then fixed 8
                  else if wt = 2 then map_option snd (read_delimited p)
                  else if wt = 5 then fixed 4 else None)
      in map_option (\<lambda>q. (varint (unat t) @ take (length p - length q) p, q)) rest)"

definition reference_runtime :: pb_runtime where
  "reference_runtime = \<lparr>
     rt_ReadTag = (\<lambda>p. map_option (map_prod of_nat id) (read_varint p)),
     rt_ReadVarint64 = (\<lambda>p. map_option (map_prod of_nat id) (read_varint p)),
     rt_ReadString = read_delimited,
     rt_ParseMapEntry = read_map_entry,
     rt_ReadMessage = read_delimited,
     rt_UnknownFieldParse = read_unknown,
     rt_VerifyUTF8 = utf8,
     rt_WriteBool = (\<lambda>f b. varint (8 * f) @ [if b then 1 else 0]),
     rt_WriteBytes = (\<lambda>f v. varint (8 * f + 2) @ delimited v),
     rt_WriteString = (\<lambda>f v. varint (8 * f + 2) @ delimited v),
     rt_WriteMapEntry = (\<lambda>f k v. varint (8 * f + 2) @ delimited (map_entry k v)),
     rt_WriteInt64 = (\<lambda>f i. varint (8 * f) @ int_varint i),
     rt_WriteInt32 = (\<lambda>f i. varint (8 * f) @ int_varint i),
     rt_WriteMessage = (\<lambda>f v. varint (8 * f + 2) @ delimited v),
     rt_BytesSize = (\<lambda>v. length (delimited v)),
     rt_MapEntrySize = (\<lambda>k v. length (delimited (map_entry k v))),
     rt_Int64Size = (\<lambda>i. length (int_varint i)),
     rt_Int32Size = (\<lambda>i. length (int_varint i)),
     rt_MessageSize = (\<lambda>n. length (varint n) + n),
     rt_IsDeterministic = False,
     rt_SizeAccepted = (\<lambda>n. n \<le> 2147483647),
     rt_EndAccepted = (\<lambda>e. e = None),
     rt_LimitAccepted = (\<lambda>e. e = None),
     rt_PartialRequest = (\<lambda>data. RpcRequest_new),
     rt_PartialResponse = (\<lambda>data. RpcResponse_new)\<rparr>"

lemma reference_runtime_simps [simp]:
  "rt_ReadTag reference_runtime = (\<lambda>p. map_option (map_prod of_nat id) (read_varint p))"
  "rt_ReadVarint64 reference_runtime = (\<lambda>p. map_option (map_prod of_nat id) (read_varint p))"
  "rt_ReadString reference_runtime = read_delimited"
  "rt_ParseMapEntry reference_runtime = read_map_entry"
  "rt_ReadMessage reference_runtime = read_delimited"
  "rt_UnknownFieldParse reference_runtime = read_unknown"
  "rt_VerifyUTF8 reference_runtime = utf8"
  "rt_WriteBool reference_runtime = (\<lambda>f b. varint (8 * f) @ [if b then 1 else 0])"
  "rt_WriteBytes reference_runtime = (\<lambda>f v. varint (8 * f + 2) @ delimited v)"
  "rt_WriteString reference_runtime = (\<lambda>f v. varint (8 * f + 2) @ delimited v)"
  "rt_WriteMapEntry reference_runtime = (\<lambda>f k v. varint (8 * f + 2) @ delimited (map_entry k v))"
  "rt_WriteInt64 reference_runtime = (\<lambda>f i. varint (8 * f) @ int_varint i)"
  "rt_WriteInt32 reference_runtime = (\<lambda>f i. varint (8 * f) @ int_varint i)"
  "rt_WriteMessage reference_runtime = (\<lambda>f v. varint (8 * f + 2) @ delimited v)"
  "rt_BytesSize reference_runtime = (\<lambda>v. length (delimited v))"
  "rt_MapEntrySize reference_runtime = (\<lambda>k v. length (delimited (map_entry k v)))"
  "rt_Int64Size reference_runtime = (\<lambda>i. length (int_varint i))"
  "rt_Int32Size reference_runtime = (\<lambda>i. length (int_varint i))"
  "rt_MessageSize reference_runtime = (\<lambda>n. length (varint n) + n)"
  "rt_IsDeterministic reference_runtime = False"
  "rt_SizeAccepted reference_runtime = (\<lambda>n. n \<le> 2147483647)"
  "rt_EndAccepted reference_runtime = (\<lambda>e. e = None)"
  "rt_LimitAccepted reference_runtime = (\<lambda>e. e = None)"
  "rt_PartialRequest reference_runtime = (\<lambda>data. RpcRequest_new)"
  "rt_PartialResponse reference_runtime = (\<lambda>data. RpcResponse_new)"
  by (simp_all add: reference_runtime_def)

lemma read_varint_consumes: "read_varint p = Some (n, q) \<Longrightarrow> length q < length p"
  by (induction p arbitrary: n q rule: read_varint.induct) (fastforce split: if_splits option.splits)+

lemma read_varint_varint: "read_varint (varint n @ r) = Some (n, r)"
proof (induction n rule: varint.induct)
  case (1 n)
  show ?case
  proof (cases "n < 128")
    case True
    then have "unat (of_nat n :: byte) = n"
      by (simp add: unat_of_nat)
    moreover have "(of_nat n :: byte) < 128"
      using True by (simp add: word_less_nat_alt unat_of_nat)
    ultimately show ?thesis
      using True by (subst varint.simps) simp
  next
    case False
    let ?b = "of_nat (n mod 128 + 128) :: byte"
    have u: "unat ?b = n mod 128 + 128"
      using mod_less_divisor [of 128 n] by (simp only: unat_of_nat) simp
    then have "\<not> ?b < 128"
      by (simp add: word_less_nat_alt)
    with False u 1 show ?thesis
      by (subst varint.simps) (simp only: append_Cons read_varint.simps if_False, simp)
  qed
qed

lemma varint_tag: "n < 128 \<Longrightarrow> varint n = [of_nat n]"
  by (simp add: varint.simps)

lemma read_delimited_consumes: "read_delimited p = Some (s, q) \<Longrightarrow> length q < length p"
  using read_varint_consumes [of p]
  by (auto simp: read_delimited_def split: option.splits if_splits intro: le_less_trans [OF diff_le_self])

lemma read_map_entry_consumes:
  assumes "read_map_entry p = Some (e, q)"
  shows "length q < length p"
proof -
  obtain s where "read_delimited p = Some (s, q)"
    using assms by (auto simp: read_map_entry_def split: option.splits if_splits)
  then show ?thesis by (rule read_delimited_consumes)
qed

lemma read_unknown_consumes: "read_unknown t p = Some (s, q) \<Longrightarrow> length q \<le> length p"
  by (auto simp: read_unknown_def Let_def split: if_splits
      dest: read_varint_consumes read_delimited_consumes intro: less_imp_le)

lemma length_delimited: "length v \<le> length (delimited v)"
  by (simp add: delimited_def)

lemma length_delimited_eq: "length (delimited v) = length (varint (length v)) + length v"
  by (simp add: delimited_def)

lemma length_varint: "n < 128 ^ Suc k \<Longrightarrow> length (varint n) \<le> Suc k"
proof (induction k arbitrary: n)
  case (Suc k)
  then have "n div 128 < 128 ^ Suc k" by (simp add: less_mult_imp_div_less mult.commute)
  from Suc.IH [OF this] show ?case by (subst varint.simps) simp
qed (simp add: varint_tag)

lemma read_delimited_delimited [simp]: "read_delimited (delimited v @ r) = Some (v, r)"
  by (simp add: read_delimited_def delimited_def read_varint_varint)

lemma read_delimited_delimited_end [simp]: "read_delimited (delimited v) = Some (v, [])"
  using read_delimited_delimited [of v "[]"] by simp

lemma read_map_entry_entry:
  "utf8 k \<Longrightarrow> utf8 v \<Longrightarrow> read_map_entry (delimited (map_entry k v) @ r) = Some ((k, v), r)"
  by (simp add: read_map_entry_def map_entry_def read_optional_def)

interpretation ref_rt: wire_runtime reference_runtime
proof unfold_locales
  fix b :: byte and p
  show "b < 128 \<Longrightarrow> rt_ReadTag reference_runtime (b # p) = Some (ucast b, p)"
    by (simp add: unsigned_of_nat flip: unsigned_ucast_eq)
next
  fix v :: bytes
  show "length v < 2 ^ 32 \<Longrightarrow> rt_BytesSize reference_runtime v \<le> length v + 5"
    using length_varint [of "length v" 4] by (simp add: length_delimited_eq)
qed (auto simp: varint_tag read_map_entry_entry read_varint_varint [of 1, simplified]
    length_delimited length_delimited_eq int_varint_def read_varint_varint
    dest: read_varint_consumes read_delimited_consumes read_map_entry_consumes read_unknown_consumes
    intro: less_imp_le)

text \<open>What evaluates the size and the bytes of a small message.\<close>

lemmas wire_eval = serialize_with_def write_string_def string_size_def write_map_def map_size_def
  delimited_def varint_tag

section \<open>Properties\<close>

text \<open>a request with distinct UTF-8 metadata keys and values and no unknown fields
  serializes, and parsing the bytes gives back the same payload and the same metadata map.\<close>

theorem request_wire_roundtrip:
  assumes "wire_runtime rt" and "req_ok rt m"
  shows "\<exists>data m'. RpcRequest_SerializeToString rt m = Some data
    \<and> RpcRequest_ParseFromString rt data = Some m' \<and> req_same m' m"
  using assms by (rule wire_runtime.request_wire)

theorem request_wire_roundtrip_witness:
  "\<exists>data m'. RpcRequest_SerializeToString reference_runtime
      \<lparr>req_payload = [1, 2], req_metadata = [([107], [118])], req_unknown = []\<rparr> = Some data
    \<and> RpcRequest_ParseFromString reference_runtime data = Some m'
    \<and> req_same m' \<lparr>req_payload = [1, 2], req_metadata = [([107], [118])], req_unknown = []\<rparr>"
  by (rule request_wire_roundtrip [OF ref_rt.wire_runtime_axioms])
    (simp add: req_ok_def RpcRequest_ByteSizeLong_def map_size_def delimited_def
      map_entry_def varint_tag kMaxField_def)

text \<open>a response with a UTF-8 error message and no unknown fields serializes, and parsing
  the bytes gives back exactly the response.\<close>

theorem response_wire_roundtrip:
  assumes "wire_runtime rt" and "resp_ok rt m"
  shows "\<exists>data. RpcResponse_SerializeToString rt m = Some data
    \<and> RpcResponse_ParseFromString rt data = Some m"
  using wire_runtime.response_wire [OF assms] by blast

theorem response_wire_roundtrip_witness:
  "\<exists>data. RpcResponse_SerializeToString reference_runtime (error_response [111, 107]) = Some data
    \<and> RpcResponse_ParseFromString reference_runtime data = Some (error_response [111, 107])"
  by (rule response_wire_roundtrip [OF ref_rt.wire_runtime_axioms])
    (simp add: resp_ok_def error_response_def RpcResponse_new_def RpcResponse_ByteSizeLong_def
      string_size_def delimited_def varint_tag kMaxField_def)

text \<open>C30: the parse loops of both messages end on every input: one unit of fuel per byte,
  and one more, is enough whatever the bytes are.\<close>

theorem parse_terminates:
  assumes "wire_runtime rt"
  shows "RpcRequest_InternalParse rt (Suc (length data)) req data \<noteq> OutOfFuel
    \<and> RpcResponse_InternalParse rt (Suc (length data)) resp data \<noteq> OutOfFuel"
  using wire_runtime.RpcRequest_parse_fuel [OF assms] wire_runtime.RpcResponse_parse_fuel [OF assms]
  by blast

theorem parse_terminates_witness:
  "RpcRequest_InternalParse reference_runtime 4 RpcRequest_new [10, 200, 1] \<noteq> OutOfFuel
    \<and> RpcResponse_InternalParse reference_runtime 4 RpcResponse_new [10, 200, 1] \<noteq> OutOfFuel"
  using parse_terminates [OF ref_rt.wire_runtime_axioms, of "[10, 200, 1]" RpcRequest_new RpcResponse_new]
  by (simp only: list.size numeral_eq_Suc pred_numeral_simps add_0 One_nat_def BitM.simps add_Suc_right add_0_right simp_thms)

text \<open>the size the encoder reserves is the size it writes: \<^verbatim>\<open>ByteSizeLong\<close> is the
  length of what \<^verbatim>\<open>_InternalSerialize\<close> emits, for both messages.\<close>

theorem byte_size_is_length:
  assumes "wire_runtime rt"
  shows "RpcRequest_ByteSizeLong rt req = length (RpcRequest_InternalSerialize rt req)
    \<and> RpcResponse_ByteSizeLong rt resp = length (RpcResponse_InternalSerialize rt resp)"
  using wire_runtime.RpcRequest_size [OF assms] wire_runtime.RpcResponse_size [OF assms] by simp

theorem byte_size_is_length_witness:
  "RpcRequest_ByteSizeLong reference_runtime RpcRequest_new
      = length (RpcRequest_InternalSerialize reference_runtime RpcRequest_new)
    \<and> RpcResponse_ByteSizeLong reference_runtime (error_response [111, 107]) = 4
    \<and> length (RpcResponse_InternalSerialize reference_runtime (error_response [111, 107])) = 4"
  using byte_size_is_length [OF ref_rt.wire_runtime_axioms, of RpcRequest_new "error_response [111, 107]"]
  by (simp add: error_response_def RpcResponse_new_def RpcResponse_ByteSizeLong_def
      string_size_def delimited_def varint_tag)

end
