(* ===== verification/Codec.thy ===== *)
theory Codec
  imports Buffer Crc32 Wire_Format
begin

text \<open>
  The wire protocol, \<^verbatim>\<open>src/src/codec/rpc_codec.h\<close> and \<^verbatim>\<open>src/src/codec/rpc_codec.cc\<close>:
  the packed \<open>FixedHeader\<close>, the byte order helpers, the length-prefixed strings, the bodies
  of requests, responses and heartbeats, \<^verbatim>\<open>pack\<close>, the three encoders and \<^verbatim>\<open>decode\<close> on
  the receive buffer.  \<open>decode_all\<close> is the loop \<^verbatim>\<open>while (Codec::decode(buf, packet))\<close> of
  the callers.

  \<open>frame\<close> is the specification: it says of the unread bytes alone whether they hold a
  packet, must wait for more, or are to be dropped, and \<open>decode_refines_frame\<close> shows that
  \<^verbatim>\<open>decode\<close> does just that, reading nothing outside the unread bytes.

  A \<^verbatim>\<open>DecodedPacket\<close> is passed in and out, as in the code, so that what one packet leaves in
  it is what the next one finds.
\<close>

section \<open>Constants and data\<close>

definition kMagic :: u32 where "kMagic = 0x52504346"
definition kVersion :: u8 where "kVersion = 1"
definition kFixedHeaderSize :: nat where "kFixedHeaderSize = 18"
definition kChecksumSize :: nat where "kChecksumSize = 4"
definition kMaxBodyLen :: nat where "kMaxBodyLen = 10 * 1024 * 1024"
definition kMaxScanBytes :: nat where "kMaxScanBytes = 1024"
definition kMaxBufferSize :: nat where "kMaxBufferSize = 10 * 1024 * 1024"

datatype MsgType = REQUEST | RESPONSE | HEARTBEAT

datatype Status = SUCCESS | FAILED | TIMEOUT

fun MsgType_code :: "MsgType \<Rightarrow> u8" where
  "MsgType_code REQUEST = 0"
| "MsgType_code RESPONSE = 1"
| "MsgType_code HEARTBEAT = 2"

fun Status_code :: "Status \<Rightarrow> u8" where
  "Status_code SUCCESS = 0"
| "Status_code FAILED = 1"
| "Status_code TIMEOUT = 2"

record FixedHeader =
  fh_magic :: u32
  fh_version :: u8
  fh_msg_type :: u8
  fh_body_len :: u32
  fh_req_id :: u64

text \<open>The memory image of the header, packed to one byte.\<close>

definition FixedHeader_image :: "FixedHeader \<Rightarrow> bytes" where
  "FixedHeader_image h = le_bytes 4 (fh_magic h) @ [fh_version h] @ [fh_msg_type h]
     @ le_bytes 4 (fh_body_len h) @ le_bytes 8 (fh_req_id h)"

record DecodedPacket =
  pk_msg_type :: MsgType
  pk_req_id :: u64
  pk_rpc_request :: RpcRequest
  pk_rpc_response :: RpcResponse
  pk_heartbeat :: Heartbeat
  pk_service_name :: bytes
  pk_method_name :: bytes
  pk_network_status :: Status

text \<open>A packet as the callers declare it.  The two scalars without an initializer are the
  arguments of this definition.\<close>

definition new_packet :: "MsgType \<Rightarrow> u64 \<Rightarrow> DecodedPacket" where
  "new_packet t i = \<lparr>pk_msg_type = t, pk_req_id = i, pk_rpc_request = RpcRequest_new,
     pk_rpc_response = RpcResponse_new, pk_heartbeat = Heartbeat_new, pk_service_name = [],
     pk_method_name = [], pk_network_status = SUCCESS\<rparr>"

section \<open>Byte order and strings\<close>

definition encodeU32 :: "u32 \<Rightarrow> u32" where "encodeU32 v = byteswap 4 v"
definition decodeU32 :: "u32 \<Rightarrow> u32" where "decodeU32 v = byteswap 4 v"
definition encodeU64 :: "u64 \<Rightarrow> u64" where "encodeU64 v = byteswap 8 v"
definition decodeU64 :: "u64 \<Rightarrow> u64" where "decodeU64 v = byteswap 8 v"
definition encodeU16 :: "u16 \<Rightarrow> u16" where "encodeU16 v = byteswap 2 v"
definition decodeU16 :: "u16 \<Rightarrow> u16" where "decodeU16 v = byteswap 2 v"

text \<open>\<^verbatim>\<open>memcpy(&v, data + i, sizeof(v)); v = decodeU..(v)\<close>\<close>

definition read_u16 :: "bytes \<Rightarrow> nat \<Rightarrow> u16" where
  "read_u16 data i = decodeU16 (le_word (take 2 (drop i data)))"

definition read_u32 :: "bytes \<Rightarrow> nat \<Rightarrow> u32" where
  "read_u32 data i = decodeU32 (le_word (take 4 (drop i data)))"

definition read_u64 :: "bytes \<Rightarrow> nat \<Rightarrow> u64" where
  "read_u64 data i = decodeU64 (le_word (take 8 (drop i data)))"

definition checkMagic :: "u32 \<Rightarrow> bool" where
  "checkMagic magic \<longleftrightarrow> magic = kMagic"

text \<open>\<open>None\<close> is the return value false; \<^verbatim>\<open>out\<close> is then unchanged.\<close>

definition appendString :: "bytes \<Rightarrow> bytes \<Rightarrow> bytes option" where
  "appendString out s =
     (if length s > 65535 then None
      else Some (out @ le_bytes 2 (encodeU16 (of_nat (length s))) @ s))"

text \<open>\<open>None\<close> is the return value false, after which every caller returns; otherwise the
  string assigned to \<^verbatim>\<open>out\<close> and the advanced \<^verbatim>\<open>pos\<close>.\<close>

definition readString :: "bytes \<Rightarrow> nat \<Rightarrow> nat \<Rightarrow> (bytes \<times> nat) option" where
  "readString data pos totalLen =
     (if pos + 2 > totalLen then None
      else let len = unat (read_u16 data pos); pos = pos + 2
           in if pos + len > totalLen then None
              else Some (take len (drop pos data), pos + len))"

section \<open>Encoding\<close>

definition appendPayload :: "bytes \<Rightarrow> bytes \<Rightarrow> bytes" where
  "appendPayload body payload = body @ le_bytes 4 (encodeU32 (of_nat (length payload))) @ payload"

definition encodeRequestBody :: "pb_runtime \<Rightarrow> RpcRequest \<Rightarrow> bytes \<Rightarrow> bytes \<Rightarrow> bytes" where
  "encodeRequestBody rt req service_name method_name =
     (case appendString [] service_name of None \<Rightarrow> []
      | Some body \<Rightarrow>
        (case appendString body method_name of None \<Rightarrow> []
         | Some body \<Rightarrow>
           (case RpcRequest_SerializeToString rt req of None \<Rightarrow> []
            | Some payload \<Rightarrow> appendPayload body payload)))"

definition encodeResponseBody :: "pb_runtime \<Rightarrow> RpcResponse \<Rightarrow> Status \<Rightarrow> bytes" where
  "encodeResponseBody rt resp status =
     (case RpcResponse_SerializeToString rt resp of None \<Rightarrow> []
      | Some payload \<Rightarrow> appendPayload [Status_code status] payload)"

fun appendExtra :: "bytes \<Rightarrow> (bytes \<times> bytes) list \<Rightarrow> bytes option" where
  "appendExtra body [] = Some body"
| "appendExtra body ((k, v) # es) =
     (case appendString body k of None \<Rightarrow> None
      | Some body \<Rightarrow>
        (case appendString body v of None \<Rightarrow> None
         | Some body \<Rightarrow> appendExtra body es))"

definition encodeHeartbeatBody :: "Heartbeat \<Rightarrow> bytes" where
  "encodeHeartbeatBody hb =
     (case appendString [] (hb_service_name hb) of None \<Rightarrow> []
      | Some body \<Rightarrow>
        (case appendString body (hb_node_id hb) of None \<Rightarrow> []
         | Some body \<Rightarrow>
           let body = body @ le_bytes 8 (encodeU64 (word_of_int (hb_timestamp hb)));
               body = body @ le_bytes 2 (encodeU16 (of_nat (length (hb_extra hb))))
           in (case appendExtra body (hb_extra hb) of None \<Rightarrow> [] | Some body \<Rightarrow> body)))"

definition pack :: "MsgType \<Rightarrow> u64 \<Rightarrow> bytes \<Rightarrow> bytes" where
  "pack msg_type req_id body =
     (let header = \<lparr>fh_magic = encodeU32 kMagic, fh_version = kVersion,
            fh_msg_type = MsgType_code msg_type, fh_body_len = encodeU32 (of_nat (length body)),
            fh_req_id = encodeU64 req_id\<rparr>;
          packet = FixedHeader_image header @ body;
          checksum = crc32 packet
      in packet @ le_bytes 4 (encodeU32 checksum))"

definition encodeRequest :: "pb_runtime \<Rightarrow> RpcRequest \<Rightarrow> u64 \<Rightarrow> bytes \<Rightarrow> bytes \<Rightarrow> bytes" where
  "encodeRequest rt req req_id service_name method_name =
     (let body = encodeRequestBody rt req service_name method_name
      in if body = [] then [] else pack REQUEST req_id body)"

definition encodeResponse :: "pb_runtime \<Rightarrow> RpcResponse \<Rightarrow> u64 \<Rightarrow> Status \<Rightarrow> bytes" where
  "encodeResponse rt resp req_id status =
     (let body = encodeResponseBody rt resp status
      in if body = [] then [] else pack RESPONSE req_id body)"

definition encodeHeartbeat :: "Heartbeat \<Rightarrow> u64 \<Rightarrow> bytes" where
  "encodeHeartbeat hb req_id =
     (let body = encodeHeartbeatBody hb
      in if body = [] then [] else pack HEARTBEAT req_id body)"

section \<open>Decoding\<close>

text \<open>The length-prefixed payload that ends a request or a response body.\<close>

definition readPayload :: "bytes \<Rightarrow> nat \<Rightarrow> nat \<Rightarrow> bytes option" where
  "readPayload data pos bodyLen =
     (if pos + 4 > bodyLen then None
      else let payloadLen = unat (read_u32 data pos); pos = pos + 4
           in if pos + payloadLen > bodyLen then None
              else if pos + payloadLen \<noteq> bodyLen then None
              else Some (take payloadLen (drop pos data)))"

definition decodeRequestBody ::
    "pb_runtime \<Rightarrow> bytes \<Rightarrow> nat \<Rightarrow> DecodedPacket \<Rightarrow> bool \<times> DecodedPacket" where
  "decodeRequestBody rt data bodyLen packet =
     (case readString data 0 bodyLen of None \<Rightarrow> (False, packet)
      | Some (s, pos) \<Rightarrow>
        let packet = packet\<lparr>pk_service_name := s\<rparr> in
        (case readString data pos bodyLen of None \<Rightarrow> (False, packet)
         | Some (m, pos) \<Rightarrow>
           let packet = packet\<lparr>pk_method_name := m\<rparr> in
           (case readPayload data pos bodyLen of None \<Rightarrow> (False, packet)
            | Some payload \<Rightarrow>
              (case RpcRequest_ParseFromString rt payload of
                 None \<Rightarrow> (False, packet\<lparr>pk_rpc_request := rt_PartialRequest rt payload\<rparr>)
               | Some req \<Rightarrow> (True, packet\<lparr>pk_rpc_request := req\<rparr>)))))"

definition decodeStatus :: "u8 \<Rightarrow> Status" where
  "decodeStatus status =
     (if status \<le> Status_code TIMEOUT
      then (if status = 0 then SUCCESS else if status = 1 then FAILED else TIMEOUT)
      else FAILED)"

definition decodeResponseBody ::
    "pb_runtime \<Rightarrow> bytes \<Rightarrow> nat \<Rightarrow> DecodedPacket \<Rightarrow> bool \<times> DecodedPacket" where
  "decodeResponseBody rt data bodyLen packet =
     (if bodyLen < 1 then (False, packet)
      else let status = hd data in
        (case readPayload data 1 bodyLen of None \<Rightarrow> (False, packet)
         | Some payload \<Rightarrow>
           (case RpcResponse_ParseFromString rt payload of
              None \<Rightarrow> (False, packet\<lparr>pk_rpc_response := rt_PartialResponse rt payload\<rparr>)
            | Some resp \<Rightarrow>
              (True, packet\<lparr>pk_rpc_response := resp, pk_network_status := decodeStatus status\<rparr>))))"

text \<open>The loop over the extra entries, each stored in the packet's map as it is read.\<close>

fun readExtra ::
    "bytes \<Rightarrow> nat \<Rightarrow> nat \<Rightarrow> nat \<Rightarrow> (bytes \<times> bytes) list \<Rightarrow> nat option \<times> (bytes \<times> bytes) list" where
  "readExtra data bodyLen 0 pos extra = (Some pos, extra)"
| "readExtra data bodyLen (Suc n) pos extra =
     (case readString data pos bodyLen of None \<Rightarrow> (None, extra)
      | Some (k, pos) \<Rightarrow>
        (case readString data pos bodyLen of None \<Rightarrow> (None, extra)
         | Some (v, pos) \<Rightarrow> readExtra data bodyLen n pos (AList.update k v extra)))"

definition decodeHeartbeatBody ::
    "bytes \<Rightarrow> nat \<Rightarrow> DecodedPacket \<Rightarrow> bool \<times> DecodedPacket" where
  "decodeHeartbeatBody data bodyLen packet =
     (case readString data 0 bodyLen of None \<Rightarrow> (False, packet)
      | Some (serviceName, pos) \<Rightarrow>
        (case readString data pos bodyLen of None \<Rightarrow> (False, packet)
         | Some (nodeId, pos) \<Rightarrow>
           if pos + 8 > bodyLen then (False, packet)
           else let timestamp = read_u64 data pos; pos = pos + 8 in
             if pos + 2 > bodyLen then (False, packet)
             else let extraCount = unat (read_u16 data pos); pos = pos + 2;
                      hb = pk_heartbeat packet;
                      (end, extra) = readExtra data bodyLen extraCount pos (hb_extra hb);
                      packet = packet\<lparr>pk_heartbeat := hb\<lparr>hb_extra := extra\<rparr>\<rparr> in
               (case end of None \<Rightarrow> (False, packet)
                | Some pos \<Rightarrow>
                  if pos \<noteq> bodyLen then (False, packet)
                  else (True, packet\<lparr>pk_heartbeat := (pk_heartbeat packet)
                    \<lparr>hb_service_name := serviceName, hb_node_id := nodeId,
                     hb_timestamp := sint timestamp\<rparr>\<rparr>))))"

text \<open>The search for the next magic number, from offset 1 and within the scan limit.\<close>

definition scanMagic :: "bytes \<Rightarrow> nat \<Rightarrow> nat option" where
  "scanMagic data scanLimit =
     List.find (\<lambda>i. i + 4 \<le> scanLimit \<and> checkMagic (read_u32 data i)) [1..<scanLimit]"

definition decodeBody ::
    "pb_runtime \<Rightarrow> MsgType \<Rightarrow> bytes \<Rightarrow> nat \<Rightarrow> DecodedPacket \<Rightarrow> bool \<times> DecodedPacket" where
  "decodeBody rt t bodyData bodyLen packet =
     (let (ok, packet) =
        (case t of REQUEST \<Rightarrow> decodeRequestBody rt bodyData bodyLen packet
         | RESPONSE \<Rightarrow> decodeResponseBody rt bodyData bodyLen packet
         | HEARTBEAT \<Rightarrow> decodeHeartbeatBody bodyData bodyLen packet)
      in (ok, packet\<lparr>pk_msg_type := t\<rparr>))"

definition MsgType_of :: "u8 \<Rightarrow> MsgType option" where
  "MsgType_of c = (if c = 0 then Some REQUEST else if c = 1 then Some RESPONSE
     else if c = 2 then Some HEARTBEAT else None)"

definition decode :: "pb_runtime \<Rightarrow> buffer \<Rightarrow> DecodedPacket \<Rightarrow> bool \<times> buffer \<times> DecodedPacket" where
  "decode rt buf packet =
     (if readableBytes buf < kFixedHeaderSize then (False, buf, packet)
      else let data = peek buf; magic = read_u32 data 0 in
      if readableBytes buf > kMaxBufferSize then (False, retrieveAll buf, packet)
      else if \<not> checkMagic magic then
        (case scanMagic data (min (readableBytes buf) kMaxScanBytes) of
           Some i \<Rightarrow> (False, retrieve buf i, packet)
         | None \<Rightarrow> (False, retrieveAll buf, packet))
      else if data ! 4 \<noteq> kVersion then (False, retrieveAll buf, packet)
      else let msgType = data ! 5; bodyLen = unat (read_u32 data 6) in
      if bodyLen > kMaxBodyLen then (False, retrieveAll buf, packet)
      else let reqId = read_u64 data 10; totalLen = kFixedHeaderSize + bodyLen + kChecksumSize in
      if readableBytes buf < totalLen then (False, buf, packet)
      else let checksum = read_u32 data (kFixedHeaderSize + bodyLen);
               calcCrc = crc32 (take (kFixedHeaderSize + bodyLen) data) in
      if calcCrc \<noteq> checksum then (False, retrieve buf totalLen, packet)
      else let bodyData = drop kFixedHeaderSize data in
      (case MsgType_of msgType of
         None \<Rightarrow> (False, retrieve buf totalLen, packet)
       | Some t \<Rightarrow>
         let (ok, packet) = decodeBody rt t bodyData bodyLen packet in
         if \<not> ok then (False, retrieve buf totalLen, packet)
         else (True, retrieve buf totalLen, packet\<lparr>pk_req_id := reqId\<rparr>)))"

text \<open>
  What the unread bytes hold: not yet a packet, some bytes to drop, or a packet of a type,
  with a request id and a body.
\<close>

datatype verdict = Wait | Drop nat | Packet MsgType u64 bytes

definition frame :: "bytes \<Rightarrow> verdict" where
  "frame s =
     (if length s < 18 then Wait
      else if kMaxBufferSize < length s then Drop (length s)
      else if read_u32 s 0 \<noteq> kMagic then
        (case scanMagic s (min (length s) kMaxScanBytes) of Some i \<Rightarrow> Drop i | None \<Rightarrow> Drop (length s))
      else let n = unat (read_u32 s 6) in
        if s ! 4 \<noteq> kVersion \<or> kMaxBodyLen < n then Drop (length s)
        else if length s < 22 + n then Wait
        else if crc32 (take (18 + n) s) \<noteq> read_u32 s (18 + n) then Drop (22 + n)
        else case MsgType_of (s ! 5) of None \<Rightarrow> Drop (22 + n)
             | Some t \<Rightarrow> Packet t (read_u64 s 10) (take n (drop 18 s)))"

text \<open>A string or payload field on the wire.\<close>

definition string_field :: "bytes \<Rightarrow> bytes" where
  "string_field s = le_bytes 2 (encodeU16 (of_nat (length s))) @ s"

definition payload_field :: "bytes \<Rightarrow> bytes" where
  "payload_field s = le_bytes 4 (encodeU32 (of_nat (length s))) @ s"

lemmas codec_consts = kFixedHeaderSize_def kChecksumSize_def kMaxBodyLen_def kMaxScanBytes_def
  kMaxBufferSize_def

lemma decode_true_consumes:
  "decode rt buf packet = (True, buf', packet') \<Longrightarrow> readableBytes buf' < readableBytes buf"
  by (auto simp: decode_def Let_def kFixedHeaderSize_def split: if_splits option.splits prod.splits
      intro!: readableBytes_retrieve_less)

text \<open>The callers' loop: every packet decoded, in order, what is left in the buffer and the
  packet variable.\<close>

function decode_all ::
    "pb_runtime \<Rightarrow> buffer \<Rightarrow> DecodedPacket \<Rightarrow> DecodedPacket list \<times> buffer \<times> DecodedPacket" where
  "decode_all rt buf packet =
     (case decode rt buf packet of
        (False, buf', packet') \<Rightarrow> ([], buf', packet')
      | (True, buf', packet') \<Rightarrow>
        (case decode_all rt buf' packet' of (ps, r) \<Rightarrow> (packet' # ps, r)))"
  by pat_completeness auto
termination
  by (relation "measure (\<lambda>(rt, buf, packet). readableBytes buf)") (auto dest: decode_true_consumes [OF sym])

declare decode_all.simps [simp del]

section \<open>Reading and writing integers\<close>

lemmas codec_ints = encodeU16_def decodeU16_def encodeU32_def decodeU32_def encodeU64_def decodeU64_def

lemma read_u16_field: "drop i data = le_bytes 2 (encodeU16 w) @ c \<Longrightarrow> read_u16 data i = w"
  by (simp add: read_u16_def codec_ints byteswap_byteswap le_word_id del: le_bytes_numeral)

lemma read_u32_field: "drop i data = le_bytes 4 (encodeU32 w) @ c \<Longrightarrow> read_u32 data i = w"
  by (simp add: read_u32_def codec_ints byteswap_byteswap le_word_id del: le_bytes_numeral)

lemma read_u64_field: "drop i data = le_bytes 8 (encodeU64 w) @ c \<Longrightarrow> read_u64 data i = w"
  by (simp add: read_u64_def codec_ints byteswap_byteswap le_word_id del: le_bytes_numeral)

lemma field_read_u32:
  assumes "i + 4 \<le> length data"
  shows "le_bytes 4 (encodeU32 (read_u32 data i)) = take 4 (drop i data)"
proof -
  have "length (take 4 (drop i data)) = 4" using assms by simp
  then show ?thesis
    using le_bytes_le_word [of "take 4 (drop i data)", where 'a = 32]
    by (simp add: read_u32_def codec_ints byteswap_byteswap del: le_bytes_numeral)
qed

lemma field_read_u64:
  assumes "i + 8 \<le> length data"
  shows "le_bytes 8 (encodeU64 (read_u64 data i)) = take 8 (drop i data)"
proof -
  have "length (take 8 (drop i data)) = 8" using assms by simp
  then show ?thesis
    using le_bytes_le_word [of "take 8 (drop i data)", where 'a = 64]
    by (simp add: read_u64_def codec_ints byteswap_byteswap del: le_bytes_numeral)
qed

text \<open>Reads below a bound see only the bytes below it.\<close>

lemma read_u16_take: "i + 2 \<le> n \<Longrightarrow> read_u16 (take n data) i = read_u16 data i"
  by (simp add: read_u16_def drop_take min_def)

lemma read_u32_take: "i + 4 \<le> n \<Longrightarrow> read_u32 (take n data) i = read_u32 data i"
  by (simp add: read_u32_def drop_take min_def)

lemma read_u64_take: "i + 8 \<le> n \<Longrightarrow> read_u64 (take n data) i = read_u64 data i"
  by (simp add: read_u64_def drop_take min_def)

lemma readString_take: "readString (take n data) pos n = readString data pos n"
  by (auto simp: readString_def Let_def read_u16_take drop_take min_def)

lemma readPayload_take: "readPayload (take n data) pos n = readPayload data pos n"
  by (auto simp: readPayload_def Let_def read_u32_take drop_take min_def)

lemma readExtra_take: "readExtra (take n data) n k pos extra = readExtra data n k pos extra"
  by (induction k arbitrary: pos extra) (auto simp: readString_take split: option.splits)

lemma decodeBody_take: "decodeBody rt t (take n data) n p = decodeBody rt t data n p"
proof -
  have "decodeResponseBody rt (take n data) n p = decodeResponseBody rt data n p"
    by (cases "n < 1") (simp_all add: decodeResponseBody_def readPayload_take hd_take)
  moreover have "decodeHeartbeatBody (take n data) n p = decodeHeartbeatBody data n p"
    by (simp add: decodeHeartbeatBody_def readString_take readExtra_take read_u64_take
        read_u16_take Let_def cong: option.case_cong if_cong)
  ultimately show ?thesis
    by (simp add: decodeBody_def decodeRequestBody_def readString_take readPayload_take Let_def
        split: MsgType.split cong: option.case_cong)
qed

section \<open>decode refines its specification\<close>

lemma scanMagic_take:
  assumes "n \<le> m"
  shows "scanMagic (take m data) n = scanMagic data n"
  unfolding scanMagic_def using assms
  by (intro find_cong) (auto simp: read_u32_take)

lemma retrieve_all: "buf_inv b \<Longrightarrow> retrieve b (length (content b)) = retrieveAll b"
  by (simp add: retrieve_def length_content)

text \<open>What \<^verbatim>\<open>decode\<close> does with each verdict.\<close>

definition act_on_verdict ::
    "pb_runtime \<Rightarrow> buffer \<Rightarrow> DecodedPacket \<Rightarrow> verdict \<Rightarrow> bool \<times> buffer \<times> DecodedPacket" where
  "act_on_verdict rt buf packet v =
     (case v of Wait \<Rightarrow> (False, buf, packet)
      | Drop n \<Rightarrow> (False, retrieve buf n, packet)
      | Packet t i body \<Rightarrow>
        (case decodeBody rt t body (length body) packet of
           (False, packet) \<Rightarrow> (False, retrieve buf (22 + length body), packet)
         | (True, packet) \<Rightarrow> (True, retrieve buf (22 + length body), packet\<lparr>pk_req_id := i\<rparr>)))"

lemma decode_frame:
  assumes inv: "buf_inv b"
  shows "decode rt b p = act_on_verdict rt b p (frame (content b))"
proof -
  define r where "r = readableBytes b"
  define data where "data = peek b"
  have s: "content b = take r data" and len: "length (take r data) = r"
    using length_content [OF inv] by (simp_all add: content_def r_def data_def)
  then have r: "r \<le> length data" by simp
  have all: "retrieveAll b = retrieve b r"
    by (simp add: retrieve_def r_def)
  have body: "decodeBody rt t (drop 18 data) n p = decodeBody rt t (take n (drop 18 (take r data))) n p"
    if "18 + n + 4 \<le> r" for t n
    using that by (subst (1 2) decodeBody_take [symmetric]) (simp add: drop_take min_def)
  show ?thesis
  proof (cases "r < 18 \<or> kMaxBufferSize < r \<or> read_u32 data 0 \<noteq> kMagic")
    case True
    then show ?thesis
      using len by (auto simp: decode_def frame_def act_on_verdict_def Let_def s all checkMagic_def
          kFixedHeaderSize_def read_u32_take scanMagic_take split: option.splits
          simp flip: r_def data_def)
  next
    case False
    then show ?thesis
      using len body by (auto simp: decode_def frame_def act_on_verdict_def Let_def s all checkMagic_def
          kFixedHeaderSize_def kChecksumSize_def read_u32_take read_u64_take min_def
          split: option.splits prod.splits bool.splits simp flip: r_def data_def)
  qed
qed

section \<open>Packets are framed as they are packed\<close>

lemma MsgType_of_code [simp]: "MsgType_of (MsgType_code t) = Some t"
  by (cases t) (simp_all add: MsgType_of_def)

lemma MsgType_of_SomeD: "MsgType_of c = Some t \<Longrightarrow> MsgType_code t = c"
  by (auto simp: MsgType_of_def split: if_splits)

definition pack_header :: "MsgType \<Rightarrow> u64 \<Rightarrow> nat \<Rightarrow> bytes" where
  "pack_header t i n = le_bytes 4 (encodeU32 kMagic) @ [kVersion] @ [MsgType_code t]
     @ le_bytes 4 (encodeU32 (of_nat n)) @ le_bytes 8 (encodeU64 i)"

lemma length_pack_header [simp]: "length (pack_header t i n) = 18"
  by (simp add: pack_header_def del: le_bytes_numeral)

lemma pack_eq:
  "pack t i body = pack_header t i (length body) @ body
     @ le_bytes 4 (encodeU32 (crc32 (pack_header t i (length body) @ body)))"
  by (simp add: pack_def FixedHeader_image_def pack_header_def Let_def del: le_bytes_numeral)

lemma length_pack [simp]: "length (pack t i body) = 22 + length body"
  by (simp add: pack_eq del: le_bytes_numeral)

lemma pack_header_reads:
  fixes r :: bytes and t :: MsgType and i :: u64 and n :: nat
  defines "s \<equiv> pack_header t i n @ r"
  shows "read_u32 s 0 = kMagic" and "s ! 4 = kVersion" and "s ! 5 = MsgType_code t"
    and "read_u32 s 6 = of_nat n" and "read_u64 s 10 = i"
proof -
  have L: "length (le_bytes 4 (encodeU32 kMagic)) = 4" "length (le_bytes 4 (encodeU32 (of_nat n))) = 4"
    by (simp_all del: le_bytes_numeral)
  note ph = pack_header_def
  have d4: "drop 4 s = kVersion # MsgType_code t # le_bytes 4 (encodeU32 (of_nat n))
      @ le_bytes 8 (encodeU64 i) @ r"
    using L by (simp add: s_def ph del: le_bytes_numeral)
  have "drop 6 s = drop 2 (drop 4 s)" by simp
  then have d6: "drop 6 s = le_bytes 4 (encodeU32 (of_nat n)) @ le_bytes 8 (encodeU64 i) @ r"
    unfolding d4 by (simp del: le_bytes_numeral drop_drop)
  show "read_u32 s 0 = kMagic"
    by (rule read_u32_field) (simp add: s_def ph del: le_bytes_numeral)
  show "s ! 4 = kVersion" "s ! 5 = MsgType_code t"
    using L by (simp_all add: s_def ph nth_append del: le_bytes_numeral)
  show "read_u32 s 6 = of_nat n"
    using d6 by (rule read_u32_field)
  have "drop 10 s = drop 4 (drop 6 s)" by simp
  then have "drop 10 s = le_bytes 8 (encodeU64 i) @ r"
    unfolding d6 using L by (simp del: le_bytes_numeral drop_drop)
  then show "read_u64 s 10 = i" by (rule read_u64_field)
qed

lemma frame_pack:
  assumes "length body \<le> kMaxBodyLen" and "length (pack t i body @ rest) \<le> kMaxBufferSize"
  shows "frame (pack t i body @ rest) = Packet t i body"
proof -
  let ?n = "length body" and ?h = "pack_header t i (length body)"
  let ?c = "le_bytes 4 (encodeU32 (crc32 (?h @ body)))"
  let ?s = "?h @ (body @ ?c @ rest)"
  have s: "pack t i body @ rest = ?s" by (simp add: pack_eq del: le_bytes_numeral)
  have n: "unat (of_nat ?n :: u32) = ?n"
    using assms(1) by (simp add: unat_of_nat kMaxBodyLen_def)
  have "read_u32 ?s (18 + ?n) = crc32 (?h @ body)"
    by (rule read_u32_field [where c = rest]) (simp del: le_bytes_numeral)
  moreover have "take (18 + ?n) ?s = ?h @ body" by (simp del: le_bytes_numeral)
  moreover have "take ?n (drop 18 ?s) = body" by (simp del: le_bytes_numeral)
  moreover have "length ?s = 22 + ?n + length rest" by (simp del: le_bytes_numeral)
  ultimately show ?thesis
    using assms n unfolding s
    by (simp add: frame_def pack_header_reads del: le_bytes_numeral append_assoc length_append)
qed

text \<open>Conversely only bytes that \<^verbatim>\<open>pack\<close> writes are framed as a packet.\<close>

lemma header_split:
  assumes "18 \<le> length s"
  shows "take 18 s = take 4 s @ [s ! 4] @ [s ! 5] @ take 4 (drop 6 s) @ take 8 (drop 10 s)"
proof -
  have "drop 4 s = s ! 4 # s ! 5 # drop 6 s"
    using assms Cons_nth_drop_Suc [of 4 s] Cons_nth_drop_Suc [of 5 s] by simp
  moreover have "take 18 s = take 4 s @ take 14 (drop 4 s)"
    using take_add [of 4 14 s] by simp
  moreover have "take 12 (drop 6 s) = take 4 (drop 6 s) @ take 8 (drop 10 s)"
    using take_add [of 4 8 "drop 6 s"] by simp
  ultimately show ?thesis by simp
qed

lemma frame_PacketD:
  assumes "frame s = Packet t i body"
  shows "s = pack t i body @ drop (22 + length body) s" and "length body \<le> kMaxBodyLen"
    and "length s \<le> kMaxBufferSize" and "22 + length body \<le> length s"
proof -
  define n where "n = unat (read_u32 s 6)"
  have *: "18 \<le> length s" "length s \<le> kMaxBufferSize" "read_u32 s 0 = kMagic" "s ! 4 = kVersion"
      "n \<le> kMaxBodyLen" "22 + n \<le> length s" "crc32 (take (18 + n) s) = read_u32 s (18 + n)"
      "MsgType_of (s ! 5) = Some t" "i = read_u64 s 10" "body = take n (drop 18 s)"
    using assms by (auto simp: frame_def Let_def n_def split: if_splits option.splits)
  then have len: "length body = n" by simp
  have "le_bytes 4 (encodeU32 kMagic) = take 4 s"
    using field_read_u32 [of 0 s] * by simp
  moreover have "le_bytes 4 (encodeU32 (of_nat n)) = take 4 (drop 6 s)"
    using field_read_u32 [of 6 s] * by (simp add: n_def)
  moreover have "le_bytes 8 (encodeU64 i) = take 8 (drop 10 s)"
    using field_read_u64 [of 10 s] * by simp
  moreover have "le_bytes 4 (encodeU32 (crc32 (take (18 + n) s))) = take 4 (drop (18 + n) s)"
    using field_read_u32 [of "18 + n" s] * by simp
  ultimately have h: "pack_header t i n = take 18 s"
    using * MsgType_of_SomeD [of "s ! 5" t]
    by (simp add: pack_header_def header_split del: le_bytes_numeral)
  have hb: "take 18 s @ take n (drop 18 s) = take (18 + n) s"
    by (simp only: take_add)
  have "pack t i body = take (18 + n) s @ take 4 (drop (18 + n) s)"
    using * len h hb \<open>le_bytes 4 (encodeU32 (crc32 (take (18 + n) s))) = _\<close>
    by (simp add: pack_eq del: le_bytes_numeral)
  also have "\<dots> = take (18 + n + 4) s"
    by (simp only: take_add)
  finally have "pack t i body = take (22 + n) s" by (simp add: add.commute)
  then show "s = pack t i body @ drop (22 + length body) s" using len by simp
  show "length body \<le> kMaxBodyLen" "length s \<le> kMaxBufferSize" "22 + length body \<le> length s"
    using * len by simp_all
qed

end
