(* ===== verification/Codec_Bodies.thy ===== *)
theory Codec_Bodies
  imports Codec
begin

text \<open>
  What travels inside a packet: the bodies of requests, responses and heartbeats are read
  back as they were written, and what a body means does not depend on what the packet
  variable held before, the extra entries of a heartbeat apart.  \<open>message_of\<close> is a decoded
  packet seen as a message, \<open>body_message\<close> the message a body carries.
\<close>

section \<open>Messages\<close>

datatype message =
    RequestMsg u64 bytes bytes RpcRequest
  | ResponseMsg u64 Status RpcResponse
  | HeartbeatMsg u64 bytes bytes int

definition message_of :: "DecodedPacket \<Rightarrow> message" where
  "message_of p =
     (case pk_msg_type p of
        REQUEST \<Rightarrow> RequestMsg (pk_req_id p) (pk_service_name p) (pk_method_name p) (pk_rpc_request p)
      | RESPONSE \<Rightarrow> ResponseMsg (pk_req_id p) (pk_network_status p) (pk_rpc_response p)
      | HEARTBEAT \<Rightarrow> HeartbeatMsg (pk_req_id p) (hb_service_name (pk_heartbeat p))
          (hb_node_id (pk_heartbeat p)) (hb_timestamp (pk_heartbeat p)))"

definition body_message :: "pb_runtime \<Rightarrow> MsgType \<Rightarrow> u64 \<Rightarrow> bytes \<Rightarrow> message option" where
  "body_message rt t i body =
     (case decodeBody rt t body (length body) (new_packet t i) of
        (ok, p) \<Rightarrow> if ok then Some (message_of (p\<lparr>pk_req_id := i\<rparr>)) else None)"

section \<open>Fields\<close>

lemma length_string_field [simp]: "length (string_field s) = 2 + length s"
  by (simp add: string_field_def del: le_bytes_numeral)

lemma length_payload_field [simp]: "length (payload_field s) = 4 + length s"
  by (simp add: payload_field_def del: le_bytes_numeral)

lemma appendString_field:
  "appendString out s = (if 65535 < length s then None else Some (out @ string_field s))"
  by (simp add: appendString_def string_field_def del: le_bytes_numeral)

lemma appendPayload_field: "appendPayload body s = body @ payload_field s"
  by (simp add: appendPayload_def payload_field_def del: le_bytes_numeral)

lemma drop_past: "drop i data = a @ c \<Longrightarrow> length a = n \<Longrightarrow> drop (i + n) data = c"
  by (metis add.commute append_eq_conv_conj drop_drop)

lemma readString_field:
  assumes "drop pos data = string_field s @ c" and "length s \<le> 65535" and "pos + 2 + length s \<le> n"
  shows "readString data pos n = Some (s, pos + 2 + length s)"
proof -
  have d: "drop pos data = le_bytes 2 (encodeU16 (of_nat (length s))) @ (s @ c)"
    using assms(1) by (simp add: string_field_def del: le_bytes_numeral)
  have "unat (read_u16 data pos) = length s"
    using read_u16_field [OF d] assms(2) by (simp add: unat_of_nat)
  moreover have "drop (pos + 2) data = s @ c"
    using d by (rule drop_past) (simp del: le_bytes_numeral)
  ultimately show ?thesis
    using assms(3) by (simp add: readString_def Let_def)
qed

lemma readPayload_field:
  assumes "drop pos data = payload_field s" and "length s < 2 ^ 32" and "n = pos + 4 + length s"
  shows "readPayload data pos n = Some s"
proof -
  have d: "drop pos data = le_bytes 4 (encodeU32 (of_nat (length s))) @ s"
    using assms(1) by (simp add: payload_field_def del: le_bytes_numeral)
  have "unat (read_u32 data pos) = length s"
    using read_u32_field [OF d] assms(2) by (simp add: unat_of_nat)
  moreover have "drop (pos + 4) data = s"
    using d by (rule drop_past) (simp del: le_bytes_numeral)
  ultimately show ?thesis
    using assms(3) by (simp add: readPayload_def Let_def)
qed

definition extra_fields :: "(bytes \<times> bytes) list \<Rightarrow> bytes" where
  "extra_fields es = concat (map (\<lambda>(k, v). string_field k @ string_field v) es)"

definition short_extra :: "(bytes \<times> bytes) list \<Rightarrow> bool" where
  "short_extra es \<longleftrightarrow> list_all (\<lambda>(k, v). length k \<le> 65535 \<and> length v \<le> 65535) es"

lemma appendExtra_fields: "short_extra es \<Longrightarrow> appendExtra body es = Some (body @ extra_fields es)"
  by (induction es arbitrary: body) (auto simp: short_extra_def extra_fields_def appendString_field)

lemma readExtra_fields:
  assumes "short_extra es" and "drop pos data = extra_fields es @ c"
    and "pos + length (extra_fields es) \<le> n"
  shows "readExtra data n (length es) pos al =
    (Some (pos + length (extra_fields es)), foldl (\<lambda>al (k, v). AList.update k v al) al es)"
  using assms
proof (induction es arbitrary: pos al)
  case (Cons e es)
  obtain k v where e: "e = (k, v)" by fastforce
  have k: "drop pos data = string_field k @ (string_field v @ extra_fields es @ c)"
    using Cons.prems by (simp add: e extra_fields_def)
  then have v: "drop (pos + (2 + length k)) data = string_field v @ (extra_fields es @ c)"
    by (rule drop_past) simp
  then have r: "drop (pos + (2 + length k) + (2 + length v)) data = extra_fields es @ c"
    by (rule drop_past) simp
  have len: "length (extra_fields (e # es)) = 2 + length k + (2 + length v) + length (extra_fields es)"
    by (simp add: e extra_fields_def)
  have "readString data pos n = Some (k, pos + 2 + length k)"
    using k Cons.prems len by (intro readString_field) (auto simp: e short_extra_def)
  moreover have "readString data (pos + 2 + length k) n = Some (v, pos + 2 + length k + 2 + length v)"
    using v Cons.prems len by (intro readString_field) (auto simp: e short_extra_def add.assoc)
  ultimately show ?case
    using Cons.IH [of "pos + (2 + length k) + (2 + length v)" "AList.update k v al"] r Cons.prems len
    by (simp add: e short_extra_def add.assoc)
qed (simp add: extra_fields_def)

section \<open>Bodies\<close>

lemma encodeRequestBody_fields:
  assumes "length service \<le> 65535" and "length method \<le> 65535"
    and "RpcRequest_SerializeToString rt req = Some payload"
  shows "encodeRequestBody rt req service method
    = string_field service @ string_field method @ payload_field payload"
  using assms by (simp add: encodeRequestBody_def appendString_field appendPayload_field)

lemma decodeRequestBody_fields:
  assumes "length service \<le> 65535" and "length method \<le> 65535" and "length payload < 2 ^ 32"
    and "RpcRequest_ParseFromString rt payload = Some req"
  defines "body \<equiv> string_field service @ string_field method @ payload_field payload"
  shows "decodeRequestBody rt body (length body) p = (True,
    p\<lparr>pk_service_name := service, pk_method_name := method, pk_rpc_request := req\<rparr>)"
proof -
  have d: "drop 0 body = string_field service @ (string_field method @ payload_field payload)"
    by (simp add: body_def)
  then have d': "drop (0 + (2 + length service)) body = string_field method @ payload_field payload"
    by (rule drop_past) simp
  then have d'': "drop (0 + (2 + length service) + (2 + length method)) body = payload_field payload"
    by (rule drop_past) simp
  have "readString body 0 (length body) = Some (service, 2 + length service)"
    using readString_field [OF d assms(1), of "length body"] by (simp add: body_def)
  moreover have "readString body (2 + length service) (length body)
      = Some (method, 2 + length service + 2 + length method)"
    using d' assms(2) by (intro readString_field) (simp_all add: body_def)
  moreover have "readPayload body (2 + length service + 2 + length method) (length body) = Some payload"
    using d'' assms(3) by (intro readPayload_field) (simp_all add: body_def add.assoc)
  ultimately show ?thesis
    using assms(4) by (simp add: decodeRequestBody_def Let_def)
qed

lemma decodeStatus_code [simp]: "decodeStatus (Status_code st) = st"
  by (cases st) (simp_all add: decodeStatus_def)

lemma decodeResponseBody_fields:
  fixes st :: Status and payload :: bytes
  assumes "length payload < 2 ^ 32" and "RpcResponse_ParseFromString rt payload = Some resp"
  defines "body \<equiv> Status_code st # payload_field payload"
  shows "decodeResponseBody rt body (length body) p = (True,
    p\<lparr>pk_rpc_response := resp, pk_network_status := st\<rparr>)"
proof -
  have "readPayload body 1 (length body) = Some payload"
    using assms(1) by (intro readPayload_field) (simp_all add: body_def)
  then show ?thesis
    using assms(2) by (simp add: decodeResponseBody_def Let_def body_def)
qed

definition hb_ok :: "Heartbeat \<Rightarrow> bool" where
  "hb_ok hb \<longleftrightarrow> length (hb_service_name hb) \<le> 65535 \<and> length (hb_node_id hb) \<le> 65535
     \<and> - (2 ^ 63) \<le> hb_timestamp hb \<and> hb_timestamp hb < 2 ^ 63
     \<and> length (hb_extra hb) \<le> 65535 \<and> short_extra (hb_extra hb) \<and> distinct (map fst (hb_extra hb))"

definition hb_fields :: "Heartbeat \<Rightarrow> bytes" where
  "hb_fields hb = string_field (hb_service_name hb) @ string_field (hb_node_id hb)
     @ le_bytes 8 (encodeU64 (word_of_int (hb_timestamp hb)))
     @ le_bytes 2 (encodeU16 (of_nat (length (hb_extra hb)))) @ extra_fields (hb_extra hb)"

lemma encodeHeartbeatBody_fields: "hb_ok hb \<Longrightarrow> encodeHeartbeatBody hb = hb_fields hb"
  by (simp add: encodeHeartbeatBody_def hb_ok_def hb_fields_def appendString_field
      appendExtra_fields Let_def del: le_bytes_numeral)

lemma decodeHeartbeatBody_fields:
  assumes ok: "hb_ok hb"
  shows "decodeHeartbeatBody (hb_fields hb) (length (hb_fields hb)) p = (True,
    p\<lparr>pk_heartbeat := hb\<lparr>hb_extra :=
      foldl (\<lambda>al (k, v). AList.update k v al) (hb_extra (pk_heartbeat p)) (hb_extra hb),
      hb_unknown := hb_unknown (pk_heartbeat p)\<rparr>\<rparr>)"
proof -
  let ?s = "hb_service_name hb" and ?m = "hb_node_id hb" and ?b = "hb_fields hb"
  let ?t = "le_bytes 8 (encodeU64 (word_of_int (hb_timestamp hb)))"
  let ?c = "le_bytes 2 (encodeU16 (of_nat (length (hb_extra hb))))"
  let ?e = "extra_fields (hb_extra hb)"
  have len: "length ?b = 2 + length ?s + (2 + length ?m) + 8 + 2 + length ?e"
    by (simp add: hb_fields_def del: le_bytes_numeral)
  have d0: "drop 0 ?b = string_field ?s @ (string_field ?m @ ?t @ ?c @ ?e)"
    by (simp add: hb_fields_def del: le_bytes_numeral)
  then have d1: "drop (0 + (2 + length ?s)) ?b = string_field ?m @ (?t @ ?c @ ?e)"
    by (rule drop_past) simp
  then have d2: "drop (0 + (2 + length ?s) + (2 + length ?m)) ?b = ?t @ (?c @ ?e)"
    by (rule drop_past) simp
  then have d3: "drop (0 + (2 + length ?s) + (2 + length ?m) + 8) ?b = ?c @ ?e"
    by (rule drop_past) (simp del: le_bytes_numeral)
  then have d4: "drop (0 + (2 + length ?s) + (2 + length ?m) + 8 + 2) ?b = ?e @ []"
    by (subst drop_past) (auto simp del: le_bytes_numeral)
  define p2 where "p2 = 0 + (2 + length ?s) + (2 + length ?m)"
  have "readString ?b 0 (length ?b) = Some (?s, 2 + length ?s)"
    using readString_field [OF d0, of "length ?b"] ok len by (simp add: hb_ok_def)
  moreover have "readString ?b (2 + length ?s) (length ?b) = Some (?m, p2)"
    using readString_field [OF d1, of "length ?b"] ok len by (simp add: hb_ok_def p2_def)
  moreover have "read_u64 ?b p2 = word_of_int (hb_timestamp hb)"
    unfolding p2_def using d2 by (rule read_u64_field)
  moreover have "unat (read_u16 ?b (p2 + 8)) = length (hb_extra hb)"
    using read_u16_field [OF d3] ok by (simp add: hb_ok_def p2_def unat_of_nat)
  moreover have "readExtra ?b (length ?b) (length (hb_extra hb)) (p2 + 8 + 2) al
      = (Some (length ?b), foldl (\<lambda>al (k, v). AList.update k v al) al (hb_extra hb))" for al
    using readExtra_fields [OF _ d4 [folded p2_def], of "length ?b"] ok len
    by (simp add: hb_ok_def p2_def)
  moreover have "\<not> p2 + 8 > length ?b" "\<not> p2 + 8 + 2 > length ?b"
    using len by (simp_all add: p2_def)
  ultimately show ?thesis
    using ok by (simp add: decodeHeartbeatBody_def Let_def hb_ok_def sint_int64)
qed

section \<open>What a body means\<close>

text \<open>Whether a body decodes and to which message depends on the body alone.\<close>

lemma readExtra_fst: "fst (readExtra data n k pos al) = fst (readExtra data n k pos al')"
  by (induction k arbitrary: pos al al') (auto split: option.splits)

lemma request_body_message:
  "decodeRequestBody rt body n p = (ok, p') \<Longrightarrow>
     \<exists>q'. decodeRequestBody rt body n q = (ok, q') \<and> (ok \<longrightarrow> pk_service_name q' = pk_service_name p'
       \<and> pk_method_name q' = pk_method_name p' \<and> pk_rpc_request q' = pk_rpc_request p')"
  by (auto simp: decodeRequestBody_def Let_def split: option.splits prod.splits)

lemma response_body_message:
  "decodeResponseBody rt body n p = (ok, p') \<Longrightarrow>
     \<exists>q'. decodeResponseBody rt body n q = (ok, q') \<and> (ok \<longrightarrow>
       pk_network_status q' = pk_network_status p' \<and> pk_rpc_response q' = pk_rpc_response p')"
  by (auto simp: decodeResponseBody_def Let_def split: option.splits if_splits)

lemma heartbeat_body_message:
  assumes "decodeHeartbeatBody body n p = (ok, p')"
  shows "\<exists>q'. decodeHeartbeatBody body n q = (ok, q') \<and> (ok \<longrightarrow>
       hb_service_name (pk_heartbeat q') = hb_service_name (pk_heartbeat p')
       \<and> hb_node_id (pk_heartbeat q') = hb_node_id (pk_heartbeat p')
       \<and> hb_timestamp (pk_heartbeat q') = hb_timestamp (pk_heartbeat p'))"
proof -
  have "fst (readExtra body n k pos (hb_extra (pk_heartbeat q)))
      = fst (readExtra body n k pos (hb_extra (pk_heartbeat p)))" for k pos
    by (rule readExtra_fst)
  with assms show ?thesis
    by (auto simp: decodeHeartbeatBody_def Let_def case_prod_unfold split: option.splits if_splits)
qed

lemma decodeBody_message:
  assumes "decodeBody rt t body (length body) p = (ok, p')"
  shows "body_message rt t i body = (if ok then Some (message_of (p'\<lparr>pk_req_id := i\<rparr>)) else None)"
proof (cases t)
  case REQUEST
  with assms request_body_message [of rt body "length body" p ok _ "new_packet t i"] show ?thesis
    by (force simp: decodeBody_def body_message_def message_of_def split: prod.splits)
next
  case RESPONSE
  with assms response_body_message [of rt body "length body" p ok _ "new_packet t i"] show ?thesis
    by (force simp: decodeBody_def body_message_def message_of_def split: prod.splits)
next
  case HEARTBEAT
  with assms heartbeat_body_message [of body "length body" p ok _ "new_packet t i"] show ?thesis
    by (force simp: decodeBody_def body_message_def message_of_def split: prod.splits)
qed

end
