(* ===== verification/Codec_Stream.thy ===== *)
theory Codec_Stream
  imports Codec_Bodies
begin

text \<open>
  The codec on a TCP stream: however the peer's packets are cut into reads, the decode loop
  delivers each message once and in order.  The argument is made once, in the locale
  \<open>packet_stream\<close> over the byte stream interface of the buffer, and holds of the codec by
  interpretation.  The properties of the codec follow.
\<close>

section \<open>Reads and packets\<close>

text \<open>What a connection does with each read: append it to the buffer and run the loop.\<close>

fun feed :: "('b \<Rightarrow> bytes \<Rightarrow> 'b) \<Rightarrow> ('b \<Rightarrow> 'm list \<times> 'b) \<Rightarrow> 'b \<Rightarrow> bytes list \<Rightarrow> 'm list \<times> 'b" where
  "feed put run b [] = ([], b)"
| "feed put run b (x # xs) =
     (let (ms, b) = run (put b x); (ms', b) = feed put run b xs in (ms @ ms', b))"

text \<open>One run of the callers' loop with the packet variable \<open>p\<close>, its packets as messages.\<close>

definition decode_loop :: "pb_runtime \<Rightarrow> DecodedPacket \<Rightarrow> buffer \<Rightarrow> message list \<times> buffer" where
  "decode_loop rt p b = (case decode_all rt b p of (ps, b', p') \<Rightarrow> (map message_of ps, b'))"

definition wire :: "MsgType \<times> u64 \<times> bytes \<Rightarrow> bytes" where
  "wire k = (case k of (t, i, body) \<Rightarrow> pack t i body)"

definition wire_msg :: "pb_runtime \<Rightarrow> MsgType \<times> u64 \<times> bytes \<Rightarrow> message" where
  "wire_msg rt k = (case k of (t, i, body) \<Rightarrow> the (body_message rt t i body))"

definition wire_ok :: "pb_runtime \<Rightarrow> MsgType \<times> u64 \<times> bytes \<Rightarrow> bool" where
  "wire_ok rt k = (case k of (t, i, body) \<Rightarrow>
     length (pack t i body) \<le> kMaxBufferSize \<and> body_message rt t i body \<noteq> None)"

text \<open>Unread bytes that end inside a packet: packets, then less than all of the next.\<close>

definition unfinished :: "('k \<Rightarrow> bytes) \<Rightarrow> 'k list \<Rightarrow> bytes \<Rightarrow> bytes \<Rightarrow> bool" where
  "unfinished w ks part rest \<longleftrightarrow> part @ rest = concat (map w ks)
     \<and> (if ks = [] then part = [] else length part < length (w (hd ks)))"

locale packet_stream = byte_stream stream invar size_of put drop_front clear
  for stream :: "'b \<Rightarrow> bytes" and invar :: "'b \<Rightarrow> bool" and size_of :: "'b \<Rightarrow> nat"
    and put :: "'b \<Rightarrow> bytes \<Rightarrow> 'b" and drop_front :: "'b \<Rightarrow> nat \<Rightarrow> 'b" and clear :: "'b \<Rightarrow> 'b" +
  fixes w :: "'k \<Rightarrow> bytes" and good :: "'k \<Rightarrow> bool" and msg :: "'k \<Rightarrow> 'm"
    and run :: "'b \<Rightarrow> 'm list \<times> 'b" and limit :: nat
  assumes w_nonempty: "w k \<noteq> []"
    and run_stream: "invar b \<Longrightarrow> list_all good ks \<Longrightarrow> list_all good later \<Longrightarrow>
      length (stream b) \<le> limit \<Longrightarrow>
      stream b = concat (map w ks) @ part \<Longrightarrow> unfinished w later part rest \<Longrightarrow>
      \<exists>b'. run b = (map msg ks, b') \<and> invar b' \<and> stream b' = part"
begin

lemma split_packets:
  "p @ rest = concat (map w ks) \<Longrightarrow>
     \<exists>ds later part. ks = ds @ later \<and> p = concat (map w ds) @ part \<and> unfinished w later part rest"
proof (induction ks arbitrary: p)
  case Nil
  then show ?case by (simp add: unfinished_def)
next
  case (Cons k ks)
  show ?case
  proof (cases "length p < length (w k)")
    case True
    then have "unfinished w (k # ks) p rest"
      using Cons.prems by (simp add: unfinished_def)
    then show ?thesis by (intro exI [of _ "[]"] exI [of _ "k # ks"] exI [of _ p]) simp
  next
    case False
    have "take (length (w k)) (p @ rest) = w k"
      unfolding Cons.prems by simp
    then have "take (length (w k)) p = w k"
      using False by simp
    then obtain q where q: "p = w k @ q"
      by (metis append_take_drop_id)
    then have "q @ rest = concat (map w ks)"
      using Cons.prems by simp
    from Cons.IH [OF this] obtain ds later part where
      "ks = ds @ later" "q = concat (map w ds) @ part" "unfinished w later part rest" by blast
    then show ?thesis
      using q by (intro exI [of _ "k # ds"] exI [of _ later] exI [of _ part]) simp
  qed
qed

text \<open>The reads may cut the packets anywhere.\<close>

lemma feed_delivers:
  assumes "invar b" and "list_all good ks" and "unfinished w ks (stream b) (concat xs)"
    and "\<forall>x \<in> set xs. \<forall>k \<in> set ks. length x + length (w k) \<le> limit"
  shows "\<exists>b'. feed put run b xs = (map msg ks, b') \<and> invar b' \<and> stream b' = []"
  using assms
proof (induction xs arbitrary: b ks)
  case Nil
  then have "ks = []"
    using w_nonempty by (cases ks) (auto simp: unfinished_def)
  with Nil show ?case by (simp add: unfinished_def)
next
  case (Cons x xs)
  have "(stream b @ x) @ concat xs = concat (map w ks)"
    using Cons.prems(3) by (simp add: unfinished_def)
  from split_packets [OF this] obtain ds later part where
    ks: "ks = ds @ later" and sx: "stream b @ x = concat (map w ds) @ part"
    and part: "unfinished w later part (concat xs)" by blast
  have len: "length (stream b @ x) \<le> limit"
  proof (cases ks)
    case (Cons k ks')
    then have "length (stream b) < length (w k)" "length x + length (w k) \<le> limit"
      using \<open>unfinished w ks (stream b) (concat (x # xs))\<close>
        \<open>\<forall>x \<in> set (x # xs). \<forall>k \<in> set ks. length x + length (w k) \<le> limit\<close>
      by (auto simp: unfinished_def)
    then show ?thesis by simp
  qed (use Cons.prems(3) in \<open>simp add: unfinished_def\<close>)
  obtain b1 where b1: "run (put b x) = (map msg ds, b1)" "invar b1" "stream b1 = part"
    using run_stream [of "put b x" ds later part "concat xs"] Cons.prems len sx part ks
    by (auto simp: stream_specs)
  obtain b2 where "feed put run b1 xs = (map msg later, b2)" "invar b2" "stream b2 = []"
    using Cons.IH [of b1 later] b1 part Cons.prems ks by auto
  with b1 ks show ?case by simp
qed

end

section \<open>The codec is a packet stream\<close>

lemma length_wire: "length (wire k) = 22 + length (snd (snd k))"
  by (cases k) (simp add: wire_def)

lemma frame_prefix:
  assumes "length (pack t i body) \<le> kMaxBufferSize" and "k < length (pack t i body)"
  shows "frame (take k (pack t i body)) = Wait"
proof (cases "k < 18")
  case True
  then show ?thesis by (simp add: frame_def)
next
  case False
  let ?h = "pack_header t i (length body)"
  obtain r where r: "take k (pack t i body) = ?h @ r"
    using False by (simp add: pack_eq del: le_bytes_numeral)
  have len: "length (?h @ r) = k"
    unfolding r [symmetric] using assms(2) by simp
  have "unat (of_nat (length body) :: u32) = length body"
    using assms(1) by (simp add: unat_of_nat kMaxBufferSize_def)
  then show ?thesis
    unfolding r using False assms len
    by (simp add: frame_def pack_header_reads kMaxBodyLen_def kMaxBufferSize_def del: length_append)
qed

lemma decode_wire:
  assumes "buf_inv b" and "wire_ok rt k" and "content b = wire k @ rest"
    and "length (content b) \<le> kMaxBufferSize"
  shows "\<exists>b' p'. decode rt b p = (True, b', p') \<and> buf_inv b' \<and> content b' = rest
    \<and> message_of p' = wire_msg rt k"
proof -
  obtain t i body where k: "k = (t, i, body)" by (cases k)
  obtain ok q where q: "decodeBody rt t body (length body) p = (ok, q)" by fastforce
  have "frame (content b) = Packet t i body"
    using assms k by (simp add: wire_def frame_pack kMaxBufferSize_def kMaxBodyLen_def)
  moreover have "ok" "message_of (q\<lparr>pk_req_id := i\<rparr>) = wire_msg rt k"
    using decodeBody_message [OF q, of i] assms(2) k
    by (auto simp: wire_ok_def wire_msg_def split: if_splits)
  ultimately show ?thesis
    using assms k q retrieve_spec [OF assms(1), of "22 + length body"]
    by (simp add: decode_frame act_on_verdict_def wire_def)
qed

lemma decode_unfinished:
  assumes "buf_inv b" and "list_all (wire_ok rt) ks" and "unfinished wire ks (content b) rest"
  shows "decode rt b p = (False, b, p)"
proof (cases ks)
  case Nil
  then show ?thesis
    using assms by (simp add: unfinished_def decode_frame act_on_verdict_def frame_def)
next
  case (Cons k ks')
  obtain t i body where k: "k = (t, i, body)" by (cases k)
  have less: "length (content b) < length (pack t i body)"
    and "content b @ rest = pack t i body @ concat (map wire ks')"
    using assms(3) Cons k by (simp_all add: unfinished_def wire_def)
  then have "content b = take (length (content b)) (pack t i body)"
    by (metis append_eq_append_conv_if append_eq_conv_conj less_imp_le_nat)
  then have "frame (content b) = Wait"
    using frame_prefix [of t i body "length (content b)"] assms(2) less Cons k by (simp add: wire_ok_def)
  then show ?thesis
    using assms(1) by (simp add: decode_frame act_on_verdict_def)
qed

lemma decode_loop_stream:
  assumes "buf_inv b" and "list_all (wire_ok rt) ks" and "list_all (wire_ok rt) later"
    and "length (content b) \<le> kMaxBufferSize" and "content b = concat (map wire ks) @ part"
    and "unfinished wire later part rest"
  shows "\<exists>b'. decode_loop rt p b = (map (wire_msg rt) ks, b') \<and> buf_inv b' \<and> content b' = part"
  using assms
proof (induction ks arbitrary: b p)
  case Nil
  then have "decode rt b p = (False, b, p)"
    by (intro decode_unfinished) auto
  with Nil show ?case
    by (simp add: decode_loop_def decode_all.simps [of rt b p])
next
  case (Cons k ks)
  obtain b' p' where d: "decode rt b p = (True, b', p')" "buf_inv b'"
      "content b' = concat (map wire ks) @ part" "message_of p' = wire_msg rt k"
    using decode_wire [of b rt k "concat (map wire ks) @ part" p] Cons.prems by auto
  obtain b2 where b2: "decode_loop rt p' b' = (map (wire_msg rt) ks, b2)" "buf_inv b2" "content b2 = part"
    using Cons.IH [of b' p'] Cons.prems d by auto
  then show ?case
    using d by (auto simp: decode_loop_def decode_all.simps [of rt b p] split: prod.splits)
qed

interpretation codec_stream: packet_stream content buf_inv readableBytes append_bytes retrieve
    retrieveAll wire "wire_ok rt" "wire_msg rt" "decode_loop rt p" kMaxBufferSize for rt p
proof unfold_locales
  show "wire k \<noteq> []" for k
    using length_wire [of k] by (metis list.size(3) not_add_less1 zero_less_numeral add_is_0 zero_neq_numeral)
qed (rule decode_loop_stream)

section \<open>Damaged and oversized packets\<close>

lemma frame_bad_crc:
  assumes "take 10 s = take 10 (pack_header t i n)" and "22 + n \<le> length s"
    and "length s \<le> kMaxBufferSize" and crc: "crc32 (take (18 + n) s) \<noteq> read_u32 s (18 + n)"
  shows "frame s = Drop (22 + n)"
proof -
  let ?h = "pack_header t i n @ []"
  have "read_u32 s 0 = kMagic" "s ! 4 = kVersion" "read_u32 s 6 = of_nat n"
    using pack_header_reads [of t i n "[]"] assms(1) read_u32_take [of 0 10 s] read_u32_take [of 0 10 ?h]
      nth_take [of 4 10 s] nth_take [of 4 10 ?h] read_u32_take [of 6 10 s] read_u32_take [of 6 10 ?h]
    by simp_all
  moreover have "unat (of_nat n :: u32) = n"
    using assms by (simp add: unat_of_nat kMaxBufferSize_def)
  ultimately show ?thesis
    using assms by (simp add: frame_def kMaxBodyLen_def kMaxBufferSize_def)
qed

lemma crc_differs:
  fixes rest :: bytes
  assumes "pack t i body = xs @ a @ ys" and "length a' = length a" and "length a \<le> 4" and "a' \<noteq> a"
    and "length xs + length a \<le> 18 + length body \<or> 18 + length body \<le> length xs"
  defines "s \<equiv> xs @ a' @ ys @ rest"
  shows "crc32 (take (18 + length body) s) \<noteq> read_u32 s (18 + length body)"
proof -
  let ?n = "18 + length body" and ?h = "pack_header t i (length body)"
  let ?c = "le_bytes 4 (encodeU32 (crc32 (?h @ body)))"
  have pk: "xs @ a @ ys = (?h @ body) @ ?c"
    using assms(1) by (simp add: pack_eq del: le_bytes_numeral)
  have h: "?h @ body = take ?n (xs @ a @ ys)" and c: "?c = drop ?n (xs @ a @ ys)"
    unfolding pk by (simp_all del: le_bytes_numeral)
  have len: "length (xs @ a @ ys) = ?n + 4"
    unfolding pk by (simp del: le_bytes_numeral)
  show ?thesis
  proof (cases "?n \<le> length xs")
    case True
    then have "take ?n s = ?h @ body"
      by (simp add: s_def h)
    moreover have "read_u32 s ?n \<noteq> crc32 (?h @ body)"
    proof
      assume eq: "read_u32 s ?n = crc32 (?h @ body)"
      have "take 4 (drop ?n s) = ?c"
        using field_read_u32 [of ?n s] eq len assms(2) by (simp add: s_def del: le_bytes_numeral)
      moreover have "take 4 (drop ?n s) = drop ?n (xs @ a' @ ys)"
        using True len assms(2) by (simp add: s_def)
      ultimately have "drop ?n xs @ a' @ ys = drop ?n xs @ a @ ys"
        using True unfolding c by simp
      with assms(2,4) show False by simp
    qed
    ultimately show ?thesis by simp
  next
    case False
    then have le: "length xs + length a \<le> ?n" using assms(5) by simp
    define ys' where "ys' = take (?n - (length xs + length a)) ys"
    have "take ?n s = xs @ a' @ ys'"
      using False le len assms(2) by (simp add: s_def ys'_def)
    moreover have old: "?h @ body = xs @ a @ ys'"
      using False le unfolding h by (simp add: ys'_def)
    moreover have "read_u32 s ?n = crc32 (?h @ body)"
    proof (rule read_u32_field)
      show "drop ?n s = ?c @ rest"
        using False le len assms(2) unfolding c by (simp add: s_def)
    qed
    ultimately show ?thesis
      using crc32_short_burst [of a' a xs ys'] assms(2,3,4) by simp
  qed
qed

lemma find_Some_least:
  "i < n \<Longrightarrow> P i \<Longrightarrow> m \<le> i \<Longrightarrow> (\<And>j. m \<le> j \<Longrightarrow> j < i \<Longrightarrow> \<not> P j) \<Longrightarrow> List.find P [m..<n] = Some i"
  unfolding find_Some_iff by (intro exI [of _ "i - m"]) (simp add: less_diff_conv)

section \<open>Properties\<close>


text \<open>C13: A request the encoder accepts is decoded from the front of any stream: the id, the
  service and the method are those sent, the message is the same, and just the packet's bytes
  are consumed.\<close>

theorem decode_encodeRequest:
  assumes "wire_runtime rt" and "req_ok rt req"
    and "length service \<le> 65535" and "length method \<le> 65535"
    and "buf_inv b" and "content b = encodeRequest rt req i service method @ rest"
    and "length (content b) \<le> kMaxBufferSize"
  shows "\<exists>b' p'. decode rt b p = (True, b', p') \<and> buf_inv b' \<and> content b' = rest
    \<and> pk_msg_type p' = REQUEST \<and> pk_req_id p' = i \<and> pk_service_name p' = service
    \<and> pk_method_name p' = method \<and> req_same (pk_rpc_request p') req"
proof -
  obtain payload m where pl: "RpcRequest_SerializeToString rt req = Some payload"
    and m: "RpcRequest_ParseFromString rt payload = Some m" "req_same m req"
    using wire_runtime.request_wire [OF assms(1,2)] by blast
  let ?body = "string_field service @ string_field method @ payload_field payload"
  have body: "encodeRequestBody rt req service method = ?body"
    using encodeRequestBody_fields [OF assms(3,4) pl] .
  then have enc: "encodeRequest rt req i service method = pack REQUEST i ?body"
    by (auto simp: encodeRequest_def Let_def dest: arg_cong [where f = length])
  have len: "length ?body \<le> kMaxBodyLen" "length payload < 2 ^ 32"
    using assms(6,7) by (simp_all add: enc kMaxBodyLen_def kMaxBufferSize_def)
  have "frame (content b) = Packet REQUEST i ?body"
    using len assms(6,7) frame_pack [of ?body REQUEST i rest] by (simp add: enc)
  then show ?thesis
    using decodeRequestBody_fields [OF assms(3,4) len(2) m(1), of p] m(2) assms(5,6)
      retrieve_spec [OF assms(5), of "22 + length ?body"]
    by (simp add: decode_frame act_on_verdict_def decodeBody_def enc)
qed

text \<open>A response comes back exactly, with the status and the request id it was sent
  with.\<close>

theorem decode_encodeResponse:
  assumes "wire_runtime rt" and "resp_ok rt resp"
    and "buf_inv b" and "content b = encodeResponse rt resp i st @ rest"
    and "length (content b) \<le> kMaxBufferSize"
  shows "\<exists>b' p'. decode rt b p = (True, b', p') \<and> buf_inv b' \<and> content b' = rest
    \<and> message_of p' = ResponseMsg i st resp"
proof -
  obtain payload where pl: "RpcResponse_SerializeToString rt resp = Some payload"
    and m: "RpcResponse_ParseFromString rt payload = Some resp"
    using wire_runtime.response_wire [OF assms(1,2)] by blast
  let ?body = "Status_code st # payload_field payload"
  have enc: "encodeResponse rt resp i st = pack RESPONSE i ?body"
    by (simp add: encodeResponse_def encodeResponseBody_def pl appendPayload_field)
  have len: "length ?body \<le> kMaxBodyLen" "length payload < 2 ^ 32"
    using assms(4,5) by (simp_all add: enc kMaxBodyLen_def kMaxBufferSize_def)
  have "frame (content b) = Packet RESPONSE i ?body"
    using len assms(4,5) frame_pack [of ?body RESPONSE i rest] by (simp add: enc)
  then show ?thesis
    using decodeResponseBody_fields [OF len(2) m, of st p] assms(3,4)
      retrieve_spec [OF assms(3), of "22 + length ?body"]
    by (simp add: decode_frame act_on_verdict_def decodeBody_def enc message_of_def)
qed

text \<open>A heartbeat with fields that fit is decoded with its service, node and timestamp;
  its extra entries are added to those an earlier heartbeat of the same loop left in the
  packet.\<close>

theorem decode_encodeHeartbeat:
  assumes "hb_ok hb" and "buf_inv b" and "content b = encodeHeartbeat hb i @ rest"
    and "length (content b) \<le> kMaxBufferSize"
  shows "\<exists>b' p'. decode rt b p = (True, b', p') \<and> buf_inv b' \<and> content b' = rest
    \<and> message_of p' = HeartbeatMsg i (hb_service_name hb) (hb_node_id hb) (hb_timestamp hb)
    \<and> map_of (hb_extra (pk_heartbeat p')) = map_of (hb_extra (pk_heartbeat p)) ++ map_of (hb_extra hb)"
proof -
  have enc: "encodeHeartbeat hb i = pack HEARTBEAT i (hb_fields hb)"
    using encodeHeartbeatBody_fields [OF assms(1)]
    by (auto simp: encodeHeartbeat_def Let_def hb_fields_def simp del: le_bytes_numeral
        dest: arg_cong [where f = length])
  have "frame (content b) = Packet HEARTBEAT i (hb_fields hb)"
    using assms(3,4) frame_pack [of "hb_fields hb" HEARTBEAT i rest]
    by (simp add: enc kMaxBodyLen_def kMaxBufferSize_def)
  then show ?thesis
    using decodeHeartbeatBody_fields [OF assms(1), of p] assms
      retrieve_spec [OF assms(2), of "22 + length (hb_fields hb)"]
    by (simp add: decode_frame act_on_verdict_def decodeBody_def enc message_of_def map_of_foldl_update hb_ok_def)
qed

text \<open>C15: \<^verbatim>\<open>decode\<close> is the specification \<open>frame\<close> of the unread bytes followed by the action
  for its verdict, reads nothing outside the unread bytes, and keeps the buffer
  well-formed.\<close>

theorem decode_refines_frame:
  assumes "buf_inv b"
  shows "decode rt b p = act_on_verdict rt b p (frame (content b))
    \<and> buf_inv (fst (snd (decode rt b p)))"
  using assms retrieve_spec [OF assms] decode_frame [OF assms]
  by (auto simp: act_on_verdict_def split: verdict.split prod.split bool.split)

text \<open>C9: Nothing but a packet is accepted: when \<^verbatim>\<open>decode\<close> returns true, the bytes it consumed
  are exactly what \<^verbatim>\<open>pack\<close> makes of the message type and request id it reports, around some
  body within the limit.\<close>

theorem decode_accepts_only_packed:
  assumes "buf_inv b" and "decode rt b p = (True, b', p')"
  shows "\<exists>body. content b = pack (pk_msg_type p') (pk_req_id p') body @ content b'
    \<and> length body \<le> kMaxBodyLen"
proof -
  obtain t i body q where f: "frame (content b) = Packet t i body"
    and d: "decodeBody rt t body (length body) p = (True, q)"
    and b': "b' = retrieve b (22 + length body)" and p': "p' = q\<lparr>pk_req_id := i\<rparr>"
    using assms by (auto simp: decode_frame act_on_verdict_def split: verdict.splits prod.splits bool.splits)
  have "pk_msg_type q = t"
    using d by (auto simp: decodeBody_def split: prod.splits)
  then show ?thesis
    using frame_PacketD [OF f] retrieve_spec [OF assms(1), of "22 + length body"] b' p' by auto
qed

text \<open>C16: A packet damaged in at most four consecutive bytes, after the body length and on
  one side of the checksum, is never delivered: \<^verbatim>\<open>decode\<close> drops exactly that packet and the
  packets behind it stay.\<close>

theorem decode_drops_damaged:
  assumes "buf_inv b" and "pack t i body = xs @ a @ ys" and "content b = xs @ a' @ ys @ rest"
    and "length a' = length a" and "length a \<le> 4" and "a' \<noteq> a" and "10 \<le> length xs"
    and "length xs + length a \<le> 18 + length body \<or> 18 + length body \<le> length xs"
    and "length (content b) \<le> kMaxBufferSize"
  shows "\<exists>b'. decode rt b p = (False, b', p) \<and> buf_inv b' \<and> content b' = rest"
proof -
  have len: "length (xs @ a @ ys) = 22 + length body"
    unfolding assms(2) [symmetric] by simp
  have "take 10 (content b) = take 10 (xs @ a @ ys)"
    using assms(3,7) by simp
  also have "\<dots> = take 10 (pack_header t i (length body))"
    unfolding assms(2) [symmetric] by (simp add: pack_eq del: le_bytes_numeral)
  finally have "frame (content b) = Drop (22 + length body)"
    using crc_differs [OF assms(2,4,5,6,8), of rest] len assms(3,4,9)
    by (intro frame_bad_crc) simp_all
  then show ?thesis
    using retrieve_spec [OF assms(1), of "22 + length body"] assms len
    by (simp add: decode_frame act_on_verdict_def)
qed

text \<open>C17: After garbage that holds no magic number, within the scan range, \<^verbatim>\<open>decode\<close> drops the
  garbage and nothing of what follows, so the next call finds the packet.\<close>

theorem decode_resynchronizes:
  assumes "buf_inv b" and "content b = g @ pack t i body @ rest" and "g \<noteq> []"
    and "length g + 4 \<le> kMaxScanBytes" and "length (content b) \<le> kMaxBufferSize"
    and "\<forall>j < length g. read_u32 (content b) j \<noteq> kMagic"
  shows "\<exists>b'. decode rt b p = (False, b', p) \<and> buf_inv b' \<and> content b' = pack t i body @ rest"
proof -
  let ?s = "content b"
  have "drop (length g) ?s = le_bytes 4 (encodeU32 kMagic) @ drop 4 (pack t i body) @ rest"
    by (simp add: assms(2) pack_eq pack_header_def del: le_bytes_numeral)
  then have here: "read_u32 ?s (length g) = kMagic"
    by (rule read_u32_field)
  have len: "length g + 22 \<le> length ?s"
    by (simp add: assms(2))
  have "scanMagic ?s (min (length ?s) kMaxScanBytes) = Some (length g)"
    unfolding scanMagic_def
    using here assms(3,4,6) len
    by (intro find_Some_least) (auto simp: checkMagic_def min_def Suc_le_eq)
  moreover have "read_u32 ?s 0 \<noteq> kMagic" using assms(3,6) by simp
  ultimately have "frame ?s = Drop (length g)"
    using len assms(5) by (simp add: frame_def)
  then show ?thesis
    using retrieve_spec [OF assms(1), of "length g"] assms(1,2)
    by (simp add: decode_frame act_on_verdict_def)
qed

text \<open>The two limits disagree by the 22 bytes of header and checksum: a body within
  \<^verbatim>\<open>kMaxBodyLen\<close> of more than \<^verbatim>\<open>kMaxBufferSize - 22\<close> bytes is encoded, and once all of its
  packet is in the buffer \<^verbatim>\<open>decode\<close> discards everything.\<close>

theorem largest_bodies_undecodable:
  assumes "buf_inv b" and "kMaxBufferSize < length body + 22" and "content b = pack t i body @ rest"
  shows "\<exists>b'. decode rt b p = (False, b', p) \<and> content b' = []"
proof -
  have "frame (content b) = Drop (length (content b))"
    using assms(2,3) by (simp add: frame_def)
  then show ?thesis
    using assms(1) retrieve_spec [OF assms(1), of "length (content b)"]
    by (simp add: decode_frame act_on_verdict_def)
qed

section \<open>Witnesses\<close>

text \<open>A buffer that holds given bytes, and a heartbeat without extra entries.\<close>

definition buffer_of :: "bytes \<Rightarrow> buffer" where
  "buffer_of s = append_bytes new_buffer s"

definition small_heartbeat :: Heartbeat where
  "small_heartbeat = \<lparr>hb_service_name = [115], hb_node_id = [110], hb_timestamp = 7, hb_extra = [], hb_unknown = []\<rparr>"

lemma buffer_of [simp]: "buf_inv (buffer_of s)" "content (buffer_of s) = s"
  using append_bytes_spec [OF buf_inv_new, of s] by (simp_all add: buffer_of_def)

lemma small_heartbeat_ok: "hb_ok small_heartbeat"
  by (simp add: hb_ok_def small_heartbeat_def short_extra_def)

lemma small_heartbeat_body:
  "encodeHeartbeatBody small_heartbeat = hb_fields small_heartbeat" "length (hb_fields small_heartbeat) = 16"
  "encodeHeartbeat small_heartbeat i = pack HEARTBEAT i (hb_fields small_heartbeat)"
proof -
  show b: "encodeHeartbeatBody small_heartbeat = hb_fields small_heartbeat"
    by (rule encodeHeartbeatBody_fields [OF small_heartbeat_ok])
  show l: "length (hb_fields small_heartbeat) = 16"
    by (simp add: hb_fields_def small_heartbeat_def extra_fields_def del: le_bytes_numeral)
  show "encodeHeartbeat small_heartbeat i = pack HEARTBEAT i (hb_fields small_heartbeat)"
    using b l by (auto simp: encodeHeartbeat_def Let_def)
qed

lemma small_heartbeat_message:
  "body_message rt HEARTBEAT i (hb_fields small_heartbeat) = Some (HeartbeatMsg i [115] [110] 7)"
  using decodeHeartbeatBody_fields [OF small_heartbeat_ok, of "new_packet HEARTBEAT i"]
  by (simp add: body_message_def decodeBody_def message_of_def small_heartbeat_def)


lemma empty_request_serializes: "RpcRequest_SerializeToString reference_runtime RpcRequest_new = Some []"
  by (simp add: RpcRequest_SerializeToString_def RpcRequest_InternalSerialize_def RpcRequest_new_def
      RpcRequest_ByteSizeLong_def wire_eval)

theorem decode_encodeRequest_witness:
  "let b = buffer_of (encodeRequest reference_runtime RpcRequest_new 9 [83] [109] @ [1, 2])
   in \<exists>b' p'. decode reference_runtime b (new_packet HEARTBEAT 0) = (True, b', p')
     \<and> content b' = [1, 2] \<and> pk_req_id p' = 9 \<and> pk_service_name p' = [83] \<and> pk_method_name p' = [109]"
proof -
  have "length (encodeRequest reference_runtime RpcRequest_new 9 [83] [109] @ [1, 2]) \<le> kMaxBufferSize"
    using encodeRequestBody_fields [OF _ _ empty_request_serializes, of "[83]" "[109]"]
    by (auto simp: encodeRequest_def Let_def kMaxBufferSize_def)
  moreover have "req_ok reference_runtime RpcRequest_new"
    by (simp add: req_ok_def RpcRequest_new_def RpcRequest_ByteSizeLong_def map_size_def)
  ultimately show ?thesis
    using decode_encodeRequest [OF ref_rt.wire_runtime_axioms, of RpcRequest_new "[83]" "[109]"
        "buffer_of (encodeRequest reference_runtime RpcRequest_new 9 [83] [109] @ [1, 2])" 9 "[1, 2]"
        "new_packet HEARTBEAT 0"]
    by (auto simp: Let_def)
qed

theorem decode_encodeResponse_witness:
  "let b = buffer_of (encodeResponse reference_runtime (error_response [111, 107]) 9 TIMEOUT @ [1, 2])
   in \<exists>b' p'. decode reference_runtime b (new_packet HEARTBEAT 0) = (True, b', p')
     \<and> content b' = [1, 2] \<and> message_of p' = ResponseMsg 9 TIMEOUT (error_response [111, 107])"
proof -
  have "length (encodeResponse reference_runtime (error_response [111, 107]) 9 TIMEOUT @ [1, 2])
      \<le> kMaxBufferSize"
    by (simp add: encodeResponse_def encodeResponseBody_def RpcResponse_SerializeToString_def
        RpcResponse_InternalSerialize_def error_response_def RpcResponse_new_def
        RpcResponse_ByteSizeLong_def wire_eval
        appendPayload_field kMaxBufferSize_def)
  moreover have "resp_ok reference_runtime (error_response [111, 107])"
    by (simp add: resp_ok_def error_response_def RpcResponse_new_def RpcResponse_ByteSizeLong_def
        wire_eval kMaxField_def)
  ultimately show ?thesis
    using decode_encodeResponse [OF ref_rt.wire_runtime_axioms, of "error_response [111, 107]"
        "buffer_of (encodeResponse reference_runtime (error_response [111, 107]) 9 TIMEOUT @ [1, 2])"
        9 TIMEOUT "[1, 2]" "new_packet HEARTBEAT 0"]
    by (auto simp: Let_def)
qed

theorem decode_encodeHeartbeat_witness:
  "let b = buffer_of (encodeHeartbeat small_heartbeat 3 @ [9])
   in \<exists>b' p'. decode reference_runtime b (new_packet REQUEST 0) = (True, b', p')
     \<and> content b' = [9] \<and> message_of p' = HeartbeatMsg 3 [115] [110] 7"
  using decode_encodeHeartbeat [OF small_heartbeat_ok,
      of "buffer_of (encodeHeartbeat small_heartbeat 3 @ [9])" 3 "[9]" reference_runtime
      "new_packet REQUEST 0"]
  by (auto simp: Let_def small_heartbeat_body kMaxBufferSize_def)
    (simp_all add: small_heartbeat_def)

theorem decode_refines_frame_witness:
  "decode reference_runtime new_buffer (new_packet REQUEST 0) = (False, new_buffer, new_packet REQUEST 0)"
  using decode_refines_frame [OF buf_inv_new, of reference_runtime "new_packet REQUEST 0"]
  by (simp add: frame_def act_on_verdict_def)

theorem decode_drops_damaged_witness:
  "let pk = pack REQUEST 4 [1, 2, 3]
   in \<exists>b'. decode reference_runtime (buffer_of (take 18 pk @ [7] @ drop 19 pk @ [5])) (new_packet REQUEST 0)
        = (False, b', new_packet REQUEST 0) \<and> content b' = [5]"
proof -
  let ?pk = "pack REQUEST 4 [1, 2, 3]"
  have "?pk = take 18 ?pk @ [1] @ drop 19 ?pk"
    by (simp add: pack_eq del: le_bytes_numeral)
  then show ?thesis
    using decode_drops_damaged [OF buffer_of(1), of REQUEST 4 "[1, 2, 3]" "take 18 ?pk" "[1]"
        "drop 19 ?pk" "take 18 ?pk @ [7] @ drop 19 ?pk @ [5]" "[7]" "[5]" reference_runtime
        "new_packet REQUEST 0"]
    by (auto simp: Let_def kMaxBufferSize_def)
qed

theorem largest_bodies_undecodable_witness:
  "\<exists>b'. decode reference_runtime (buffer_of (pack REQUEST 1 (replicate kMaxBodyLen 0) @ []))
      (new_packet REQUEST 0) = (False, b', new_packet REQUEST 0) \<and> content b' = []"
  by (rule largest_bodies_undecodable [of _ "replicate kMaxBodyLen 0" REQUEST 1 "[]"])
    (simp_all add: kMaxBufferSize_def kMaxBodyLen_def)

theorem decode_accepts_only_packed_witness:
  "\<exists>b' p' body. decode reference_runtime (buffer_of (wire (HEARTBEAT, 5, hb_fields small_heartbeat) @ [1]))
      (new_packet REQUEST 0) = (True, b', p')
    \<and> wire (HEARTBEAT, 5, hb_fields small_heartbeat) @ [1]
      = pack (pk_msg_type p') (pk_req_id p') body @ content b'"
proof -
  let ?k = "(HEARTBEAT, 5 :: u64, hb_fields small_heartbeat)"
  have "wire_ok reference_runtime ?k"
    by (simp add: wire_ok_def small_heartbeat_body small_heartbeat_message kMaxBufferSize_def)
  then obtain b' p' where d: "decode reference_runtime (buffer_of (wire ?k @ [1])) (new_packet REQUEST 0)
      = (True, b', p')"
    using decode_wire [of "buffer_of (wire ?k @ [1])" reference_runtime ?k "[1]" "new_packet REQUEST 0"]
    by (auto simp: length_wire small_heartbeat_body kMaxBufferSize_def)
  show ?thesis
    using decode_accepts_only_packed [OF buffer_of(1) d] d by auto
qed

lemma magic_bytes: "le_bytes 4 (encodeU32 kMagic) = [0x52, 0x50, 0x43, 0x46]"
  by (simp add: encodeU32_def kMagic_def le_bytes_byteswap [of 4, where 'a = 32, simplified])

theorem decode_resynchronizes_witness:
  "\<exists>b'. decode reference_runtime (buffer_of ([0] @ pack REQUEST 1 [] @ [])) (new_packet REQUEST 0)
      = (False, b', new_packet REQUEST 0) \<and> content b' = pack REQUEST 1 [] @ []"
proof -
  let ?s = "[0] @ pack REQUEST 1 [] @ []"
  have "read_u32 ?s 0 \<noteq> kMagic"
  proof
    assume "read_u32 ?s 0 = kMagic"
    then have "[0x52, 0x50, 0x43, 0x46] = take 4 ?s"
      using field_read_u32 [of 0 ?s] magic_bytes by simp
    then show False by simp
  qed
  then show ?thesis
    using decode_resynchronizes [OF buffer_of(1), of "[0] @ pack REQUEST 1 [] @ []" "[0]" REQUEST 1 "[]"
        "[]" reference_runtime "new_packet REQUEST 0"]
    by (auto simp: kMaxScanBytes_def kMaxBufferSize_def)
qed

end
