(* ===== verification/Server.thy ===== *)
theory Server
  imports Codec_Stream
begin

text \<open>
  The server side of \<^verbatim>\<open>src/src/server\<close>: the method table of \<open>RpcService\<close>, the service table
  of \<open>RpcServer\<close> and \<^verbatim>\<open>onMessage\<close>, the callback that decodes the requests in a connection's
  buffer and answers them.  Method handlers are the user's: functions that fill a response
  and may throw, over a state of the user's.  What \<^verbatim>\<open>onMessage\<close> passes to \<^verbatim>\<open>conn->send\<close> is
  its result.
\<close>

section \<open>Services\<close>

datatype thrown = NoThrow | StdException bytes | OtherException

type_synonym 's handler = "RpcRequest \<Rightarrow> RpcResponse \<Rightarrow> 's \<Rightarrow> thrown \<times> RpcResponse \<times> 's"

record 's RpcService =
  sv_methods :: "(bytes \<times> 's handler) list"

definition registerMethod :: "bytes \<Rightarrow> 's handler option \<Rightarrow> 's RpcService \<Rightarrow> 's RpcService" where
  "registerMethod methodName handler svc =
     (case handler of None \<Rightarrow> svc
      | Some h \<Rightarrow> if methodName = [] then svc
                  else svc\<lparr>sv_methods := AList.update methodName h (sv_methods svc)\<rparr>)"

definition callMethod ::
    "'s RpcService \<Rightarrow> bytes \<Rightarrow> RpcRequest \<Rightarrow> RpcResponse \<Rightarrow> 's \<Rightarrow> bool \<times> thrown \<times> RpcResponse \<times> 's" where
  "callMethod svc methodName request response s =
     (case map_of (sv_methods svc) methodName of
        None \<Rightarrow> (False, NoThrow,
          response\<lparr>resp_success := False, resp_error_msg := str ''method not found: '' @ methodName\<rparr>, s)
      | Some h \<Rightarrow> (True, h request response s))"

section \<open>The server\<close>

record 's RpcServer =
  rs_services :: "(bytes \<times> 's RpcService) list"

text \<open>A null pointer is \<open>None\<close>; the service's name comes from its virtual \<^verbatim>\<open>serviceName\<close>.\<close>

definition server_registerService :: "(bytes \<times> 's RpcService) option \<Rightarrow> 's RpcServer \<Rightarrow> 's RpcServer" where
  "server_registerService service srv =
     (case service of None \<Rightarrow> srv
      | Some (name, svc) \<Rightarrow> srv\<lparr>rs_services := AList.update name svc (rs_services srv)\<rparr>)"

definition heartbeat_ack :: "int \<Rightarrow> Heartbeat" where
  "heartbeat_ack time = Heartbeat_new\<lparr>hb_service_name := str ''server'',
     hb_node_id := str ''server_node'', hb_timestamp := time\<rparr>"

text \<open>The response to a call, with what \<^verbatim>\<open>catch\<close> makes of an exception.\<close>

definition callResponse :: "thrown \<times> RpcResponse \<times> 's \<Rightarrow> RpcResponse \<times> 's" where
  "callResponse r =
     (case r of
        (NoThrow, resp, s) \<Rightarrow> (resp, s)
      | (StdException what, resp, s) \<Rightarrow>
          (resp\<lparr>resp_success := False, resp_error_msg := str ''handler exception: '' @ what\<rparr>, s)
      | (OtherException, resp, s) \<Rightarrow>
          (resp\<lparr>resp_success := False, resp_error_msg := str ''handler unknown exception''\<rparr>, s))"

text \<open>The body of the loop: what is sent for one decoded packet.\<close>

definition handlePacket ::
    "pb_runtime \<Rightarrow> int \<Rightarrow> 's RpcServer \<Rightarrow> DecodedPacket \<Rightarrow> 's \<Rightarrow> bytes list \<times> 's" where
  "handlePacket rt time srv decoded s =
     (if pk_msg_type decoded = HEARTBEAT then
        ([encodeHeartbeat (heartbeat_ack time) (pk_req_id decoded)], s)
      else if pk_msg_type decoded \<noteq> REQUEST then ([], s)
      else (case map_of (rs_services srv) (pk_service_name decoded) of
          None \<Rightarrow>
            let resp = RpcResponse_new\<lparr>resp_success := False,
                  resp_error_msg := str ''service not found: '' @ pk_service_name decoded\<rparr>
            in ([encodeResponse rt resp (pk_req_id decoded) FAILED], s)
        | Some svc \<Rightarrow>
            let (resp, s) = callResponse (snd (callMethod svc (pk_method_name decoded)
                  (pk_rpc_request decoded) RpcResponse_new s))
            in ([encodeResponse rt resp (pk_req_id decoded)
                   (if resp_success resp then SUCCESS else FAILED)], s)))"

text \<open>\<open>time k\<close> is the reading of the clock while the \<open>k\<close>-th packet is handled.\<close>

function onMessage_loop ::
    "pb_runtime \<Rightarrow> (nat \<Rightarrow> int) \<Rightarrow> 's RpcServer \<Rightarrow> nat \<Rightarrow> buffer \<Rightarrow> DecodedPacket \<Rightarrow> 's
      \<Rightarrow> bytes list \<times> buffer \<times> 's" where
  "onMessage_loop rt time srv k buf decoded s =
     (case decode rt buf decoded of
        (False, buf', decoded') \<Rightarrow> ([], buf', s)
      | (True, buf', decoded') \<Rightarrow>
        (let (sent, s) = handlePacket rt (time k) srv decoded' s;
             (sent', r) = onMessage_loop rt time srv (Suc k) buf' decoded' s
         in (sent @ sent', r)))"
  by pat_completeness auto
termination
  by (relation "measure (\<lambda>(rt, time, srv, k, buf, decoded, s). readableBytes buf)")
    (auto dest: decode_true_consumes [OF sym])

declare onMessage_loop.simps [simp del]

text \<open>The two scalars of a fresh \<^verbatim>\<open>DecodedPacket\<close> are unspecified and hence arguments.\<close>

definition onMessage ::
    "pb_runtime \<Rightarrow> (nat \<Rightarrow> int) \<Rightarrow> MsgType \<Rightarrow> u64 \<Rightarrow> 's RpcServer \<Rightarrow> buffer \<Rightarrow> 's \<Rightarrow> bytes list \<times> buffer \<times> 's" where
  "onMessage rt time t i srv buf s = onMessage_loop rt time srv 0 buf (new_packet t i) s"

section \<open>Serving messages\<close>

text \<open>The specification: what a server answers to a message.\<close>

definition call_service ::
    "'s RpcServer \<Rightarrow> bytes \<Rightarrow> bytes \<Rightarrow> RpcRequest \<Rightarrow> 's \<Rightarrow> RpcResponse \<times> Status \<times> 's" where
  "call_service srv service method req s =
     (case map_of (rs_services srv) service of
        None \<Rightarrow> (error_response (str ''service not found: '' @ service), FAILED, s)
      | Some svc \<Rightarrow>
          let (resp, s) = callResponse (snd (callMethod svc method req RpcResponse_new s))
          in (resp, if resp_success resp then SUCCESS else FAILED, s))"

definition serve :: "pb_runtime \<Rightarrow> int \<Rightarrow> 's RpcServer \<Rightarrow> message \<Rightarrow> 's \<Rightarrow> bytes list \<times> 's" where
  "serve rt time srv m s =
     (case m of
        HeartbeatMsg i svc node ts \<Rightarrow> ([encodeHeartbeat (heartbeat_ack time) i], s)
      | ResponseMsg i st resp \<Rightarrow> ([], s)
      | RequestMsg i service method req \<Rightarrow>
          (case call_service srv service method req s of
             (resp, st, s) \<Rightarrow> ([encodeResponse rt resp i st], s)))"

fun serve_all ::
    "pb_runtime \<Rightarrow> (nat \<Rightarrow> int) \<Rightarrow> 's RpcServer \<Rightarrow> nat \<Rightarrow> message list \<Rightarrow> 's \<Rightarrow> bytes list \<times> 's" where
  "serve_all rt time srv k [] s = ([], s)"
| "serve_all rt time srv k (m # ms) s =
     (let (sent, s) = serve rt (time k) srv m s; (sent', s) = serve_all rt time srv (Suc k) ms s
      in (sent @ sent', s))"

lemma handlePacket_serve: "handlePacket rt time srv p s = serve rt time srv (message_of p) s"
  by (cases "pk_msg_type p")
    (auto simp: handlePacket_def serve_def message_of_def call_service_def error_response_def
      split: option.split prod.split)

lemma onMessage_loop_serves:
  "onMessage_loop rt time srv k buf p s =
     (case decode_all rt buf p of (ps, buf', p') \<Rightarrow>
        case serve_all rt time srv k (map message_of ps) s of (sent, s') \<Rightarrow> (sent, buf', s'))"
proof (induction rt time srv k buf p s rule: onMessage_loop.induct)
  case (1 rt time srv k buf p s)
  obtain ok buf' p' where d: "decode rt buf p = (ok, buf', p')" by (cases "decode rt buf p")
  show ?case
  proof (cases ok)
    case False
    with d show ?thesis
      by (simp add: onMessage_loop.simps [of rt time srv k buf] decode_all.simps [of rt buf])
  next
    case True
    obtain sent s1 where h: "handlePacket rt (time k) srv p' s = (sent, s1)" by fastforce
    have "onMessage_loop rt time srv (Suc k) buf' p' s1 =
        (case decode_all rt buf' p' of (ps, buf'', p'') \<Rightarrow>
          case serve_all rt time srv (Suc k) (map message_of ps) s1 of (sent, s') \<Rightarrow> (sent, buf'', s'))"
      using 1 [of True "(buf', p')" buf' p' "(sent, s1)" sent s1] d True h by simp
    with d True h show ?thesis
      by (simp add: onMessage_loop.simps [of rt time srv k buf] decode_all.simps [of rt buf]
          handlePacket_serve split: prod.split)
  qed
qed

text \<open>In terms of the decode loop over messages.\<close>

lemma onMessage_serves:
  "onMessage rt time t i srv buf s =
     (case decode_loop rt (new_packet t i) buf of (ms, buf') \<Rightarrow>
        case serve_all rt time srv 0 ms s of (sent, s') \<Rightarrow> (sent, buf', s'))"
  by (auto simp: onMessage_def onMessage_loop_serves decode_loop_def split: prod.split)

section \<open>Properties\<close>

text \<open>C8: One run of \<^verbatim>\<open>onMessage\<close> over a buffer of packets answers every request exactly once
  and in order, with the request's id, acknowledges heartbeats, ignores responses, and leaves
  the unfinished packet at the end for the next read.\<close>

theorem server_answers_in_order:
  assumes "buf_inv b" and "list_all (wire_ok rt) (ks @ later)" and "content b = concat (map wire ks) @ part"
    and "length (content b) \<le> kMaxBufferSize" and "unfinished wire later part rest"
  shows "\<exists>b'. onMessage rt time t i srv b s =
      (fst (serve_all rt time srv 0 (map (wire_msg rt) ks) s), b',
       snd (serve_all rt time srv 0 (map (wire_msg rt) ks) s)) \<and> buf_inv b' \<and> content b' = part"
proof -
  have ok: "list_all (wire_ok rt) ks" "list_all (wire_ok rt) later" using assms(2) by simp_all
  obtain b' where "decode_loop rt (new_packet t i) b = (map (wire_msg rt) ks, b')"
      "buf_inv b'" "content b' = part"
    using decode_loop_stream [OF assms(1) ok assms(4,3,5), where p = "new_packet t i"] by blast
  then show ?thesis
    by (simp add: onMessage_serves split: prod.split)
qed


definition echo_server :: "unit RpcServer" where
  "echo_server = \<lparr>rs_services = [([69], \<lparr>sv_methods = [([101],
     \<lambda>req resp s. (NoThrow, resp\<lparr>resp_success := True, resp_payload := req_payload req\<rparr>, s))]\<rparr>)]\<rparr>"


theorem server_answers_in_order_witness:
  "\<exists>b' s'. onMessage reference_runtime (\<lambda>k. 7) REQUEST 0 echo_server
      (buffer_of (wire (HEARTBEAT, 5, hb_fields small_heartbeat) @ [])) ()
    = ([encodeHeartbeat (heartbeat_ack 7) 5], b', s') \<and> content b' = []"
proof -
  let ?k = "(HEARTBEAT, 5 :: u64, hb_fields small_heartbeat)"
  have "wire_ok reference_runtime ?k"
    by (simp add: wire_ok_def small_heartbeat_body small_heartbeat_message kMaxBufferSize_def)
  moreover have "length (wire ?k) \<le> kMaxBufferSize"
    by (simp add: length_wire small_heartbeat_body kMaxBufferSize_def)
  ultimately show ?thesis
    using server_answers_in_order [OF buffer_of(1), of reference_runtime "[?k]" "[]" "wire ?k @ []" "[]" "[]"
        "\<lambda>k. 7" REQUEST 0 echo_server "()"]
    by (auto simp: unfinished_def wire_msg_def small_heartbeat_message serve_def)
qed

end
