(* ===== verification/RequestTable.thy ===== *)
theory RequestTable
  imports Rpc_Prelude
begin

text \<open>
  The contract of a client's table of requests: \<open>pend\<close> lists the ids that wait for a response and
  \<open>fin\<close> those completed, in order; \<open>finish\<close> completes one id.  The asynchronous and the
  pipelining client implement it.
\<close>

locale request_table =
  fixes pend :: "'s \<Rightarrow> u64 list" and fin :: "'s \<Rightarrow> u64 list" and finish :: "u64 \<Rightarrow> 'r \<Rightarrow> 's \<Rightarrow> 's"
  assumes finish_pending: "distinct (pend s) \<Longrightarrow> i \<in> set (pend s) \<Longrightarrow>
      distinct (pend (finish i r s)) \<and> set (pend (finish i r s)) = set (pend s) - {i} \<and> fin (finish i r s) = fin s @ [i]"
    and finish_other: "i \<notin> set (pend s) \<Longrightarrow> pend (finish i r s) = pend s \<and> fin (finish i r s) = fin s"
begin

text \<open>Every id known to the table is in one place, once.\<close>

definition once :: "'s \<Rightarrow> bool" where
  "once s \<longleftrightarrow> distinct (pend s @ fin s)"

definition known :: "'s \<Rightarrow> u64 set" where
  "known s = set (pend s) \<union> set (fin s)"

lemma finish_once: "once s \<Longrightarrow> once (finish i r s) \<and> known (finish i r s) = known s"
  using finish_pending [of s i r] finish_other [of i s r]
  by (cases "i \<in> set (pend s)") (auto simp: once_def known_def)

text \<open>Completing several ids, as a sweep over the expired requests does.\<close>

definition finish_all :: "(u64 \<times> 'r) list \<Rightarrow> 's \<Rightarrow> 's" where
  "finish_all irs = fold (\<lambda>(i, r). finish i r) irs"

lemma finish_all_once: "once s \<Longrightarrow> once (finish_all irs s) \<and> known (finish_all irs s) = known s"
proof (induction irs arbitrary: s)
  case (Cons ir irs)
  obtain i r where ir: "ir = (i, r)" by (cases ir)
  from finish_once [OF Cons.prems, of i r] Cons.IH [of "finish i r s"] show ?case
    by (simp add: finish_all_def ir)
qed (simp add: finish_all_def)

lemma finish_all_pending:
  "distinct (pend s) \<Longrightarrow> set (pend (finish_all irs s)) = set (pend s) - fst ` set irs"
proof (induction irs arbitrary: s)
  case (Cons ir irs)
  obtain i r where ir: "ir = (i, r)" by (cases ir)
  have "distinct (pend (finish i r s))" "set (pend (finish i r s)) = set (pend s) - {i}"
    using finish_pending [OF Cons.prems, of i r] finish_other [of i s r] Cons.prems
    by (cases "i \<in> set (pend s)"; simp)+
  with Cons.IH [of "finish i r s"] show ?case by (auto simp: finish_all_def ir)
qed (simp add: finish_all_def)

lemma finish_all_fin:
  "distinct (pend s) \<Longrightarrow> distinct (map fst irs) \<Longrightarrow> set (map fst irs) \<subseteq> set (pend s) \<Longrightarrow>
    fin (finish_all irs s) = fin s @ map fst irs"
proof (induction irs arbitrary: s)
  case (Cons ir irs)
  obtain i r where ir: "ir = (i, r)" by (cases ir)
  have "distinct (pend (finish i r s)) \<and> set (pend (finish i r s)) = set (pend s) - {i} \<and> fin (finish i r s) = fin s @ [i]"
    using finish_pending [OF Cons.prems(1), of i r] Cons.prems(3) ir by simp
  moreover have "set (map fst irs) \<subseteq> set (pend s) - {i}" using Cons.prems(2,3) ir by auto
  ultimately show ?case using Cons.IH [of "finish i r s"] Cons.prems(2) by (simp add: finish_all_def ir)
qed (simp add: finish_all_def)

end

end
