(* ===== verification/CircuitBreaker.thy ===== *)
theory CircuitBreaker
  imports Main
begin

text \<open>
  The circuit breaker of \<^verbatim>\<open>src/src/circuit_breaker\<close>.  Readings of the steady clock are
  arguments, in nanoseconds.  The threads of a client share a breaker and each call first
  loads the state and goes on under the lock or with further atomics, so a call is split in
  two: the load and the rest of the call (\<open>allowRequest_from\<close>, \<open>recordSuccess_from\<close>,
  \<open>recordFailure_from\<close>), which runs on whatever state the breaker has by then.  An
  undisturbed call is the two in a row.  \<open>cb_step\<close> interleaves the calls of any number of
  threads.
\<close>

section \<open>State and operations\<close>

datatype cb_state = CLOSED | OPEN | HALF_OPEN

record breaker =
  cb_state :: cb_state
  cb_failureCount :: int
  cb_failureThreshold :: int
  cb_openTimeout :: int
  cb_openedAt :: int
  cb_halfOpenRequests :: int
  cb_halfOpenTimeout :: int

definition ms :: "int \<Rightarrow> int" where "ms n = n * 1000000"

definition new_breaker :: "int \<Rightarrow> int \<Rightarrow> breaker" where
  "new_breaker failureThreshold openTimeoutSec =
     \<lparr>cb_state = CLOSED, cb_failureCount = 0, cb_failureThreshold = failureThreshold,
      cb_openTimeout = ms (openTimeoutSec * 1000), cb_openedAt = 0, cb_halfOpenRequests = 0,
      cb_halfOpenTimeout = ms 5000\<rparr>"

definition transitionToOpen :: "int \<Rightarrow> breaker \<Rightarrow> breaker" where
  "transitionToOpen now b = b\<lparr>cb_openedAt := now, cb_state := OPEN\<rparr>"

definition transitionToHalfOpen :: "breaker \<Rightarrow> breaker" where
  "transitionToHalfOpen b = b\<lparr>cb_halfOpenRequests := 0, cb_state := HALF_OPEN\<rparr>"

definition transitionToClosed :: "breaker \<Rightarrow> breaker" where
  "transitionToClosed b = b\<lparr>cb_state := CLOSED, cb_failureCount := 0, cb_halfOpenRequests := 0\<rparr>"

text \<open>\<^verbatim>\<open>halfOpenRequests_.compare_exchange_strong(expected = 0, 1)\<close>\<close>

definition claim_probe :: "breaker \<Rightarrow> bool \<times> breaker" where
  "claim_probe b =
     (if cb_halfOpenRequests b = 0 then (True, b\<lparr>cb_halfOpenRequests := 1\<rparr>) else (False, b))"

definition allowRequest_from :: "cb_state \<Rightarrow> int \<Rightarrow> breaker \<Rightarrow> bool \<times> breaker" where
  "allowRequest_from s now b =
     (case s of
        CLOSED \<Rightarrow> (True, b)
      | OPEN \<Rightarrow>
        (case cb_state b of
           CLOSED \<Rightarrow> (True, b)
         | HALF_OPEN \<Rightarrow> claim_probe b
         | OPEN \<Rightarrow>
           if now - cb_openedAt b \<ge> cb_openTimeout b then (True, transitionToHalfOpen b)
           else (False, b))
      | HALF_OPEN \<Rightarrow>
        claim_probe
          (if now - cb_openedAt b \<ge> cb_halfOpenTimeout b
           then b\<lparr>cb_halfOpenRequests := 0, cb_openedAt := now\<rparr> else b))"

definition recordSuccess_from :: "cb_state \<Rightarrow> breaker \<Rightarrow> breaker" where
  "recordSuccess_from s b =
     (case s of CLOSED \<Rightarrow> b\<lparr>cb_failureCount := 0\<rparr>
      | HALF_OPEN \<Rightarrow> transitionToClosed b
      | OPEN \<Rightarrow> b)"

definition recordFailure_from :: "cb_state \<Rightarrow> int \<Rightarrow> breaker \<Rightarrow> breaker" where
  "recordFailure_from s now b =
     (case s of
        CLOSED \<Rightarrow>
          (let count = cb_failureCount b + 1; b = b\<lparr>cb_failureCount := count\<rparr>
           in if count \<ge> cb_failureThreshold b then transitionToOpen now b else b)
      | HALF_OPEN \<Rightarrow> transitionToOpen now b
      | OPEN \<Rightarrow> b)"

definition allowRequest :: "int \<Rightarrow> breaker \<Rightarrow> bool \<times> breaker" where
  "allowRequest now b = allowRequest_from (cb_state b) now b"

definition recordSuccess :: "breaker \<Rightarrow> breaker" where
  "recordSuccess b = recordSuccess_from (cb_state b) b"

definition recordFailure :: "int \<Rightarrow> breaker \<Rightarrow> breaker" where
  "recordFailure now b = recordFailure_from (cb_state b) now b"

lemmas cb_defs = allowRequest_def recordSuccess_def recordFailure_def allowRequest_from_def
  recordSuccess_from_def recordFailure_from_def claim_probe_def transitionToOpen_def
  transitionToHalfOpen_def transitionToClosed_def

section \<open>Interleaved calls\<close>

text \<open>A call that has loaded the state and not yet finished, and the threads' steps.\<close>

datatype cb_call = Allow cb_state | Success cb_state | Failure cb_state

inductive cb_step :: "breaker \<times> cb_call list \<Rightarrow> breaker \<times> cb_call list \<Rightarrow> bool" where
  load_allow: "cb_step (b, cs) (b, Allow (cb_state b) # cs)"
| load_success: "cb_step (b, cs) (b, Success (cb_state b) # cs)"
| load_failure: "cb_step (b, cs) (b, Failure (cb_state b) # cs)"
| finish_allow: "cb_step (b, xs @ Allow s # ys) (snd (allowRequest_from s now b), xs @ ys)"
| finish_success: "cb_step (b, xs @ Success s # ys) (recordSuccess_from s b, xs @ ys)"
| finish_failure: "cb_step (b, xs @ Failure s # ys) (recordFailure_from s now b, xs @ ys)"

inductive cb_reach :: "breaker \<Rightarrow> breaker \<times> cb_call list \<Rightarrow> bool" for b0 where
  reach_start: "cb_reach b0 (b0, [])"
| reach_step: "cb_reach b0 c \<Longrightarrow> cb_step c c' \<Longrightarrow> cb_reach b0 c'"

text \<open>What holds however the calls interleave.\<close>

definition cb_inv :: "breaker \<Rightarrow> bool" where
  "cb_inv b \<longleftrightarrow> cb_halfOpenRequests b \<in> {0, 1} \<and> 0 \<le> cb_failureCount b"

definition cb_same_config :: "breaker \<Rightarrow> breaker \<Rightarrow> bool" where
  "cb_same_config b b' \<longleftrightarrow> cb_failureThreshold b = cb_failureThreshold b'
     \<and> cb_openTimeout b = cb_openTimeout b' \<and> cb_halfOpenTimeout b = cb_halfOpenTimeout b'"

lemma cb_inv_new: "cb_inv (new_breaker n t)"
  by (simp add: cb_inv_def new_breaker_def)

lemma cb_ops_inv:
  assumes "cb_inv b"
  shows "cb_inv (snd (allowRequest_from s now b)) \<and> cb_same_config (snd (allowRequest_from s now b)) b"
    and "cb_inv (recordSuccess_from s b) \<and> cb_same_config (recordSuccess_from s b) b"
    and "cb_inv (recordFailure_from s now b) \<and> cb_same_config (recordFailure_from s now b) b"
  using assms by (auto simp: cb_inv_def cb_same_config_def cb_defs Let_def split: cb_state.split)

lemma cb_step_inv:
  assumes "cb_step c c'" and "cb_inv (fst c)"
  shows "cb_inv (fst c') \<and> cb_same_config (fst c') (fst c)"
  using assms by cases (simp_all add: cb_ops_inv, simp_all add: cb_same_config_def)

lemma cb_reach_inv:
  assumes "cb_reach b0 c" and "cb_inv b0"
  shows "cb_inv (fst c) \<and> cb_same_config (fst c) b0"
  using assms
proof (induction rule: cb_reach.induct)
  case reach_start
  then show ?case by (simp add: cb_same_config_def)
next
  case (reach_step c c')
  then show ?case
    using cb_step_inv [of c c'] by (simp add: cb_same_config_def)
qed

section \<open>Undisturbed histories\<close>

text \<open>Results recorded one after the other: the time and whether the call succeeded.\<close>

fun record_all :: "(int \<times> bool) list \<Rightarrow> breaker \<Rightarrow> breaker" where
  "record_all [] b = b"
| "record_all ((t, True) # rs) b = record_all rs (recordSuccess b)"
| "record_all ((t, False) # rs) b = record_all rs (recordFailure t b)"

lemma record_all_open: "cb_state b = OPEN \<Longrightarrow> record_all rs b = b"
  by (induction rs b rule: record_all.induct) (simp_all add: cb_defs)

definition has_run :: "nat \<Rightarrow> bool list \<Rightarrow> bool" where
  "has_run n rs \<longleftrightarrow> (\<exists>xs ys. rs = xs @ replicate n False @ ys)"

lemma has_run_Cons_True: "0 < n \<Longrightarrow> has_run n (True # rs) = has_run n rs"
proof
  assume "0 < n" "has_run n (True # rs)"
  then obtain xs ys where "True # rs = xs @ replicate n False @ ys" by (auto simp: has_run_def)
  then show "has_run n rs"
    using \<open>0 < n\<close> by (cases xs; cases n) (auto simp: has_run_def)
next
  assume "has_run n rs"
  then show "has_run n (True # rs)" unfolding has_run_def by (metis append_Cons)
qed

lemma has_run_breaks:
  assumes "k < n"
  shows "has_run n (replicate k False @ True # rs) = has_run n (True # rs)"
  using assms
proof (induction k)
  case (Suc k)
  have "has_run n (replicate (Suc k) False @ True # rs) = has_run n (replicate k False @ True # rs)"
  proof
    assume "has_run n (replicate (Suc k) False @ True # rs)"
    then obtain xs ys where eq: "False # replicate k False @ True # rs = xs @ replicate n False @ ys"
      by (auto simp: has_run_def)
    show "has_run n (replicate k False @ True # rs)"
    proof (cases xs)
      case Nil
      then have "(replicate (Suc k) False @ True # rs) ! Suc k = (replicate n False @ ys) ! Suc k"
        using eq by simp
      then show ?thesis using Suc.prems by (simp add: nth_append)
    next
      case (Cons x xs')
      then show ?thesis using eq by (auto simp: has_run_def)
    qed
  next
    assume "has_run n (replicate k False @ True # rs)"
    then obtain xs ys where "replicate k False @ True # rs = xs @ replicate n False @ ys"
      by (auto simp: has_run_def)
    then have "replicate (Suc k) False @ True # rs = (False # xs) @ replicate n False @ ys" by simp
    then show "has_run n (replicate (Suc k) False @ True # rs)"
      unfolding has_run_def by blast
  qed
  with Suc show ?case by simp
qed simp

lemma record_all_opens:
  assumes "cb_state b = CLOSED" and "cb_failureThreshold b = int n" and "cb_failureCount b = int k"
    and "k < n"
  shows "cb_state (record_all rs b) = OPEN \<longleftrightarrow> has_run n (replicate k False @ map snd rs)"
  using assms
proof (induction rs arbitrary: b k)
  case Nil
  have "\<not> has_run n (replicate k False)"
    using Nil by (auto simp: has_run_def dest: arg_cong [where f = length])
  with Nil show ?case by simp
next
  case (Cons r rs)
  note b = Cons.prems
  obtain t ok where r: "r = (t, ok)" by fastforce
  consider (good) ok | (bad) "\<not> ok" "Suc k < n" | (trip) "\<not> ok" "Suc k = n" using b by fastforce
  then show ?case
  proof cases
    case good
    have "has_run n (replicate k False @ True # map snd rs) = has_run n (map snd rs)"
      using b by (simp add: has_run_breaks has_run_Cons_True)
    moreover have "cb_state (recordSuccess b) = CLOSED" "cb_failureCount (recordSuccess b) = int 0"
        "cb_failureThreshold (recordSuccess b) = int n"
      using b by (simp_all add: cb_defs)
    ultimately show ?thesis
      using good b Cons.IH [of "recordSuccess b" 0] by (simp add: r)
  next
    case bad
    have "cb_state (recordFailure t b) = CLOSED" "cb_failureCount (recordFailure t b) = int (Suc k)"
        "cb_failureThreshold (recordFailure t b) = int n"
      using b bad by (simp_all add: cb_defs Let_def)
    then show ?thesis
      using bad Cons.IH [of "recordFailure t b" "Suc k"] by (simp add: r replicate_app_Cons_same)
  next
    case trip
    have "cb_state (recordFailure t b) = OPEN"
      using b trip by (simp add: cb_defs Let_def)
    moreover have "has_run n (replicate k False @ False # map snd rs)"
      unfolding has_run_def
      by (intro exI [of _ "[]"] exI [of _ "map snd rs"]) (simp add: replicate_app_Cons_same flip: trip(2))
    ultimately show ?thesis
      using trip by (simp add: r record_all_open)
  qed
qed

section \<open>Properties\<close>

text \<open>C33: Seen through its results, a new breaker with threshold \<open>n\<close> is open exactly when
  somewhere among them are \<open>n\<close> failures in a row; successes in between never let it
  open.\<close>

theorem breaker_opens_on_run:
  assumes "0 < n"
  shows "cb_state (record_all rs (new_breaker (int n) t)) = OPEN \<longleftrightarrow> has_run n (map snd rs)"
  using record_all_opens [of "new_breaker (int n) t" n 0 rs] assms by (simp add: new_breaker_def)

theorem breaker_opens_on_run_witness:
  "cb_state (record_all [(1, False), (2, True), (3, False), (4, False)] (new_breaker 2 10)) = OPEN
   \<and> has_run 2 [False, True, False, False]"
  using breaker_opens_on_run [of 2 "[(1, False), (2, True), (3, False), (4, False)]" 10]
  by (simp add: new_breaker_def cb_defs Let_def)

text \<open>An open breaker rejects every request until its timeout has passed, whatever else
  is recorded meanwhile, and changes nothing; the first request after it goes through and
  makes it half-open, from where a success closes it with its counters cleared and a failure
  opens it for another full timeout.\<close>

theorem breaker_open_cycle:
  assumes "cb_state b = OPEN"
  shows "(now < cb_openedAt b + cb_openTimeout b \<longrightarrow>
      allowRequest now b = (False, b) \<and> recordSuccess b = b \<and> recordFailure now b = b)
    \<and> (cb_openedAt b + cb_openTimeout b \<le> now \<longrightarrow>
      fst (allowRequest now b) \<and> cb_state (snd (allowRequest now b)) = HALF_OPEN
      \<and> recordSuccess (snd (allowRequest now b))
        = b\<lparr>cb_state := CLOSED, cb_failureCount := 0, cb_halfOpenRequests := 0\<rparr>
      \<and> (later < t + cb_openTimeout b \<longrightarrow>
          \<not> fst (allowRequest later (recordFailure t (snd (allowRequest now b))))))"
  using assms by (auto simp: cb_defs)

theorem breaker_open_cycle_witness:
  "allowRequest 3 (record_all [(1, False)] (new_breaker 1 10))
      = (False, record_all [(1, False)] (new_breaker 1 10))
   \<and> fst (allowRequest 10000000001 (record_all [(1, False)] (new_breaker 1 10)))"
proof -
  let ?b = "record_all [(1, False)] (new_breaker 1 10)"
  have "cb_state ?b = OPEN" "cb_openedAt ?b + cb_openTimeout ?b = 10000000001"
    by (simp_all add: new_breaker_def cb_defs Let_def ms_def)
  then show ?thesis
    using breaker_open_cycle [of ?b 3] breaker_open_cycle [of ?b 10000000001] by simp
qed

text \<open>However the calls of the threads sharing a breaker interleave, between load and
  update, the probe counter stays 0 or 1, the failure count non-negative and the
  configuration as constructed.\<close>

theorem breaker_interleaving_safe:
  assumes "cb_reach (new_breaker n t) (b, calls)"
  shows "cb_halfOpenRequests b \<in> {0, 1} \<and> 0 \<le> cb_failureCount b \<and> cb_failureThreshold b = n
    \<and> cb_openTimeout b = ms (t * 1000)"
  using cb_reach_inv [OF assms cb_inv_new]
  by (simp add: cb_inv_def cb_same_config_def new_breaker_def)

theorem breaker_interleaving_safe_witness:
  "cb_reach (new_breaker 1 10) (new_breaker 1 10, [])
   \<and> cb_failureThreshold (new_breaker 1 10) = 1"
  using breaker_interleaving_safe [OF reach_start, of 1 10] by (simp add: reach_start)

text \<open>The half-open state admits more than the one probe it is meant for: the request
  that finds the timeout elapsed passes without claiming the probe, so the next request of
  the half-open state passes as well.\<close>

theorem breaker_half_open_two_probes:
  assumes "cb_state b = OPEN" and "cb_openedAt b + cb_openTimeout b \<le> now"
  shows "fst (allowRequest now b) \<and> fst (allowRequest now (snd (allowRequest now b)))"
  using assms by (auto simp: cb_defs)

theorem breaker_half_open_two_probes_witness:
  "let b = record_all [(0, False)] (new_breaker 1 10); r = allowRequest (ms 10000) b
   in fst r \<and> fst (allowRequest (ms 10000) (snd r))"
  using breaker_half_open_two_probes [of "record_all [(0, False)] (new_breaker 1 10)" "ms 10000"]
  by (simp add: new_breaker_def cb_defs Let_def ms_def)

end
