(* ===== verification/RateLimiter.thy ===== *)
theory RateLimiter
  imports Complex_Main Rpc_Prelude "HOL-Library.Sublist"
begin

text \<open>
  The rate limiters of \<^verbatim>\<open>src/src/rate_limiter\<close>: the local \<open>TokenBucket\<close>, the Lua script that
  \<open>RedisTokenBucket\<close> runs in the server, and \<open>RedisTokenBucket\<close> itself with its fallback.
  A \<^verbatim>\<open>double\<close> is a real number here, so rounding is not part of the model.  Clock readings
  are arguments, in nanoseconds for the local buckets and milliseconds for the script.

  The bound on what a limiter admits is proved once, in the locale \<open>token_limiter\<close>, and
  holds of the local bucket and of the script by interpretation.
\<close>

section \<open>TokenBucket\<close>

record TokenBucket =
  tb_rate :: real
  tb_capacity :: real
  tb_tokens :: real
  tb_lastRefillTime :: int

definition new_TokenBucket :: "real \<Rightarrow> real \<Rightarrow> int \<Rightarrow> TokenBucket" where
  "new_TokenBucket rate capacity now =
     \<lparr>tb_rate = rate, tb_capacity = capacity, tb_tokens = capacity, tb_lastRefillTime = now\<rparr>"

definition refill :: "int \<Rightarrow> TokenBucket \<Rightarrow> TokenBucket" where
  "refill now b =
     (let elapsed = real_of_int (now - tb_lastRefillTime b) / 1000000000;
          tokens = tb_tokens b + elapsed * tb_rate b;
          tokens = (if tokens > tb_capacity b then tb_capacity b else tokens)
      in b\<lparr>tb_tokens := tokens, tb_lastRefillTime := now\<rparr>)"

definition tb_allow :: "int \<Rightarrow> TokenBucket \<Rightarrow> bool \<times> TokenBucket" where
  "tb_allow now b =
     (let b = refill now b
      in if tb_tokens b \<ge> 1 then (True, b\<lparr>tb_tokens := tb_tokens b - 1\<rparr>) else (False, b))"

definition tb_setRate :: "int \<Rightarrow> real \<Rightarrow> real \<Rightarrow> TokenBucket \<Rightarrow> TokenBucket" where
  "tb_setRate now rate capacity b =
     (let b = (refill now b)\<lparr>tb_rate := rate\<rparr>;
          b = (if capacity \<ge> 0 then b\<lparr>tb_capacity := capacity\<rparr> else b)
      in if tb_tokens b > tb_capacity b then b\<lparr>tb_tokens := tb_capacity b\<rparr> else b)"

definition availableTokens :: "int \<Rightarrow> TokenBucket \<Rightarrow> real \<times> TokenBucket" where
  "availableTokens now b = (let b = refill now b in (tb_tokens b, b))"

section \<open>The Lua script\<close>

text \<open>The two keys of the script as the server holds them.\<close>

record script_keys =
  key_tokens :: "real option"
  key_timestamp :: "int option"

definition luaScript :: "real \<Rightarrow> real \<Rightarrow> int \<Rightarrow> script_keys \<Rightarrow> int \<times> script_keys" where
  "luaScript rate capacity now k =
     (let last_tokens = (case key_tokens k of None \<Rightarrow> capacity | Some x \<Rightarrow> x);
          last_refill = (case key_timestamp k of None \<Rightarrow> now | Some x \<Rightarrow> x);
          elapsed = max 0 (now - last_refill);
          new_tokens = min capacity (last_tokens + real_of_int elapsed * rate / 1000)
      in if new_tokens \<ge> 1
         then (1, k\<lparr>key_tokens := Some (new_tokens - 1), key_timestamp := Some now\<rparr>)
         else (0, k\<lparr>key_tokens := Some new_tokens, key_timestamp := Some now\<rparr>))"

section \<open>RedisTokenBucket\<close>

text \<open>What hiredis hands back: a null reply, an error, an integer, or a string.\<close>

datatype redis_reply = NullReply | ErrorReply bytes | IntegerReply int | StringReply bytes

record RedisTokenBucket =
  rb_base :: TokenBucket
  rb_redisCtx :: bool
  rb_luaSha :: bytes
  rb_localRate :: real
  rb_localCapacity :: real
  rb_localTokens :: real
  rb_localLastRefill :: int
  rb_fallback :: bool

definition connectRedis :: "bool \<Rightarrow> RedisTokenBucket \<Rightarrow> RedisTokenBucket" where
  "connectRedis isConnected b =
     (if isConnected then b\<lparr>rb_redisCtx := True\<rparr> else b\<lparr>rb_redisCtx := False, rb_fallback := True\<rparr>)"

definition store_sha :: "redis_reply \<Rightarrow> RedisTokenBucket \<Rightarrow> RedisTokenBucket" where
  "store_sha r b = (case r of StringReply s \<Rightarrow> b\<lparr>rb_luaSha := s\<rparr> | _ \<Rightarrow> b)"

definition new_RedisTokenBucket ::
    "real \<Rightarrow> real \<Rightarrow> int \<Rightarrow> bool \<Rightarrow> redis_reply \<Rightarrow> RedisTokenBucket" where
  "new_RedisTokenBucket rate capacity now isConnected loadReply =
     (let b = connectRedis isConnected
        \<lparr>rb_base = new_TokenBucket rate capacity now, rb_redisCtx = False, rb_luaSha = [],
         rb_localRate = rate, rb_localCapacity = capacity, rb_localTokens = capacity,
         rb_localLastRefill = now, rb_fallback = False\<rparr>
      in if rb_redisCtx b then store_sha loadReply b else b)"

definition localRefill :: "int \<Rightarrow> RedisTokenBucket \<Rightarrow> RedisTokenBucket" where
  "localRefill now b =
     (let elapsed = real_of_int (now - rb_localLastRefill b) / 1000000000;
          tokens = rb_localTokens b + elapsed * rb_localRate b;
          tokens = (if tokens > rb_localCapacity b then rb_localCapacity b else tokens)
      in b\<lparr>rb_localTokens := tokens, rb_localLastRefill := now\<rparr>)"

definition localAllow :: "int \<Rightarrow> RedisTokenBucket \<Rightarrow> bool \<times> RedisTokenBucket" where
  "localAllow now b =
     (let b = localRefill now b
      in if rb_localTokens b \<ge> 1 then (True, b\<lparr>rb_localTokens := rb_localTokens b - 1\<rparr>)
         else (False, b))"

text \<open>
  One element of the list per (recursive) call: the clock reading, the reply to
  \<^verbatim>\<open>EVALSHA\<close> and the reply to \<^verbatim>\<open>SCRIPT LOAD\<close>, should they be asked for.  \<open>None\<close> when the
  call is still waiting at the end of the list.
\<close>

fun rb_allow ::
    "RedisTokenBucket \<Rightarrow> (int \<times> redis_reply \<times> redis_reply) list \<Rightarrow> (bool \<times> RedisTokenBucket) option" where
  "rb_allow b [] = None"
| "rb_allow b ((now, reply, loadReply) # rest) =
     (if rb_fallback b \<or> \<not> rb_redisCtx b then Some (localAllow now b)
      else (case reply of
          NullReply \<Rightarrow> rb_allow (b\<lparr>rb_fallback := True, rb_redisCtx := False\<rparr>) rest
        | ErrorReply s \<Rightarrow>
            if sublist (str ''NOSCRIPT'') s then rb_allow (store_sha loadReply b) rest
            else Some (False, b)
        | IntegerReply i \<Rightarrow> Some (i = 1, b)
        | StringReply s \<Rightarrow> Some (False, b)))"

definition rb_setRate :: "int \<Rightarrow> real \<Rightarrow> real \<Rightarrow> RedisTokenBucket \<Rightarrow> RedisTokenBucket" where
  "rb_setRate now rate capacity b =
     (let b = b\<lparr>rb_base := tb_setRate now rate capacity (rb_base b)\<rparr>;
          b = (if capacity \<ge> 0 then b\<lparr>rb_localCapacity := capacity\<rparr> else b)
      in b\<lparr>rb_localRate := rate\<rparr>)"

section \<open>The contract of a limiter\<close>

text \<open>The admitted calls at the given times, and the state after them.\<close>

fun admitted :: "(int \<Rightarrow> 's \<Rightarrow> bool \<times> 's) \<Rightarrow> int list \<Rightarrow> 's \<Rightarrow> nat \<times> 's" where
  "admitted f [] s = (0, s)"
| "admitted f (t # ts) s =
     (let (ok, s) = f t s; (n, s) = admitted f ts s in (if ok then Suc n else n, s))"

locale token_limiter =
  fixes invar :: "'s \<Rightarrow> bool" and level :: "'s \<Rightarrow> real" and clock :: "'s \<Rightarrow> int"
    and cap :: real and per_tick :: real and try_take :: "int \<Rightarrow> 's \<Rightarrow> bool \<times> 's"
  assumes bounds: "invar s \<Longrightarrow> 0 \<le> level s \<and> level s \<le> cap \<and> 0 \<le> per_tick"
    and try_take_spec: "invar s \<Longrightarrow> clock s \<le> t \<Longrightarrow> try_take t s = (ok, s') \<Longrightarrow>
      invar s' \<and> clock s' = t
      \<and> level s' + of_bool ok = min cap (level s + real_of_int (t - clock s) * per_tick)
      \<and> (ok \<longleftrightarrow> 1 \<le> min cap (level s + real_of_int (t - clock s) * per_tick))"
begin

text \<open>Nothing is admitted that was not in the bucket or has not dripped into it.\<close>

lemma admitted_conserves:
  "invar s \<Longrightarrow> sorted (clock s # ts) \<Longrightarrow> admitted try_take ts s = (n, s') \<Longrightarrow>
     invar s' \<and> clock s' = last (clock s # ts)
     \<and> level s' + real n \<le> level s + real_of_int (clock s' - clock s) * per_tick"
proof (induction ts arbitrary: s n s')
  case (Cons t ts)
  obtain ok s1 where s1: "try_take t s = (ok, s1)" by fastforce
  obtain m s2 where s2: "admitted try_take ts s1 = (m, s2)" by fastforce
  have step: "invar s1" "clock s1 = t"
      "level s1 + of_bool ok \<le> level s + real_of_int (t - clock s) * per_tick"
    using try_take_spec [OF Cons.prems(1) _ s1] Cons.prems(2) by auto
  have n: "s' = s2" "real n = real m + of_bool ok"
    using Cons.prems(3) s1 s2 by auto
  have ih: "invar s2 \<and> clock s2 = last (t # ts)
      \<and> level s2 + real m \<le> level s1 + real_of_int (clock s2 - t) * per_tick"
    using Cons.IH [OF step(1) _ s2] step(2) Cons.prems(2) by auto
  have "real_of_int (clock s2 - clock s) * per_tick
      = real_of_int (clock s2 - t) * per_tick + real_of_int (t - clock s) * per_tick"
    by (simp add: algebra_simps)
  then have "level s2 + real n \<le> level s + real_of_int (clock s2 - clock s) * per_tick"
    using ih step(3) n(2) by linarith
  with ih n(1) show ?case by auto
qed simp

lemma admitted_bound:
  assumes "invar s" and "sorted (clock s # ts)"
  shows "real (fst (admitted try_take ts s)) \<le> cap + real_of_int (last (clock s # ts) - clock s) * per_tick"
proof -
  obtain n s' where a: "admitted try_take ts s = (n, s')" by fastforce
  from admitted_conserves [OF assms a] bounds [of s'] bounds [OF assms(1)] show ?thesis
    unfolding a by auto
qed

text \<open>A caller that waits for one token to drip is admitted.\<close>

lemma waiting_is_admitted:
  assumes "invar s" and "clock s \<le> t" and "1 \<le> cap" and "1 \<le> real_of_int (t - clock s) * per_tick"
  shows "fst (try_take t s)"
proof -
  obtain ok s' where "try_take t s = (ok, s')" by fastforce
  from try_take_spec [OF assms(1,2) this] bounds [OF assms(1)] assms show ?thesis
    using \<open>try_take t s = (ok, s')\<close> by simp
qed

end

definition tb_inv :: "real \<Rightarrow> real \<Rightarrow> TokenBucket \<Rightarrow> bool" where
  "tb_inv rate capacity b \<longleftrightarrow> tb_rate b = rate \<and> tb_capacity b = capacity \<and> 0 \<le> rate
     \<and> 0 \<le> tb_tokens b \<and> tb_tokens b \<le> capacity"

interpretation bucket: token_limiter "tb_inv rate capacity" tb_tokens tb_lastRefillTime capacity
    "rate / 1000000000" tb_allow for rate capacity
proof unfold_locales
  fix s t ok s'
  assume "tb_inv rate capacity s" "tb_lastRefillTime s \<le> t" "tb_allow t s = (ok, s')"
  moreover from this have "0 \<le> real_of_int (t - tb_lastRefillTime s) * (rate / 1000000000)"
    by (intro mult_nonneg_nonneg) (simp_all add: tb_inv_def)
  ultimately show "tb_inv rate capacity s' \<and> tb_lastRefillTime s' = t
      \<and> tb_tokens s' + of_bool ok
        = min capacity (tb_tokens s + real_of_int (t - tb_lastRefillTime s) * (rate / 1000000000))
      \<and> (ok \<longleftrightarrow> 1 \<le> min capacity (tb_tokens s + real_of_int (t - tb_lastRefillTime s) * (rate / 1000000000)))"
    by (auto simp: tb_inv_def tb_allow_def refill_def Let_def min_def split: if_splits)
qed (simp add: tb_inv_def)

definition keys_tokens :: "real \<Rightarrow> script_keys \<Rightarrow> real" where
  "keys_tokens capacity k = (case key_tokens k of None \<Rightarrow> capacity | Some x \<Rightarrow> x)"

definition keys_time :: "script_keys \<Rightarrow> int" where
  "keys_time k = (case key_timestamp k of None \<Rightarrow> 0 | Some x \<Rightarrow> x)"

definition keys_inv :: "real \<Rightarrow> real \<Rightarrow> script_keys \<Rightarrow> bool" where
  "keys_inv rate capacity k \<longleftrightarrow> 0 \<le> rate \<and> 0 \<le> keys_tokens capacity k \<and> keys_tokens capacity k \<le> capacity
     \<and> (key_tokens k = None \<longleftrightarrow> key_timestamp k = None)"

definition script_allow :: "real \<Rightarrow> real \<Rightarrow> int \<Rightarrow> script_keys \<Rightarrow> bool \<times> script_keys" where
  "script_allow rate capacity now k = (case luaScript rate capacity now k of (r, k') \<Rightarrow> (r = 1, k'))"

interpretation script: token_limiter "keys_inv rate capacity" "keys_tokens capacity" keys_time capacity
    "rate / 1000" "script_allow rate capacity" for rate capacity
proof unfold_locales
  fix s t ok s'
  assume "keys_inv rate capacity s" "keys_time s \<le> t" "script_allow rate capacity t s = (ok, s')"
  moreover from this have "0 \<le> real_of_int (t - keys_time s) * (rate / 1000)"
    by (intro mult_nonneg_nonneg) (simp_all add: keys_inv_def)
  ultimately show "keys_inv rate capacity s' \<and> keys_time s' = t
      \<and> keys_tokens capacity s' + of_bool ok
        = min capacity (keys_tokens capacity s + real_of_int (t - keys_time s) * (rate / 1000))
      \<and> (ok \<longleftrightarrow> 1 \<le> min capacity (keys_tokens capacity s + real_of_int (t - keys_time s) * (rate / 1000)))"
    by (auto simp: keys_inv_def keys_tokens_def keys_time_def script_allow_def luaScript_def Let_def
        min_def max_def split: if_splits option.splits)
qed (simp add: keys_inv_def)

section \<open>The fallback is the local bucket\<close>

definition rb_local :: "RedisTokenBucket \<Rightarrow> TokenBucket" where
  "rb_local b = \<lparr>tb_rate = rb_localRate b, tb_capacity = rb_localCapacity b,
     tb_tokens = rb_localTokens b, tb_lastRefillTime = rb_localLastRefill b\<rparr>"

lemma localAllow_refines:
  "fst (localAllow now b) = fst (tb_allow now (rb_local b))
   \<and> rb_local (snd (localAllow now b)) = snd (tb_allow now (rb_local b))
   \<and> rb_fallback (snd (localAllow now b)) = rb_fallback b
   \<and> rb_redisCtx (snd (localAllow now b)) = rb_redisCtx b"
  by (simp add: localAllow_def localRefill_def tb_allow_def refill_def rb_local_def Let_def)

definition noscript :: "redis_reply \<Rightarrow> bool" where
  "noscript r = (case r of ErrorReply s \<Rightarrow> sublist (str ''NOSCRIPT'') s | _ \<Rightarrow> False)"

lemma store_sha_conn [simp]: "rb_fallback (store_sha r b) = rb_fallback b" "rb_redisCtx (store_sha r b) = rb_redisCtx b"
  by (simp_all add: store_sha_def split: redis_reply.split)

section \<open>Properties\<close>

text \<open>C34: Whenever its callers come, a bucket admits no more than its capacity plus what the
  rate yields in the time that passes.\<close>

theorem bucket_admission_bound:
  assumes "tb_inv rate capacity b" and "sorted (tb_lastRefillTime b # ts)"
  shows "real (fst (admitted tb_allow ts b))
    \<le> capacity + real_of_int (last (tb_lastRefillTime b # ts) - tb_lastRefillTime b) * (rate / 1000000000)"
  using assms by (rule bucket.admitted_bound)

theorem bucket_admission_bound_witness:
  "real (fst (admitted tb_allow [5, 5, 1000000005] (new_TokenBucket 2 1 5))) \<le> 1 + 1000000000 * (2 / 1000000000)"
  using bucket_admission_bound [of 2 1 "new_TokenBucket 2 1 5" "[5, 5, 1000000005]"]
  by (simp add: tb_inv_def new_TokenBucket_def)

text \<open>The script that the clients of one Redis key share keeps the same bound, in
  milliseconds, as long as the times they pass do not go back.\<close>

theorem script_admission_bound:
  assumes "keys_inv rate capacity k" and "sorted (keys_time k # ts)"
  shows "real (fst (admitted (script_allow rate capacity) ts k))
    \<le> capacity + real_of_int (last (keys_time k # ts) - keys_time k) * (rate / 1000)"
  using assms by (rule script.admitted_bound)

theorem script_admission_bound_witness:
  "real (fst (admitted (script_allow 2 1) [7, 7, 1007] \<lparr>key_tokens = Some 0, key_timestamp = Some 7\<rparr>))
    \<le> 1 + 1000 * (2 / 1000)"
  using script_admission_bound [of 2 1 "\<lparr>key_tokens = Some 0, key_timestamp = Some 7\<rparr>" "[7, 7, 1007]"]
  by (simp add: keys_inv_def keys_tokens_def keys_time_def)

text \<open>A caller that comes once a token's worth of time has passed is let through, if the
  bucket can hold a token at all.\<close>

theorem bucket_no_starvation:
  assumes "tb_inv rate capacity b" and "tb_lastRefillTime b \<le> t" and "1 \<le> capacity"
    and "1 \<le> real_of_int (t - tb_lastRefillTime b) * (rate / 1000000000)"
  shows "fst (tb_allow t b)"
  using assms by (rule bucket.waiting_is_admitted)

theorem bucket_no_starvation_witness:
  "fst (tb_allow 1000000000 \<lparr>tb_rate = 1, tb_capacity = 1, tb_tokens = 0, tb_lastRefillTime = 0\<rparr>)"
  by (rule bucket_no_starvation [of 1 1]) (simp_all add: tb_inv_def)

text \<open>When Redis does not answer, the call is decided by the local bucket at the next
  clock reading and the limiter never asks Redis again: from then on it is the local
  \<open>TokenBucket\<close>.\<close>

theorem redis_fallback_is_local:
  assumes "rb_fallback b \<or> \<not> rb_redisCtx b \<or> reply = NullReply"
  shows "\<exists>t b'. t \<in> {now, now'}
    \<and> rb_allow b ((now, reply, l) # (now', reply', l') # rest) = Some (fst (tb_allow t (rb_local b)), b')
    \<and> rb_local b' = snd (tb_allow t (rb_local b)) \<and> (rb_fallback b' \<or> \<not> rb_redisCtx b')"
proof (cases "rb_fallback b \<or> \<not> rb_redisCtx b")
  case True
  then show ?thesis
    using localAllow_refines [of now b]
    by (intro exI [of _ now] exI [of _ "snd (localAllow now b)"]) (auto simp: prod_eq_iff)
next
  case False
  let ?b = "b\<lparr>rb_fallback := True, rb_redisCtx := False\<rparr>"
  have "rb_local ?b = rb_local b" by (simp add: rb_local_def)
  with False assms show ?thesis
    using localAllow_refines [of now' ?b]
    by (intro exI [of _ now'] exI [of _ "snd (localAllow now' ?b)"]) (auto simp: prod_eq_iff)
qed

theorem redis_fallback_is_local_witness:
  "\<exists>t b'. t \<in> {1, 2} \<and> rb_allow (new_RedisTokenBucket 1 1 0 True (StringReply [97]))
      [(1, NullReply, NullReply), (2, NullReply, NullReply)] = Some (True, b')"
  using redis_fallback_is_local [of "new_RedisTokenBucket 1 1 0 True (StringReply [97])" NullReply 1 2
      NullReply NullReply NullReply "[]"]
  by (auto simp: new_RedisTokenBucket_def connectRedis_def store_sha_def new_TokenBucket_def rb_local_def
      tb_allow_def refill_def Let_def)

text \<open>\<^verbatim>\<open>setRate\<close> keeps the bucket within its possibly smaller capacity, and a negative
  capacity leaves the old one.\<close>

theorem setRate_bounds:
  assumes "tb_inv r c b" and "tb_lastRefillTime b \<le> now" and "0 \<le> rate"
  shows "tb_inv rate (if capacity \<ge> 0 then capacity else c) (tb_setRate now rate capacity b)"
proof -
  have "0 \<le> tb_tokens (refill now b) \<and> tb_tokens (refill now b) \<le> c \<and> tb_capacity (refill now b) = c"
    using assms by (auto simp: tb_inv_def refill_def Let_def)
  with assms show ?thesis
    by (auto simp: tb_inv_def tb_setRate_def Let_def)
qed

theorem setRate_bounds_witness:
  "tb_inv 3 0 (tb_setRate 9 3 0 (new_TokenBucket 2 5 5))"
  using setRate_bounds [of 2 5 "new_TokenBucket 2 5 5" 9 3 0]
  by (simp add: tb_inv_def new_TokenBucket_def)

text \<open>As long as Redis answers \<^verbatim>\<open>NOSCRIPT\<close>, the call recurses, however often the script is
  loaded.\<close>

lemma noscript_recurses:
  "\<not> rb_fallback b \<Longrightarrow> rb_redisCtx b \<Longrightarrow> list_all (\<lambda>(now, reply, l). noscript reply) as \<Longrightarrow> rb_allow b as = None"
proof (induction as arbitrary: b)
  case (Cons a as)
  then show ?case
    by (cases a) (auto simp: noscript_def split: redis_reply.splits)
qed simp

text \<open>The times the script sees are steady clocks, which each process counts from a start of
  its own: two clients whose clocks differ refill the shared bucket at every exchange.\<close>

lemma skewed_clients_exceed_bound:
  "fst (admitted (script_allow 1 1) [100000, 0, 100000, 0, 100000, 0]
     \<lparr>key_tokens = None, key_timestamp = None\<rparr>) = 3"
  by (simp add: script_allow_def luaScript_def Let_def)

end
