(* ===== verification/Interceptor.thy ===== *)
theory Interceptor
  imports CircuitBreaker RateLimiter Protobuf
begin

text \<open>
  The interceptor chain of \<^verbatim>\<open>src/src/interceptor\<close> and the built-in interceptors.  An
  interceptor acts on the request and on a state of the program it belongs to: the virtual
  functions \<^verbatim>\<open>preHandle\<close> and \<^verbatim>\<open>postHandle\<close> are the fields of the record \<open>interceptor\<close>, over
  any type of state.  For the built-in ones the state is \<open>call_env\<close>: the breaker and the
  limiter the client shares, the lines printed, and the readings of clock and thread.
\<close>

section \<open>The chain\<close>

record 's interceptor =
  preHandle :: "RpcRequest \<Rightarrow> 's \<Rightarrow> bool \<times> RpcRequest \<times> 's"
  postHandle :: "RpcResponse \<Rightarrow> 's \<Rightarrow> 's"

text \<open>The defaults of the base class.\<close>

definition default_interceptor :: "'s interceptor" where
  "default_interceptor = \<lparr>preHandle = (\<lambda>req s. (True, req, s)), postHandle = (\<lambda>resp s. s)\<rparr>"

definition addInterceptor :: "'s interceptor \<Rightarrow> 's interceptor list \<Rightarrow> 's interceptor list" where
  "addInterceptor i chain = chain @ [i]"

fun pre_all :: "'s interceptor list \<Rightarrow> RpcRequest \<Rightarrow> 's \<Rightarrow> bool \<times> RpcRequest \<times> 's" where
  "pre_all [] req s = (True, req, s)"
| "pre_all (i # is) req s =
     (case preHandle i req s of
        (True, req, s) \<Rightarrow> pre_all is req s
      | (False, req, s) \<Rightarrow> (False, req, s))"

definition post_all :: "'s interceptor list \<Rightarrow> RpcResponse \<Rightarrow> 's \<Rightarrow> 's" where
  "post_all is resp s = fold (\<lambda>i. postHandle i resp) (rev is) s"

definition execute ::
    "'s interceptor list \<Rightarrow> RpcRequest \<Rightarrow> (RpcRequest \<Rightarrow> 's \<Rightarrow> RpcResponse \<times> 's) \<Rightarrow> 's \<Rightarrow> RpcResponse \<times> 's" where
  "execute is req handler s =
     (case pre_all is req s of
        (False, req, s) \<Rightarrow> (error_response (str ''interceptor blocked''), s)
      | (True, req, s) \<Rightarrow>
        (case handler req s of (resp, s) \<Rightarrow> (resp, post_all is resp s)))"

section \<open>The built-in interceptors\<close>

record call_env =
  ce_breaker :: breaker
  ce_limiter :: TokenBucket
  ce_output :: "bytes list"
  ce_now :: int
  ce_thread :: nat

text \<open>The pointer \<^verbatim>\<open>cb_\<close> or \<^verbatim>\<open>limiter_\<close> may be null: the argument says whether it is set.\<close>

definition CircuitBreakerInterceptor :: "bool \<Rightarrow> call_env interceptor" where
  "CircuitBreakerInterceptor cb = default_interceptor\<lparr>preHandle := (\<lambda>req e.
     if cb then
       (case allowRequest (ce_now e) (ce_breaker e) of (ok, b) \<Rightarrow>
          (ok, req, e\<lparr>ce_breaker := b,
             ce_output := ce_output e
               @ (if ok then [] else [str ''[CBInterceptor] circuit breaker open, request blocked''])\<rparr>))
     else (True, req, e))\<rparr>"

definition RateLimitInterceptor :: "bool \<Rightarrow> call_env interceptor" where
  "RateLimitInterceptor limiter = default_interceptor\<lparr>preHandle := (\<lambda>req e.
     if limiter then
       (case tb_allow (ce_now e) (ce_limiter e) of (ok, b) \<Rightarrow>
          (ok, req, e\<lparr>ce_limiter := b,
             ce_output := ce_output e
               @ (if ok then [] else [str ''[RLInterceptor] rate limit exceeded, request blocked''])\<rparr>))
     else (True, req, e))\<rparr>"

definition trace_key :: bytes where "trace_key = str ''trace-id''"

definition TraceInterceptor :: "call_env interceptor" where
  "TraceInterceptor = default_interceptor\<lparr>preHandle := (\<lambda>req e.
     case map_of (req_metadata req) trace_key of
       Some t \<Rightarrow> (True, req, e)
     | None \<Rightarrow>
       let traceId = to_string (nat (ce_now e)) @ str ''-'' @ to_string (ce_thread e)
       in (True, RpcRequest_set_metadata trace_key traceId req,
           e\<lparr>ce_output := ce_output e @ [str ''[Trace] injected trace-id: '' @ traceId]\<rparr>))\<rparr>"

definition LogInterceptor :: "bytes \<Rightarrow> call_env interceptor" where
  "LogInterceptor clientId = \<lparr>
     preHandle = (\<lambda>req e. (True, req, e\<lparr>ce_output := ce_output e
       @ [str ''[Log] '' @ [0xE2, 0x86, 0x92] @ str '' request'' @ (if clientId = [] then [] else str '' ['' @ clientId @ str '']'')]\<rparr>)),
     postHandle = (\<lambda>resp e. e\<lparr>ce_output := ce_output e
       @ [str ''[Log] '' @ [0xE2, 0x86, 0x90] @ str '' response success='' @ str (if resp_success resp then ''1'' else ''0'')
            @ str '' err='' @ resp_error_msg resp]\<rparr>)\<rparr>"

section \<open>The order of the calls\<close>

text \<open>A chain whose interceptors and handler write what runs into a log.\<close>

datatype chain_event = Pre nat | Handled | Post nat

definition logged :: "nat \<Rightarrow> 's interceptor \<Rightarrow> ('s \<times> chain_event list) interceptor" where
  "logged k i = \<lparr>
     preHandle = (\<lambda>req (s, l). case preHandle i req s of (ok, req, s) \<Rightarrow> (ok, req, s, l @ [Pre k])),
     postHandle = (\<lambda>resp (s, l). (postHandle i resp s, l @ [Post k]))\<rparr>"

definition logged_handler ::
    "(RpcRequest \<Rightarrow> 's \<Rightarrow> RpcResponse \<times> 's) \<Rightarrow> RpcRequest \<Rightarrow> 's \<times> chain_event list \<Rightarrow> RpcResponse \<times> 's \<times> chain_event list" where
  "logged_handler h req sl = (case h req (fst sl) of (resp, s) \<Rightarrow> (resp, s, snd sl @ [Handled]))"

definition logged_chain :: "'s interceptor list \<Rightarrow> ('s \<times> chain_event list) interceptor list" where
  "logged_chain is = map (\<lambda>(k, i). logged k i) (enumerate 0 is)"

text \<open>How many \<^verbatim>\<open>preHandle\<close>s run: all of them, or those up to the first that refuses.\<close>

fun pre_count :: "'s interceptor list \<Rightarrow> RpcRequest \<Rightarrow> 's \<Rightarrow> nat" where
  "pre_count [] req s = 0"
| "pre_count (i # is) req s =
     (case preHandle i req s of
        (True, req, s) \<Rightarrow> Suc (pre_count is req s)
      | (False, req, s) \<Rightarrow> 1)"

lemma pre_count_le: "pre_count is req s \<le> length is"
  by (induction "is" arbitrary: req s) (auto split: prod.split bool.split)

lemma pre_count_all: "fst (pre_all is req s) \<Longrightarrow> pre_count is req s = length is"
  by (induction "is" arbitrary: req s) (auto split: prod.splits bool.splits)

lemma pre_all_logged:
  "pre_all (map (\<lambda>(k, i). logged k i) (enumerate n is)) req (s, l)
   = (case pre_all is req s of (ok, req', s') \<Rightarrow>
        (ok, req', s', l @ map Pre [n..<n + pre_count is req s]))"
proof (induction "is" arbitrary: n req s l)
  case (Cons i "is")
  obtain ok req' s' where r: "preHandle i req s = (ok, req', s')" by (cases "preHandle i req s")
  show ?case
    using Cons [of "Suc n" req' s' "l @ [Pre n]"] r
    by (cases ok) (simp_all add: logged_def upt_conv_Cons split: prod.split)
qed simp

lemma post_all_logged:
  "post_all (map (\<lambda>(k, i). logged k i) (enumerate n is)) resp (s, l)
   = (post_all is resp s, l @ map Post (rev [n..<n + length is]))"
proof (induction "is" arbitrary: n)
  case (Cons i "is")
  then show ?case
    using Cons [of "Suc n"] by (simp add: post_all_def logged_def upt_conv_Cons [of n] del: upt_Suc)
qed (simp add: post_all_def)

definition sample_env :: call_env where
  "sample_env = \<lparr>ce_breaker = new_breaker 5 10, ce_limiter = new_TokenBucket 1 1 0, ce_output = [],
     ce_now = 0, ce_thread = 1\<rparr>"

section \<open>Properties\<close>

text \<open>C39: The chain runs \<^verbatim>\<open>preHandle\<close> in the order the interceptors were added, up to the first
  that refuses; if one does, neither the handler nor any \<^verbatim>\<open>postHandle\<close> runs and the response
  is the error, and otherwise the handler runs once and then every \<^verbatim>\<open>postHandle\<close> in reverse
  order.\<close>

theorem chain_order:
  "execute (logged_chain is) req (logged_handler h) (s, []) =
     (fst (execute is req h s), snd (execute is req h s),
      if fst (pre_all is req s)
      then map Pre [0..<length is] @ [Handled] @ map Post (rev [0..<length is])
      else map Pre [0..<pre_count is req s])
   \<and> (\<not> fst (pre_all is req s) \<longrightarrow>
        fst (execute is req h s) = error_response (str ''interceptor blocked''))"
proof -
  obtain ok req' s' where r: "pre_all is req s = (ok, req', s')" by (cases "pre_all is req s")
  show ?thesis
    using pre_count_all [of "is" req s] pre_all_logged [of 0 "is" req s "[]"] r
    by (cases ok) (auto simp: execute_def logged_chain_def logged_handler_def post_all_logged split: prod.split)
qed

theorem chain_order_witness:
  "execute (logged_chain [LogInterceptor [], RateLimitInterceptor False]) RpcRequest_new
       (logged_handler (\<lambda>req e. (RpcResponse_new, e))) (sample_env, [])
     = (RpcResponse_new, snd (execute [LogInterceptor [], RateLimitInterceptor False] RpcRequest_new
         (\<lambda>req e. (RpcResponse_new, e)) sample_env), [Pre 0, Pre 1, Handled, Post 1, Post 0])"
  using chain_order [of "[LogInterceptor [], RateLimitInterceptor False]" RpcRequest_new
      "\<lambda>req e. (RpcResponse_new, e)" sample_env]
  by (simp add: execute_def LogInterceptor_def RateLimitInterceptor_def default_interceptor_def upt_rec)

text \<open>The trace interceptor leaves every request with a trace id: the one it came with,
  or a new one; it changes nothing else of the request.\<close>

theorem trace_id_injected:
  "\<exists>t req' e'. preHandle TraceInterceptor req e = (True, req', e')
     \<and> map_of (req_metadata req') = (map_of (req_metadata req))(trace_key \<mapsto> t)
     \<and> (\<forall>t'. map_of (req_metadata req) trace_key = Some t' \<longrightarrow> req' = req)
     \<and> req_payload req' = req_payload req"
  by (cases "map_of (req_metadata req) trace_key")
    (auto simp: TraceInterceptor_def default_interceptor_def RpcRequest_set_metadata_def
      map_of_AList_update Let_def fun_upd_idem_iff intro!: exI)

theorem trace_id_injected_witness:
  "\<exists>t req' e'. preHandle TraceInterceptor RpcRequest_new sample_env = (True, req', e')
     \<and> map_of (req_metadata req') = [trace_key \<mapsto> t]"
  using trace_id_injected [of RpcRequest_new sample_env] by (auto simp: RpcRequest_new_def)

end
