(* ===== verification/ConsistentHash.thy ===== *)
theory ConsistentHash
  imports Rpc_Prelude
begin

text \<open>
  The hash ring of \<^verbatim>\<open>src/src/loadbalance\<close>.  \<^verbatim>\<open>ring_\<close> is a \<^verbatim>\<open>std::map\<close>: the list of its
  entries in key order.  \<^verbatim>\<open>nodeHashes_\<close> is an association list.  The hash function is an
  argument, as it is one of the constructor; \<open>defaultHash\<close> is the one the framework uses.
  Every operation holds the mutex, so operations are atomic.

  The ring is specified by its map from points to nodes: the node of a key is the owner of
  the first point clockwise from the key's hash, where clockwise distance is subtraction of
  32-bit words.
\<close>

section \<open>The default hash\<close>

function murmur_loop :: "bytes \<Rightarrow> u32 \<Rightarrow> u32 \<times> bytes" where
  "murmur_loop data h =
     (if length data \<ge> 4 then
        let m = 0x5bd1e995;
            k = le_word (take 4 data);
            k = k * m; k = k XOR drop_bit 24 k; k = k * m;
            h = h * m; h = h XOR k
        in murmur_loop (drop 4 data) h
      else (h, data))"
  by pat_completeness auto
termination by (relation "measure (\<lambda>(data, h). length data)") auto

declare murmur_loop.simps [simp del]

text \<open>A \<^verbatim>\<open>char\<close> is signed: it is sign-extended before it is shifted.\<close>

definition defaultHash :: "bytes \<Rightarrow> u32" where
  "defaultHash key =
     (let m = 0x5bd1e995;
          (h, data) = murmur_loop key (0x9747b28c XOR of_nat (length key));
          h = (if length data = 3 then h XOR push_bit 16 (scast (data ! 2)) else h);
          h = (if length data \<ge> 2 then h XOR push_bit 8 (scast (data ! 1)) else h);
          h = (if length data \<ge> 1 then (h XOR scast (data ! 0)) * m else h);
          h = h XOR drop_bit 13 h; h = h * m
      in h XOR drop_bit 15 h)"

section \<open>State and operations\<close>

record ConsistentHash =
  ch_virtualNodes :: int
  ch_ring :: "(u32 \<times> bytes) list"
  ch_nodeHashes :: "(bytes \<times> u32 list) list"

definition new_ConsistentHash :: "int \<Rightarrow> ConsistentHash" where
  "new_ConsistentHash virtualNodes = \<lparr>ch_virtualNodes = virtualNodes, ch_ring = [], ch_nodeHashes = []\<rparr>"

text \<open>\<^verbatim>\<open>ring_[h] = n\<close> and \<^verbatim>\<open>ring_.erase(h)\<close>\<close>

fun ring_put :: "u32 \<Rightarrow> bytes \<Rightarrow> (u32 \<times> bytes) list \<Rightarrow> (u32 \<times> bytes) list" where
  "ring_put h n [] = [(h, n)]"
| "ring_put h n ((k, v) # r) =
     (if h < k then (h, n) # (k, v) # r else if h = k then (h, n) # r else (k, v) # ring_put h n r)"

definition ring_erase :: "u32 \<Rightarrow> (u32 \<times> bytes) list \<Rightarrow> (u32 \<times> bytes) list" where
  "ring_erase h r = filter (\<lambda>e. fst e \<noteq> h) r"

definition virtualNodeKey :: "bytes \<Rightarrow> nat \<Rightarrow> bytes" where
  "virtualNodeKey node i = node @ str ''#'' @ to_string i"

definition removeNode :: "bytes \<Rightarrow> ConsistentHash \<Rightarrow> ConsistentHash" where
  "removeNode node c =
     (case map_of (ch_nodeHashes c) node of None \<Rightarrow> c
      | Some hashes \<Rightarrow> c\<lparr>ch_ring := fold ring_erase hashes (ch_ring c),
                        ch_nodeHashes := AList.delete node (ch_nodeHashes c)\<rparr>)"

text \<open>The hashes of a node's virtual nodes, in the order they are made.\<close>

definition nodePoints :: "(bytes \<Rightarrow> u32) \<Rightarrow> int \<Rightarrow> bytes \<Rightarrow> u32 list" where
  "nodePoints hashFunc virtualNodes node =
     map (\<lambda>i. hashFunc (virtualNodeKey node i)) [0..<nat virtualNodes]"

text \<open>The flag is false when \<^verbatim>\<open>reserve\<close> throws on a negative count, after the node's old
  points are gone.\<close>

definition addNode :: "(bytes \<Rightarrow> u32) \<Rightarrow> bytes \<Rightarrow> ConsistentHash \<Rightarrow> bool \<times> ConsistentHash" where
  "addNode hashFunc node c =
     (let c = removeNode node c in
      if ch_virtualNodes c < 0 then (False, c)
      else let hashes = nodePoints hashFunc (ch_virtualNodes c) node in
        (True, c\<lparr>ch_ring := fold (\<lambda>h. ring_put h node) hashes (ch_ring c),
                 ch_nodeHashes := AList.update node hashes (ch_nodeHashes c)\<rparr>))"

definition lower_bound :: "u32 \<Rightarrow> (u32 \<times> bytes) list \<Rightarrow> (u32 \<times> bytes) option" where
  "lower_bound h r = List.find (\<lambda>e. h \<le> fst e) r"

definition getNode :: "(bytes \<Rightarrow> u32) \<Rightarrow> bytes \<Rightarrow> ConsistentHash \<Rightarrow> bytes" where
  "getNode hashFunc key c =
     (if ch_ring c = [] then []
      else case lower_bound (hashFunc key) (ch_ring c) of
        None \<Rightarrow> snd (hd (ch_ring c)) | Some e \<Rightarrow> snd e)"

definition ch_size :: "ConsistentHash \<Rightarrow> nat" where
  "ch_size c = length (ch_nodeHashes c)"

section \<open>Rings as maps\<close>

definition points :: "ConsistentHash \<Rightarrow> u32 \<rightharpoonup> bytes" where
  "points c = map_of (ch_ring c)"

definition ring_sorted :: "(u32 \<times> bytes) list \<Rightarrow> bool" where
  "ring_sorted r \<longleftrightarrow> sorted_wrt (<) (map fst r)"

text \<open>The specification of a lookup: the owner of the nearest point clockwise.\<close>

definition owner :: "(u32 \<rightharpoonup> bytes) \<Rightarrow> u32 \<Rightarrow> bytes \<Rightarrow> bool" where
  "owner m x n \<longleftrightarrow> (\<exists>h. m h = Some n \<and> (\<forall>h' \<in> dom m. h - x \<le> h' - x))"

definition ch_inv :: "(bytes \<Rightarrow> u32) \<Rightarrow> ConsistentHash \<Rightarrow> bool" where
  "ch_inv hf c \<longleftrightarrow> ring_sorted (ch_ring c) \<and> distinct (map fst (ch_nodeHashes c))
     \<and> (\<forall>(n, hs) \<in> set (ch_nodeHashes c). hs = nodePoints hf (ch_virtualNodes c) n)
     \<and> (\<forall>(h, n) \<in> set (ch_ring c). n \<in> fst ` set (ch_nodeHashes c)
           \<and> h \<in> set (nodePoints hf (ch_virtualNodes c) n))"

lemma ring_put_keys: "fst ` set (ring_put h n r) = insert h (fst ` set r)"
  by (induction r rule: ring_put.induct) auto

lemma ring_put_sorted: "ring_sorted r \<Longrightarrow> ring_sorted (ring_put h n r)"
proof (induction h n r rule: ring_put.induct)
  case (2 h n k v r)
  then show ?case
    using ring_put_keys [of h n r] by (auto simp: ring_sorted_def dest!: equalityD1)
qed (simp add: ring_sorted_def)

lemma ring_put_map: "ring_sorted r \<Longrightarrow> map_of (ring_put h n r) = (map_of r)(h \<mapsto> n)"
proof (induction h n r rule: ring_put.induct)
  case (2 h n k v r)
  then show ?case
    by (auto simp: ring_sorted_def fun_eq_iff)
qed simp

lemma ring_erase_sorted: "ring_sorted r \<Longrightarrow> ring_sorted (ring_erase h r)"
  by (auto simp: ring_sorted_def ring_erase_def sorted_wrt_map intro: sorted_wrt_filter)

lemma ring_erase_map: "map_of (ring_erase h r) = (map_of r)(h := None)"
proof (induction r)
  case (Cons e r)
  then show ?case by (cases e) (auto simp: ring_erase_def fun_eq_iff)
qed (simp add: ring_erase_def)

lemma fold_ring_put:
  "ring_sorted r \<Longrightarrow> ring_sorted (fold (\<lambda>h. ring_put h n) hs r)
     \<and> map_of (fold (\<lambda>h. ring_put h n) hs r) = (\<lambda>h. if h \<in> set hs then Some n else map_of r h)"
  by (induction hs arbitrary: r) (auto simp: ring_put_sorted ring_put_map fun_eq_iff)

lemma fold_ring_erase:
  "ring_sorted r \<Longrightarrow> ring_sorted (fold ring_erase hs r)
     \<and> map_of (fold ring_erase hs r) = (\<lambda>h. if h \<in> set hs then None else map_of r h)"
  by (induction hs arbitrary: r) (auto simp: ring_erase_sorted ring_erase_map fun_eq_iff)

lemma ring_sorted_distinct: "ring_sorted r \<Longrightarrow> distinct (map fst r)"
  by (auto simp: ring_sorted_def strict_sorted_iff)

lemma ring_entry: "ring_sorted r \<Longrightarrow> (h, n) \<in> set r \<longleftrightarrow> map_of r h = Some n"
  using ring_sorted_distinct [of r] by simp

section \<open>Lookup\<close>

lemma clockwise_near: "x \<le> h \<Longrightarrow> h \<le> h' \<Longrightarrow> h - x \<le> h' - (x :: u32)"
  by (simp add: word_le_nat_alt unat_sub_if')

lemma clockwise_wrap: "h' < x \<Longrightarrow> x \<le> h \<Longrightarrow> h - x \<le> h' - (x :: u32)"
proof -
  assume "h' < x" "x \<le> h"
  moreover have "unat h < 2 ^ 32"
    using unsigned_less [of h] by simp
  ultimately show ?thesis
    by (simp add: word_le_nat_alt word_less_nat_alt unat_sub_if')
qed

lemma clockwise_below: "h < x \<Longrightarrow> h' < x \<Longrightarrow> h \<le> h' \<Longrightarrow> h - x \<le> h' - (x :: u32)"
  by (simp add: word_le_nat_alt word_less_nat_alt unat_sub_if')

lemma owner_unique: "owner m x n \<Longrightarrow> owner m x n' \<Longrightarrow> n = n'"
proof -
  assume "owner m x n" "owner m x n'"
  then obtain h h' where h: "m h = Some n" "m h' = Some n'" "h - x \<le> h' - x" "h' - x \<le> h - x"
    unfolding owner_def by blast
  then have "h - x = h' - x" by (rule_tac antisym)
  then have "h = h'" by simp
  with h show ?thesis by simp
qed

lemma find_sorted_least:
  assumes "ring_sorted r" and "List.find (\<lambda>e. x \<le> fst e) r = Some e"
  shows "e \<in> set r \<and> x \<le> fst e \<and> (\<forall>e' \<in> set r. x \<le> fst e' \<longrightarrow> fst e \<le> fst e')"
  using assms
  by (induction r) (auto simp: ring_sorted_def split: if_splits intro: less_imp_le)

lemma getNode_owner:
  assumes "ring_sorted (ch_ring c)" and "ch_ring c \<noteq> []"
  shows "owner (points c) (hf key) (getNode hf key c)"
proof (cases "lower_bound (hf key) (ch_ring c)")
  case None
  let ?e = "hd (ch_ring c)"
  have below: "\<forall>e \<in> set (ch_ring c). fst e < hf key"
    using None by (auto simp: lower_bound_def find_None_iff not_le)
  have e: "points c (fst ?e) = Some (snd ?e)"
    unfolding points_def using assms ring_entry [of "ch_ring c" "fst ?e" "snd ?e"] by simp
  have "fst ?e \<le> fst e'" if "e' \<in> set (ch_ring c)" for e'
    using that assms by (cases "ch_ring c") (auto simp: ring_sorted_def intro: less_imp_le)
  then have "fst ?e - hf key \<le> h' - hf key" if "h' \<in> dom (points c)" for h'
    using that below assms(2) unfolding points_def dom_map_of_conv_image_fst
    by (auto intro!: clockwise_below)
  with e None assms(2) show ?thesis
    unfolding owner_def getNode_def by auto
next
  case (Some e)
  have e: "e \<in> set (ch_ring c)" "hf key \<le> fst e"
      "\<forall>e' \<in> set (ch_ring c). hf key \<le> fst e' \<longrightarrow> fst e \<le> fst e'"
    using find_sorted_least [OF assms(1) Some [unfolded lower_bound_def]] by auto
  have "fst e - hf key \<le> h' - hf key" if "h' \<in> dom (points c)" for h'
  proof (cases "hf key \<le> h'")
    case True
    then have "fst e \<le> h'" using that e by (auto simp: points_def dest!: map_of_SomeD)
    with e(2) show ?thesis by (rule clockwise_near)
  next
    case False
    then show ?thesis using e(2) by (intro clockwise_wrap) simp_all
  qed
  moreover have "points c (fst e) = Some (snd e)"
    unfolding points_def using e(1) assms ring_entry [of "ch_ring c" "fst e" "snd e"] by simp
  ultimately show ?thesis
    using Some assms(2) unfolding owner_def getNode_def by auto
qed

section \<open>The operations on the map of points\<close>

definition nodes :: "ConsistentHash \<Rightarrow> bytes set" where
  "nodes c = dom (map_of (ch_nodeHashes c))"

abbreviation pts :: "(bytes \<Rightarrow> u32) \<Rightarrow> ConsistentHash \<Rightarrow> bytes \<Rightarrow> u32 set" where
  "pts hf c n \<equiv> set (nodePoints hf (ch_virtualNodes c) n)"

lemma conj_tail_cong: "(b \<Longrightarrow> x = x') \<Longrightarrow> (a \<Longrightarrow> y = y') \<Longrightarrow> (a \<and> b \<and> x \<and> y) = (a \<and> b \<and> x' \<and> y')"
  by blast

text \<open>The invariant over maps.\<close>

lemma ch_inv_maps:
  "ch_inv hf c \<longleftrightarrow> ring_sorted (ch_ring c) \<and> distinct (map fst (ch_nodeHashes c))
     \<and> (\<forall>n hs. map_of (ch_nodeHashes c) n = Some hs \<longrightarrow> hs = nodePoints hf (ch_virtualNodes c) n)
     \<and> (\<forall>h n. points c h = Some n \<longrightarrow> n \<in> nodes c \<and> h \<in> pts hf c n)"
proof -
  have "(\<forall>(n, hs) \<in> set (ch_nodeHashes c). hs = nodePoints hf (ch_virtualNodes c) n) \<longleftrightarrow>
      (\<forall>n hs. map_of (ch_nodeHashes c) n = Some hs \<longrightarrow> hs = nodePoints hf (ch_virtualNodes c) n)"
    if "distinct (map fst (ch_nodeHashes c))"
    using map_of_eq_Some_iff [OF that] by auto
  moreover have "(\<forall>(h, n) \<in> set (ch_ring c). n \<in> fst ` set (ch_nodeHashes c) \<and> h \<in> pts hf c n) \<longleftrightarrow>
      (\<forall>h n. points c h = Some n \<longrightarrow> n \<in> nodes c \<and> h \<in> pts hf c n)" if "ring_sorted (ch_ring c)"
    using map_of_eq_Some_iff [OF ring_sorted_distinct [OF that]]
    by (auto simp: points_def nodes_def dom_map_of_conv_image_fst)
  ultimately show ?thesis unfolding ch_inv_def by (rule conj_tail_cong)
qed

lemma ch_inv_new: "ch_inv hf (new_ConsistentHash v)"
  by (simp add: ch_inv_def new_ConsistentHash_def ring_sorted_def)

lemma removeNode_spec:
  assumes inv: "ch_inv hf c"
  shows "ring_sorted (ch_ring (removeNode n c))"
    and "points (removeNode n c) = (if n \<in> nodes c then (points c) |` (- pts hf c n) else points c)"
    and "map_of (ch_nodeHashes (removeNode n c)) = (map_of (ch_nodeHashes c))(n := None)"
    and "distinct (map fst (ch_nodeHashes (removeNode n c)))"
    and "ch_virtualNodes (removeNode n c) = ch_virtualNodes c"
proof -
  have sorted: "ring_sorted (ch_ring c)" and dist: "distinct (map fst (ch_nodeHashes c))"
    using inv by (simp_all add: ch_inv_maps)
  have pts: "map_of (ch_nodeHashes c) n = Some hs \<Longrightarrow> hs = nodePoints hf (ch_virtualNodes c) n" for hs
    using inv by (simp add: ch_inv_maps)
  have erase: "ring_sorted (fold ring_erase hs (ch_ring c))"
      "map_of (fold ring_erase hs (ch_ring c)) = (points c) |` (- set hs)" for hs
    using fold_ring_erase [OF sorted] by (simp_all add: points_def restrict_map_def fun_eq_iff)
  show "ring_sorted (ch_ring (removeNode n c))"
    and "points (removeNode n c) = (if n \<in> nodes c then (points c) |` (- pts hf c n) else points c)"
    and "map_of (ch_nodeHashes (removeNode n c)) = (map_of (ch_nodeHashes c))(n := None)"
    and "distinct (map fst (ch_nodeHashes (removeNode n c)))"
    and "ch_virtualNodes (removeNode n c) = ch_virtualNodes c"
    using sorted dist erase pts
    by (auto simp: removeNode_def points_def nodes_def delete_conv' distinct_delete fun_upd_idem
        split: option.split)
qed

lemma addNode_spec:
  fixes n :: bytes
  assumes inv: "ch_inv hf c" and v: "0 \<le> ch_virtualNodes c"
  defines "c' \<equiv> snd (addNode hf n c)"
  shows "ring_sorted (ch_ring c')"
    and "points c' = (\<lambda>h. if h \<in> pts hf c n then Some n else points c h)"
    and "map_of (ch_nodeHashes c') = (map_of (ch_nodeHashes c))(n \<mapsto> nodePoints hf (ch_virtualNodes c) n)"
    and "distinct (map fst (ch_nodeHashes c'))"
    and "ch_virtualNodes c' = ch_virtualNodes c" and "fst (addNode hf n c)"
proof -
  note r = removeNode_spec [OF inv, of n]
  have put: "ring_sorted (fold (\<lambda>h. ring_put h n) hs (ch_ring (removeNode n c)))"
      "map_of (fold (\<lambda>h. ring_put h n) hs (ch_ring (removeNode n c)))
        = (\<lambda>h. if h \<in> set hs then Some n else points (removeNode n c) h)" for hs
    using fold_ring_put [OF r(1), of n hs] unfolding points_def by simp_all
  have "points c h \<noteq> Some n" if "n \<notin> nodes c" for h
    using that inv by (auto simp: ch_inv_maps)
  then show "points c' = (\<lambda>h. if h \<in> pts hf c n then Some n else points c h)"
    using v r put by (auto simp: c'_def addNode_def Let_def points_def restrict_map_def fun_eq_iff)
  show "ring_sorted (ch_ring c')" "distinct (map fst (ch_nodeHashes c'))"
      "map_of (ch_nodeHashes c') = (map_of (ch_nodeHashes c))(n \<mapsto> nodePoints hf (ch_virtualNodes c) n)"
      "ch_virtualNodes c' = ch_virtualNodes c" "fst (addNode hf n c)"
    using v r put by (simp_all add: c'_def addNode_def Let_def map_of_AList_update distinct_update)
qed

lemma removeNode_inv:
  assumes inv: "ch_inv hf c"
  shows "ch_inv hf (removeNode n c)" and "nodes (removeNode n c) = nodes c - {n}"
proof -
  note r = removeNode_spec [OF inv, of n]
  show nodes: "nodes (removeNode n c) = nodes c - {n}"
    by (simp add: nodes_def r(3))
  have "points (removeNode n c) h = Some m \<Longrightarrow> m \<in> nodes c \<and> m \<noteq> n \<and> h \<in> pts hf c m" for h m
    using inv by (auto simp: r(2) ch_inv_maps restrict_map_def split: if_splits)
  moreover have "map_of (ch_nodeHashes (removeNode n c)) m = Some hs \<Longrightarrow>
      hs = nodePoints hf (ch_virtualNodes c) m" for m hs
    using inv by (simp add: r(3) ch_inv_maps split: if_splits)
  ultimately show "ch_inv hf (removeNode n c)"
    using r(1,4) unfolding ch_inv_maps r(5) nodes by blast
qed

lemma addNode_inv:
  assumes inv: "ch_inv hf c" and v: "0 \<le> ch_virtualNodes c"
  shows "ch_inv hf (snd (addNode hf n c))" and "nodes (snd (addNode hf n c)) = insert n (nodes c)"
proof -
  note a = addNode_spec [OF inv v, of n]
  show nodes: "nodes (snd (addNode hf n c)) = insert n (nodes c)"
    by (auto simp: nodes_def a(3))
  have "points (snd (addNode hf n c)) h = Some m \<Longrightarrow> m \<in> insert n (nodes c) \<and> h \<in> pts hf c m" for h m
    using inv by (auto simp: a(2) ch_inv_maps split: if_splits)
  moreover have "map_of (ch_nodeHashes (snd (addNode hf n c))) m = Some hs \<Longrightarrow>
      hs = nodePoints hf (ch_virtualNodes c) m" for m hs
    using inv by (auto simp: a(3) ch_inv_maps split: if_splits)
  ultimately show "ch_inv hf (snd (addNode hf n c))"
    using a(1,4) unfolding ch_inv_maps a(5) nodes by blast
qed

lemma ring_empty_iff: "ch_ring c = [] \<longleftrightarrow> points c = Map.empty"
  by (simp add: points_def)

lemma getNode_in_nodes: "ch_inv hf c \<Longrightarrow> ch_ring c \<noteq> [] \<Longrightarrow> getNode hf key c \<in> nodes c"
  using getNode_owner [of c hf key] by (auto simp: ch_inv_maps owner_def)

lemma getNode_addNode:
  assumes "ch_inv hf c" and "0 \<le> ch_virtualNodes c" and "ch_ring c \<noteq> []"
  shows "getNode hf key (snd (addNode hf n c)) \<in> {n, getNode hf key c}"
proof -
  let ?c = "snd (addNode hf n c)" and ?x = "hf key"
  note a = addNode_spec [OF assms(1,2), of n]
  have "ch_ring ?c \<noteq> []"
    using assms(3) by (auto simp: ring_empty_iff a(2) fun_eq_iff split: if_splits)
  then obtain h where h: "points ?c h = Some (getNode hf key ?c)"
      "\<forall>h' \<in> dom (points ?c). h - ?x \<le> h' - ?x"
    using getNode_owner [OF a(1)] unfolding owner_def by blast
  show ?thesis
  proof (cases "h \<in> pts hf c n")
    case False
    then have "owner (points c) ?x (getNode hf key ?c)"
      using h unfolding owner_def by (intro exI [of _ h]) (auto simp: a(2) dom_def)
    then show ?thesis
      using owner_unique [OF _ getNode_owner, of c hf key] assms by (auto simp: ch_inv_maps)
  qed (use h a in auto)
qed

lemma getNode_removeNode:
  assumes inv: "ch_inv hf c" and own: "\<forall>h \<in> pts hf c n. points c h = Some n"
    and "getNode hf key c \<noteq> n"
  shows "getNode hf key (removeNode n c) = getNode hf key c"
proof (cases "ch_ring c = []")
  case True
  then have "ch_ring (removeNode n c) = []"
    using removeNode_spec(2) [OF inv, of n] by (auto simp: ring_empty_iff)
  with True show ?thesis by (simp add: getNode_def)
next
  case False
  let ?c = "removeNode n c" and ?x = "hf key"
  note r = removeNode_spec [OF inv, of n]
  obtain h where h: "points c h = Some (getNode hf key c)" "\<forall>h' \<in> dom (points c). h - ?x \<le> h' - ?x"
    using getNode_owner [of c] inv False unfolding owner_def ch_inv_maps by blast
  have "h \<notin> pts hf c n" using h(1) own assms(3) by auto
  then have h': "points ?c h = Some (getNode hf key c)"
    using h(1) by (simp add: r(2))
  then have "owner (points ?c) ?x (getNode hf key c)"
    using h(2) unfolding owner_def by (intro exI [of _ h]) (auto simp: r(2) restrict_map_def split: if_splits)
  moreover have "ch_ring ?c \<noteq> []" using h' by (auto simp: ring_empty_iff)
  ultimately show ?thesis
    using owner_unique [OF getNode_owner [OF r(1)]] by blast
qed

section \<open>The contract of a balancer\<close>

text \<open>What the client relies on when it routes by hash.\<close>

locale balancer =
  fixes invar :: "'s \<Rightarrow> bool" and members :: "'s \<Rightarrow> bytes set" and add :: "bytes \<Rightarrow> 's \<Rightarrow> 's"
    and pick :: "bytes \<Rightarrow> 's \<Rightarrow> bytes"
  assumes invar_add: "invar s \<Longrightarrow> invar (add n s)"
    and members_add: "invar s \<Longrightarrow> members (add n s) = insert n (members s)"
    and pick_member: "invar s \<Longrightarrow> members s \<noteq> {} \<Longrightarrow> pick k s \<in> members s"
    and pick_add: "invar s \<Longrightarrow> members s \<noteq> {} \<Longrightarrow> pick k (add n s) \<in> {n, pick k s}"
begin

lemma fold_add: "invar s \<Longrightarrow> invar (fold add ns s) \<and> members (fold add ns s) = set ns \<union> members s"
  by (induction ns arbitrary: s) (auto simp: invar_add members_add)

lemma pick_fold: "invar s \<Longrightarrow> ns \<noteq> [] \<Longrightarrow> members s = {} \<Longrightarrow> pick k (fold add ns s) \<in> set ns"
  using pick_member [of "fold add ns s" k] fold_add [of s ns] by auto

text \<open>Growing the membership moves a key only to a node that was added.\<close>

lemma pick_fold_stable:
  "invar s \<Longrightarrow> members s \<noteq> {} \<Longrightarrow> pick k (fold add ns s) \<in> insert (pick k s) (set ns)"
proof (induction ns arbitrary: s)
  case (Cons n ns)
  then show ?case
    using pick_add [of s k n] Cons.IH [OF invar_add [of s n]] by (auto simp: members_add)
qed simp

end

definition ring_ready :: "(bytes \<Rightarrow> u32) \<Rightarrow> ConsistentHash \<Rightarrow> bool" where
  "ring_ready hf c \<longleftrightarrow> ch_inv hf c \<and> 0 < ch_virtualNodes c \<and> (nodes c \<noteq> {} \<longrightarrow> ch_ring c \<noteq> [])"

lemma nodePoints_nonempty: "0 < v \<Longrightarrow> nodePoints hf v n \<noteq> []"
  by (simp add: nodePoints_def)

interpretation ring_lb: balancer "ring_ready hf" nodes "\<lambda>n c. snd (addNode hf n c)" "getNode hf" for hf
proof unfold_locales
  fix s n k
  assume r: "ring_ready hf s"
  obtain h where "h \<in> pts hf s n"
    using r nodePoints_nonempty [of "ch_virtualNodes s" hf n]
    by (metis last_in_set ring_ready_def)
  then have "points (snd (addNode hf n s)) h = Some n"
    using r addNode_spec(2) [of hf s n] by (simp add: ring_ready_def)
  then have "points (snd (addNode hf n s)) \<noteq> Map.empty" by auto
  then show "ring_ready hf (snd (addNode hf n s))"
    using r addNode_inv [of hf s n] addNode_spec(5) [of hf s n] by (simp add: ring_ready_def ring_empty_iff)
  show "nodes (snd (addNode hf n s)) = insert n (nodes s)"
    using r addNode_inv [of hf s n] by (simp add: ring_ready_def)
  show "nodes s \<noteq> {} \<Longrightarrow> getNode hf k s \<in> nodes s"
    using r getNode_in_nodes by (simp add: ring_ready_def)
  show "nodes s \<noteq> {} \<Longrightarrow> getNode hf k (snd (addNode hf n s)) \<in> {n, getNode hf k s}"
    using r getNode_addNode [of hf s k n] by (simp add: ring_ready_def)
qed

section \<open>Properties\<close>

text \<open>C35: A lookup returns the owner of the first point at or clockwise after the key's hash,
  wrapping around the 32-bit ring.\<close>

theorem getNode_is_successor:
  assumes "ch_inv hf c" and "ch_ring c \<noteq> []"
  shows "\<exists>h. points c h = Some (getNode hf key c)
    \<and> (\<forall>h' \<in> dom (points c). h - hf key \<le> h' - hf key)"
  using getNode_owner [of c hf key] assms unfolding owner_def ch_inv_maps by blast

text \<open>C36: Adding a node moves a key only to that node: every key keeps its node or goes to
  the new one, however the hashes collide.\<close>

theorem addNode_moves_only_to_new:
  assumes "ch_inv hf c" and "0 \<le> ch_virtualNodes c" and "ch_ring c \<noteq> []"
  shows "fst (addNode hf n c) \<and> ch_inv hf (snd (addNode hf n c))
    \<and> getNode hf key (snd (addNode hf n c)) \<in> {n, getNode hf key c}"
  using assms addNode_spec(6) addNode_inv(1) getNode_addNode by blast

text \<open>Removing a node that owns all its points leaves every key of another node where it
  is.\<close>

theorem removeNode_keeps_others:
  assumes "ch_inv hf c" and "\<forall>h \<in> set (nodePoints hf (ch_virtualNodes c) n). points c h = Some n"
    and "getNode hf key c \<noteq> n"
  shows "ch_inv hf (removeNode n c) \<and> n \<notin> nodes (removeNode n c)
    \<and> getNode hf key (removeNode n c) = getNode hf key c"
  using assms removeNode_inv getNode_removeNode by auto

text \<open>A small ring to evaluate on: the hash is the first byte of the key, scaled.\<close>

definition byte_hash :: "bytes \<Rightarrow> u32" where
  "byte_hash k = (case k of [] \<Rightarrow> 0 | b # bs \<Rightarrow> push_bit 8 (ucast b) + of_nat (length bs))"

definition two_node_ring :: ConsistentHash where
  "two_node_ring = \<lparr>ch_virtualNodes = 1, ch_ring = [(2562, [10]), (5122, [20])],
     ch_nodeHashes = [([10], [2562]), ([20], [5122])]\<rparr>"

lemma nodePoints_byte_hash: "nodePoints byte_hash 1 [b] = [push_bit 8 (ucast b) + 2]"
  by (simp add: nodePoints_def byte_hash_def virtualNodeKey_def str_def to_string.simps)

lemma two_node_ring_inv: "ch_inv byte_hash two_node_ring"
  by (simp add: ch_inv_def two_node_ring_def ring_sorted_def nodePoints_byte_hash)

lemma two_node_ring_lookup: "getNode byte_hash [30] two_node_ring = [10]"
  by (simp add: getNode_def two_node_ring_def lower_bound_def byte_hash_def)

theorem getNode_is_successor_witness:
  "getNode byte_hash [30] two_node_ring = [10]
   \<and> (\<exists>h. points two_node_ring h = Some (getNode byte_hash [30] two_node_ring))"
  using getNode_is_successor [OF two_node_ring_inv, of "[30]"] two_node_ring_lookup
  by (auto simp: two_node_ring_def)

theorem addNode_moves_only_to_new_witness:
  "getNode byte_hash [30] (snd (addNode byte_hash [40] two_node_ring)) \<in> {[40], [10]}"
  using addNode_moves_only_to_new [OF two_node_ring_inv, of "[40]" "[30]"] two_node_ring_lookup
  by (simp add: two_node_ring_def)

theorem removeNode_keeps_others_witness:
  "getNode byte_hash [30] (removeNode [20] two_node_ring) = [10]"
proof -
  have "\<forall>h \<in> set (nodePoints byte_hash (ch_virtualNodes two_node_ring) [20]). points two_node_ring h = Some [20]"
    by (simp add: two_node_ring_def nodePoints_byte_hash points_def)
  then show ?thesis
    using removeNode_keeps_others [OF two_node_ring_inv, of "[20]" "[30]"] two_node_ring_lookup by simp
qed

text \<open>When the points of two nodes collide, removing one takes the other off the ring: it is
  still counted, and no key reaches it.\<close>

lemma collision_loses_node:
  "let c = snd (addNode (\<lambda>_. 7) [2] (snd (addNode (\<lambda>_. 7) [1] (new_ConsistentHash 1))))
   in ch_size (removeNode [1] c) = 1 \<and> getNode (\<lambda>_. 7) k (removeNode [1] c) = []"
  by (simp add: addNode_def removeNode_def new_ConsistentHash_def nodePoints_def ring_erase_def
      getNode_def ch_size_def Let_def)

end
