(* ===== verification/Registry.thy ===== *)
theory Registry
  imports Rpc_Prelude
begin

text \<open>
  Service discovery, \<^verbatim>\<open>src/src/discovery\<close>: the interface \<open>ServiceRegistry\<close> as the locale
  \<open>service_registry\<close>, and the in-memory registry that implements it.  The \<^verbatim>\<open>unordered_map\<close>s
  are association lists in iteration order.  Each operation that may call the change
  callback returns the calls it makes.  Clock readings are arguments: seconds of the steady
  clock as the 64-bit numbers the nodes store.
\<close>

section \<open>The in-memory registry\<close>

record RegistryNode =
  rn_serviceName :: bytes
  rn_nodeId :: bytes
  rn_host :: bytes
  rn_port :: u16
  rn_registerTime :: u64
  rn_lastHeartbeat :: u64

type_synonym node_map = "(bytes \<times> RegistryNode) list"
type_synonym change = "bytes \<times> RegistryNode list"

record MemoryRegistry =
  mr_services :: "(bytes \<times> node_map) list"
  mr_changeCallback :: bool

definition new_MemoryRegistry :: MemoryRegistry where
  "new_MemoryRegistry = \<lparr>mr_services = [], mr_changeCallback = False\<rparr>"

definition setServiceChangeCallback :: "bool \<Rightarrow> MemoryRegistry \<Rightarrow> MemoryRegistry" where
  "setServiceChangeCallback cb r = r\<lparr>mr_changeCallback := cb\<rparr>"

text \<open>The entry of a service, \<^verbatim>\<open>services_[name]\<close>: empty if there is none.\<close>

definition node_map_of :: "bytes \<Rightarrow> MemoryRegistry \<Rightarrow> node_map" where
  "node_map_of svc r = (case map_of (mr_services r) svc of None \<Rightarrow> [] | Some m \<Rightarrow> m)"

definition stored_node :: "u64 \<Rightarrow> RegistryNode \<Rightarrow> RegistryNode" where
  "stored_node nowTs node =
     (let s = (if rn_registerTime node = 0 then node\<lparr>rn_registerTime := nowTs\<rparr> else node)
      in s\<lparr>rn_lastHeartbeat := nowTs\<rparr>)"

definition registerService ::
    "u64 \<Rightarrow> RegistryNode \<Rightarrow> MemoryRegistry \<Rightarrow> bool \<times> MemoryRegistry \<times> change list" where
  "registerService nowTs node r =
     (let nodeMap = AList.update (rn_nodeId node) (stored_node nowTs node)
            (node_map_of (rn_serviceName node) r);
          r' = r\<lparr>mr_services := AList.update (rn_serviceName node) nodeMap (mr_services r)\<rparr>
      in (True, r', if mr_changeCallback r then [(rn_serviceName node, map snd nodeMap)] else []))"

definition deregisterService ::
    "bytes \<Rightarrow> bytes \<Rightarrow> MemoryRegistry \<Rightarrow> bool \<times> MemoryRegistry \<times> change list" where
  "deregisterService serviceName nodeId r =
     (case map_of (mr_services r) serviceName of None \<Rightarrow> (False, r, [])
      | Some nodeMap \<Rightarrow>
        (case map_of nodeMap nodeId of None \<Rightarrow> (False, r, [])
         | Some node \<Rightarrow>
           let nodeMap = AList.delete nodeId nodeMap;
               services = (if nodeMap = [] then AList.delete serviceName (mr_services r)
                           else AList.update serviceName nodeMap (mr_services r))
           in (True, r\<lparr>mr_services := services\<rparr>,
               if mr_changeCallback r then [(serviceName, map snd nodeMap)] else [])))"

definition discover :: "bytes \<Rightarrow> MemoryRegistry \<Rightarrow> RegistryNode list" where
  "discover serviceName r =
     (case map_of (mr_services r) serviceName of None \<Rightarrow> [] | Some nodeMap \<Rightarrow> map snd nodeMap)"

definition registry_heartbeat :: "u64 \<Rightarrow> bytes \<Rightarrow> bytes \<Rightarrow> MemoryRegistry \<Rightarrow> bool \<times> MemoryRegistry" where
  "registry_heartbeat now serviceName nodeId r =
     (case map_of (mr_services r) serviceName of None \<Rightarrow> (False, r)
      | Some nodeMap \<Rightarrow>
        (case map_of nodeMap nodeId of None \<Rightarrow> (False, r)
         | Some node \<Rightarrow>
           (True, r\<lparr>mr_services := AList.update serviceName
              (AList.update nodeId (node\<lparr>rn_lastHeartbeat := now\<rparr>) nodeMap) (mr_services r)\<rparr>)))"

text \<open>
  \<^verbatim>\<open>now - lastHeartbeat > timeoutSeconds\<close> mixes signed and unsigned operands: both sides are
  64-bit unsigned, and a negative timeout becomes a huge one.
\<close>

definition expired :: "u64 \<Rightarrow> int \<Rightarrow> RegistryNode \<Rightarrow> bool" where
  "expired now timeoutSeconds node \<longleftrightarrow> now - rn_lastHeartbeat node > word_of_int timeoutSeconds"

definition live_nodes :: "u64 \<Rightarrow> int \<Rightarrow> node_map \<Rightarrow> node_map" where
  "live_nodes now timeoutSeconds m = filter (\<lambda>(k, n). \<not> expired now timeoutSeconds n) m"

fun cleanup_loop ::
    "u64 \<Rightarrow> int \<Rightarrow> bool \<Rightarrow> (bytes \<times> node_map) list \<Rightarrow> (bytes \<times> node_map) list \<times> change list" where
  "cleanup_loop now timeoutSeconds cb [] = ([], [])"
| "cleanup_loop now timeoutSeconds cb ((svc, nodeMap) # rest) =
     (let nodeMap = live_nodes now timeoutSeconds nodeMap;
          note = (if cb then [(svc, map snd nodeMap)] else []);
          (kept, notes) = cleanup_loop now timeoutSeconds cb rest
      in (if nodeMap = [] then kept else (svc, nodeMap) # kept, note @ notes))"

definition cleanupExpiredNodes :: "u64 \<Rightarrow> int \<Rightarrow> MemoryRegistry \<Rightarrow> MemoryRegistry \<times> change list" where
  "cleanupExpiredNodes now timeoutSeconds r =
     (case cleanup_loop now timeoutSeconds (mr_changeCallback r) (mr_services r) of
        (services, notifications) \<Rightarrow> (r\<lparr>mr_services := services\<rparr>, notifications))"

section \<open>The contract\<close>

text \<open>What \<open>ServiceRegistry\<close> promises of the nodes a lookup finds.  \<open>named\<close> restricts the
  names a registry can hold apart.\<close>

locale service_registry =
  fixes invar :: "'s \<Rightarrow> bool"
    and named :: "bytes \<Rightarrow> bytes \<Rightarrow> bool"
    and fits :: "RegistryNode \<Rightarrow> bool"
    and register :: "RegistryNode \<Rightarrow> 's \<Rightarrow> 's"
    and deregister :: "bytes \<Rightarrow> bytes \<Rightarrow> 's \<Rightarrow> 's"
    and lookup :: "bytes \<Rightarrow> 's \<Rightarrow> RegistryNode list"
    and kept :: "RegistryNode \<Rightarrow> RegistryNode"
  assumes fits_named: "fits n \<Longrightarrow> named (rn_serviceName n) (rn_nodeId n)"
    and invar_register: "invar s \<Longrightarrow> fits n \<Longrightarrow> invar (register n s)"
    and invar_deregister: "invar s \<Longrightarrow> named svc i \<Longrightarrow> invar (deregister svc i s)"
    and kept_names: "rn_serviceName (kept n) = rn_serviceName n" "rn_nodeId (kept n) = rn_nodeId n"
    and lookup_names: "invar s \<Longrightarrow> named svc i \<Longrightarrow> n \<in> set (lookup svc s) \<Longrightarrow> rn_serviceName n = svc"
    and lookup_register: "invar s \<Longrightarrow> fits n \<Longrightarrow> named svc i \<Longrightarrow>
      set (lookup svc (register n s)) = (if svc = rn_serviceName n
        then insert (kept n) {m \<in> set (lookup svc s). rn_nodeId m \<noteq> rn_nodeId n} else set (lookup svc s))"
    and lookup_deregister: "invar s \<Longrightarrow> named svc i \<Longrightarrow> named svc' i' \<Longrightarrow>
      set (lookup svc' (deregister svc i s)) = (if svc' = svc
        then {m \<in> set (lookup svc s). rn_nodeId m \<noteq> i} else set (lookup svc' s))"
begin

lemma register_then_lookup:
  "invar s \<Longrightarrow> fits n \<Longrightarrow> kept n \<in> set (lookup (rn_serviceName n) (register n s))"
  by (simp add: lookup_register [of s n _ "rn_nodeId n"] fits_named)

lemma register_deregister:
  assumes "invar s" and "fits n" and "named svc i"
    and "\<forall>m \<in> set (lookup (rn_serviceName n) s). rn_nodeId m \<noteq> rn_nodeId n"
  shows "set (lookup svc (deregister (rn_serviceName n) (rn_nodeId n) (register n s))) = set (lookup svc s)"
  using assms
  by (auto simp: lookup_deregister [of _ _ _ svc i] invar_register lookup_register [of _ _ svc i]
      lookup_register [of _ _ _ "rn_nodeId n"] kept_names fits_named)

lemma register_twice:
  assumes "invar s" and "fits n" and "fits n'" and "named svc i"
    and "rn_serviceName n' = rn_serviceName n" and "rn_nodeId n' = rn_nodeId n"
  shows "set (lookup svc (register n' (register n s))) = set (lookup svc (register n' s))"
  using assms
  by (cases "svc = rn_serviceName n")
    (auto simp: lookup_register [of _ _ _ i] invar_register kept_names fits_named)

end

section \<open>The in-memory registry keeps it\<close>

definition mr_inv :: "MemoryRegistry \<Rightarrow> bool" where
  "mr_inv r \<longleftrightarrow> distinct (map fst (mr_services r))
     \<and> (\<forall>(svc, m) \<in> set (mr_services r). distinct (map fst m)
          \<and> (\<forall>(i, n) \<in> set m. rn_serviceName n = svc \<and> rn_nodeId n = i))"

lemma mr_inv_new: "mr_inv new_MemoryRegistry"
  by (simp add: mr_inv_def new_MemoryRegistry_def)

lemma stored_node_names [simp]:
  "rn_serviceName (stored_node t n) = rn_serviceName n" "rn_nodeId (stored_node t n) = rn_nodeId n"
  "rn_lastHeartbeat (stored_node t n) = t"
  by (simp_all add: stored_node_def Let_def)

lemma set_update_distinct:
  "distinct (map fst al) \<Longrightarrow> set (AList.update k v al) = insert (k, v) {e \<in> set al. fst e \<noteq> k}"
  by (induction al) (auto simp: image_iff)

lemma set_AList_delete: "set (AList.delete k al) = {e \<in> set al. fst e \<noteq> k}"
  by (auto simp: AList.delete_eq)

lemma node_map_of_inv:
  assumes "mr_inv r"
  shows "distinct (map fst (node_map_of svc r))"
    and "(i, n) \<in> set (node_map_of svc r) \<Longrightarrow> rn_serviceName n = svc \<and> rn_nodeId n = i"
  using assms by (auto simp: node_map_of_def mr_inv_def split: option.splits dest!: map_of_SomeD)

lemma discover_node_map: "discover svc r = map snd (node_map_of svc r)"
  by (simp add: discover_def node_map_of_def split: option.split)

text \<open>Every operation replaces the nodes of one service; what that does to the invariant and
  to the other services.\<close>

lemma node_map_of_update:
  "node_map_of svc (r\<lparr>mr_services := AList.update k m (mr_services r)\<rparr>)
     = (if svc = k then m else node_map_of svc r)"
  by (simp add: node_map_of_def map_of_AList_update)

lemma node_map_of_delete:
  "node_map_of svc (r\<lparr>mr_services := AList.delete k (mr_services r)\<rparr>)
     = (if svc = k then [] else node_map_of svc r)"
  by (simp add: node_map_of_def delete_conv')

lemma mr_inv_update:
  assumes "mr_inv r" and "distinct (map fst m)"
    and "\<forall>(i, n) \<in> set m. rn_serviceName n = k \<and> rn_nodeId n = i"
  shows "mr_inv (r\<lparr>mr_services := AList.update k m (mr_services r)\<rparr>)"
  using assms by (auto simp: mr_inv_def distinct_update set_update_distinct)

lemma mr_inv_delete: "mr_inv r \<Longrightarrow> mr_inv (r\<lparr>mr_services := AList.delete k (mr_services r)\<rparr>)"
  by (auto simp: mr_inv_def distinct_delete set_AList_delete)

lemma registerService_spec:
  fixes t :: u64 and n :: RegistryNode
  assumes inv: "mr_inv r"
  defines "r' \<equiv> fst (snd (registerService t n r))"
  shows "mr_inv r'" and "node_map_of svc r' = (if svc = rn_serviceName n
    then AList.update (rn_nodeId n) (stored_node t n) (node_map_of svc r) else node_map_of svc r)"
proof -
  show "node_map_of svc r' = (if svc = rn_serviceName n
      then AList.update (rn_nodeId n) (stored_node t n) (node_map_of svc r) else node_map_of svc r)"
    by (simp add: r'_def registerService_def Let_def node_map_of_update)
  show "mr_inv r'"
    unfolding r'_def registerService_def Let_def fst_conv snd_conv
    using node_map_of_inv [OF inv, where svc = "rn_serviceName n"]
    by (intro mr_inv_update [OF inv]) (auto simp: distinct_update set_update_distinct)
qed

lemma deregisterService_spec:
  fixes k i :: bytes
  assumes inv: "mr_inv r"
  defines "r' \<equiv> fst (snd (deregisterService k i r))"
  shows "mr_inv r'" and "node_map_of svc r' = (if svc = k
    then AList.delete i (node_map_of svc r) else node_map_of svc r)"
    and "fst (deregisterService k i r) \<longleftrightarrow> i \<in> fst ` set (node_map_of k r)"
proof -
  note m = node_map_of_inv [OF inv, where svc = k]
  consider (absent) "r' = r" "i \<notin> fst ` set (node_map_of k r)" "\<not> fst (deregisterService k i r)"
    | (last) "r' = r\<lparr>mr_services := AList.delete k (mr_services r)\<rparr>" "AList.delete i (node_map_of k r) = []"
        "i \<in> fst ` set (node_map_of k r)" "fst (deregisterService k i r)"
    | (more) "r' = r\<lparr>mr_services := AList.update k (AList.delete i (node_map_of k r)) (mr_services r)\<rparr>"
        "i \<in> fst ` set (node_map_of k r)" "fst (deregisterService k i r)"
  proof (cases "map_of (node_map_of k r) i")
    case None
    then have "r' = r" "\<not> fst (deregisterService k i r)"
      by (auto simp: r'_def deregisterService_def node_map_of_def split: option.splits)
    with None show ?thesis by (intro absent) (simp_all add: map_of_eq_None_iff)
  next
    case (Some node)
    then obtain nm where nm: "map_of (mr_services r) k = Some nm" "node_map_of k r = nm"
      by (auto simp: node_map_of_def split: option.splits)
    have "i \<in> fst ` set nm" using Some nm by (force dest: map_of_SomeD)
    then show ?thesis
      using Some nm last more by (cases "AList.delete i nm = []")
        (simp_all add: r'_def deregisterService_def Let_def)
  qed
  then show "mr_inv r'" and "node_map_of svc r' = (if svc = k
      then AList.delete i (node_map_of svc r) else node_map_of svc r)"
    and "fst (deregisterService k i r) \<longleftrightarrow> i \<in> fst ` set (node_map_of k r)"
    using inv m mr_inv_update [OF inv, of "AList.delete i (node_map_of k r)" k]
    by (cases; force simp: mr_inv_delete node_map_of_delete node_map_of_update distinct_delete
        set_AList_delete delete_id)+
qed

text \<open>Nodes of one service have different ids, so a lookup is a set of nodes by id.\<close>

lemma set_discover:
  assumes "mr_inv r"
  shows "set (discover svc r) = {n. (rn_nodeId n, n) \<in> set (node_map_of svc r)}"
  using node_map_of_inv(2) [OF assms, where svc = svc] by (force simp: discover_node_map)

lemma discover_register:
  assumes inv: "mr_inv r"
  shows "set (discover svc (fst (snd (registerService t n r)))) = (if svc = rn_serviceName n
      then insert (stored_node t n) {m \<in> set (discover svc r). rn_nodeId m \<noteq> rn_nodeId n}
      else set (discover svc r))"
  unfolding set_discover [OF registerService_spec(1) [OF inv]] registerService_spec(2) [OF inv]
    set_discover [OF inv]
  by (auto simp: set_update_distinct [OF node_map_of_inv(1) [OF inv]])

lemma discover_deregister:
  assumes inv: "mr_inv r"
  shows "set (discover svc' (fst (snd (deregisterService svc i r)))) = (if svc' = svc
      then {m \<in> set (discover svc r). rn_nodeId m \<noteq> i} else set (discover svc' r))"
  unfolding set_discover [OF deregisterService_spec(1) [OF inv]] deregisterService_spec(2) [OF inv]
    set_discover [OF inv]
  by (auto simp: set_AList_delete)

interpretation mem: service_registry mr_inv "\<lambda>_ _. True" "\<lambda>_. True" "\<lambda>n r. fst (snd (registerService t n r))"
    "\<lambda>svc i r. fst (snd (deregisterService svc i r))" discover "stored_node t" for t
proof unfold_locales
  fix s n svc i svc' i'
  assume inv: "mr_inv s"
  show "mr_inv (fst (snd (registerService t n s)))" "mr_inv (fst (snd (deregisterService svc i s)))"
    using registerService_spec(1) [OF inv] deregisterService_spec(1) [OF inv] by simp_all
  show "n \<in> set (discover svc s) \<Longrightarrow> rn_serviceName n = svc"
    using node_map_of_inv(2) [OF inv] by (auto simp: set_discover [OF inv])
  show "set (discover svc (fst (snd (registerService t n s)))) = (if svc = rn_serviceName n
      then insert (stored_node t n) {m \<in> set (discover svc s). rn_nodeId m \<noteq> rn_nodeId n}
      else set (discover svc s))"
    using inv by (rule discover_register)
  show "set (discover svc' (fst (snd (deregisterService svc i s)))) = (if svc' = svc
      then {m \<in> set (discover svc s). rn_nodeId m \<noteq> i} else set (discover svc' s))"
    using inv by (rule discover_deregister)
qed simp_all

section \<open>Heartbeats and expiry\<close>

lemma cleanup_loop_eq:
  "cleanup_loop now t cb ss = (filter (\<lambda>(k, m). m \<noteq> []) (map (\<lambda>(k, m). (k, live_nodes now t m)) ss),
     if cb then map (\<lambda>(k, m). (k, map snd (live_nodes now t m))) ss else [])"
  by (induction ss) (auto simp: Let_def)

lemma map_of_live:
  "distinct (map fst ss) \<Longrightarrow>
   map_of (filter (\<lambda>(k, m). m \<noteq> []) (map (\<lambda>(k, m). (k, f m)) ss)) svc
     = (case map_of ss svc of None \<Rightarrow> None | Some m \<Rightarrow> if f m = [] then None else Some (f m))"
proof (induction ss)
  case (Cons e ss)
  obtain k m where e: "e = (k, m)" by fastforce
  have "map_of ss k = None" using Cons.prems by (simp add: e map_of_eq_None_iff)
  then show ?case using Cons by (cases "svc = k") (simp_all add: e)
qed simp

lemma cleanup_node_map:
  assumes "mr_inv r"
  shows "node_map_of svc (fst (cleanupExpiredNodes now t r)) = live_nodes now t (node_map_of svc r)"
  using assms map_of_live [of "mr_services r" "live_nodes now t" svc]
  by (auto simp: cleanupExpiredNodes_def cleanup_loop_eq node_map_of_def mr_inv_def live_nodes_def
      split: option.split)

lemma cleanup_inv:
  assumes "mr_inv r"
  shows "mr_inv (fst (cleanupExpiredNodes now t r))"
proof -
  have "distinct (map fst (filter P (map (\<lambda>(k, m). (k, f m)) ss)))"
    if "distinct (map fst ss)" for P f and ss :: "(bytes \<times> node_map) list"
    using that by (intro distinct_map_filter) (simp add: case_prod_beta' comp_def)
  moreover have "distinct (map fst (live_nodes now t m))" if "distinct (map fst m)" for m
    using that by (simp add: live_nodes_def distinct_map_filter)
  ultimately show ?thesis
    using assms by (fastforce simp: mr_inv_def cleanupExpiredNodes_def cleanup_loop_eq live_nodes_def)
qed

lemma set_discover_cleanup:
  assumes "mr_inv r"
  shows "set (discover svc (fst (cleanupExpiredNodes now t r)))
    = {n \<in> set (discover svc r). \<not> expired now t n}"
  by (auto simp: discover_node_map cleanup_node_map [OF assms] live_nodes_def)

lemma heartbeat_spec:
  assumes inv: "mr_inv r"
  shows "mr_inv (snd (registry_heartbeat now svc i r))"
    and "fst (registry_heartbeat now svc i r) \<longleftrightarrow> (\<exists>n \<in> set (discover svc r). rn_nodeId n = i)"
    and "n \<in> set (discover svc r) \<Longrightarrow> rn_nodeId n = i \<Longrightarrow>
      n\<lparr>rn_lastHeartbeat := now\<rparr> \<in> set (discover svc (snd (registry_heartbeat now svc i r)))"
proof -
  note m = node_map_of_inv [OF inv, where svc = svc]
  have id: "n \<in> set (discover svc r) \<and> rn_nodeId n = i \<longleftrightarrow> map_of (node_map_of svc r) i = Some n" for n
    using m by (auto simp: set_discover [OF inv] dest!: map_of_SomeD)
  have res: "registry_heartbeat now svc i r = (case map_of (node_map_of svc r) i of None \<Rightarrow> (False, r)
      | Some n \<Rightarrow> (True, r\<lparr>mr_services := AList.update svc
          (AList.update i (n\<lparr>rn_lastHeartbeat := now\<rparr>) (node_map_of svc r)) (mr_services r)\<rparr>))"
    by (auto simp: registry_heartbeat_def node_map_of_def split: option.splits)
  have inv': "mr_inv (r\<lparr>mr_services := AList.update svc
      (AList.update i (n\<lparr>rn_lastHeartbeat := now\<rparr>) (node_map_of svc r)) (mr_services r)\<rparr>)"
    if "map_of (node_map_of svc r) i = Some n" for n
    using m that by (intro mr_inv_update [OF inv])
      (auto simp: distinct_update set_update_distinct dest!: map_of_SomeD)
  then show "mr_inv (snd (registry_heartbeat now svc i r))"
    using inv by (auto simp: res split: option.split)
  show "fst (registry_heartbeat now svc i r) \<longleftrightarrow> (\<exists>n \<in> set (discover svc r). rn_nodeId n = i)"
    using id by (cases "map_of (node_map_of svc r) i") (auto simp: res)
  assume "n \<in> set (discover svc r)" "rn_nodeId n = i"
  then have n: "map_of (node_map_of svc r) i = Some n" using id by blast
  show "n\<lparr>rn_lastHeartbeat := now\<rparr> \<in> set (discover svc (snd (registry_heartbeat now svc i r)))"
    using n by (simp add: res discover_node_map node_map_of_update set_update_distinct m)
qed

section \<open>Properties\<close>

text \<open>A lookup finds a service's nodes as they were last registered, one per node id;
  registering or removing a node leaves the other nodes and services alone, and removing what
  was just registered restores what lookups find.\<close>

theorem registry_lookups:
  assumes "mr_inv r"
  shows "stored_node t n \<in> set (discover (rn_serviceName n) (fst (snd (registerService t n r))))
    \<and> (svc \<noteq> rn_serviceName n \<longrightarrow>
        set (discover svc (fst (snd (registerService t n r)))) = set (discover svc r))
    \<and> ((\<forall>m \<in> set (discover (rn_serviceName n) r). rn_nodeId m \<noteq> rn_nodeId n) \<longrightarrow>
        set (discover svc (fst (snd (deregisterService (rn_serviceName n) (rn_nodeId n)
          (fst (snd (registerService t n r))))))) = set (discover svc r))"
  using assms mem.register_then_lookup [where s = r and n = n] mem.register_deregister [where s = r and n = n]
  by (auto simp: discover_register)


text \<open>A node that sends a heartbeat is found with that time, and a cleanup less than the
  timeout later keeps it.\<close>

theorem heartbeat_prevents_expiry:
  assumes "mr_inv r" and "n \<in> set (discover svc r)"
    and "now \<le> later" and "later - now \<le> word_of_int timeoutSeconds"
  defines "r' \<equiv> snd (registry_heartbeat now svc (rn_nodeId n) r)"
  shows "fst (registry_heartbeat now svc (rn_nodeId n) r)
    \<and> n\<lparr>rn_lastHeartbeat := now\<rparr> \<in> set (discover svc (fst (cleanupExpiredNodes later timeoutSeconds r')))"
proof -
  note h = heartbeat_spec [OF assms(1), where now = now and svc = svc and i = "rn_nodeId n"]
  have "n\<lparr>rn_lastHeartbeat := now\<rparr> \<in> set (discover svc r')"
    unfolding r'_def using assms(2) by (intro h(3)) simp_all
  moreover have "\<not> expired later timeoutSeconds (n\<lparr>rn_lastHeartbeat := now\<rparr>)"
    using assms(4) by (simp add: expired_def not_less)
  ultimately show ?thesis
    using h(1,2) assms(2) by (auto simp: set_discover_cleanup r'_def)
qed

definition sample_node :: RegistryNode where
  "sample_node = \<lparr>rn_serviceName = [83], rn_nodeId = [49], rn_host = [104], rn_port = 80,
     rn_registerTime = 0, rn_lastHeartbeat = 0\<rparr>"

definition sample_registry :: MemoryRegistry where
  "sample_registry = \<lparr>mr_services = [([83], [([49], sample_node)])], mr_changeCallback = True\<rparr>"

lemma sample_registry: "mr_inv sample_registry" "discover [83] sample_registry = [sample_node]"
  by (simp_all add: mr_inv_def sample_registry_def sample_node_def discover_def)

theorem registry_lookups_witness:
  "stored_node 5 sample_node \<in> set (discover [83] (fst (snd (registerService 5 sample_node new_MemoryRegistry))))"
  using registry_lookups [OF mr_inv_new, of 5 sample_node "[84]"] by (simp add: sample_node_def)


theorem heartbeat_prevents_expiry_witness:
  "sample_node\<lparr>rn_lastHeartbeat := 90\<rparr>
    \<in> set (discover [83] (fst (cleanupExpiredNodes 100 30 (snd (registry_heartbeat 90 [83] [49] sample_registry)))))"
  using heartbeat_prevents_expiry [OF sample_registry(1), of sample_node "[83]" 90 100 30]
  by (simp add: sample_registry(2)) (simp add: sample_node_def)

text \<open>The cleanup calls the change callback for every service, changed or not.\<close>

lemma cleanup_notifies_unchanged:
  "snd (cleanupExpiredNodes 0 30 sample_registry) = [([83], [sample_node])]
   \<and> fst (cleanupExpiredNodes 0 30 sample_registry) = sample_registry"
  by (simp add: cleanupExpiredNodes_def sample_registry_def live_nodes_def expired_def sample_node_def Let_def)

end
