(* ===== verification/AsyncClient.thy ===== *)
theory AsyncClient
  imports RequestTable Interceptor ConsistentHash Registry Codec_Stream
begin

text \<open>
  The asynchronous client, \<^verbatim>\<open>src/src/client/rpc_async_client.cc\<close>: its table of pending requests, the
  choice of a transport, time-outs, responses and heartbeats.  A transport is the number of a
  \<^verbatim>\<open>TcpClient\<close>; \<open>linked\<close> tells which of them have a connection when the client looks.  The
  breaker, the limiter and the clock are those of the interceptors' environment.
  \<open>rc_completed\<close> lists the responses delivered, to a promise or to a callback, in order;
  \<open>rc_sent\<close> the packets given to a connection; \<open>rc_timers\<close> the time-outs left with a loop.
\<close>

section \<open>State\<close>

datatype LBPolicy = RR | CONSISTENT_HASH

record Endpoint =
  ae_host :: bytes
  ae_port :: u16
  ae_tcpClient :: nat

record AsyncClient =
  rc_invalid :: bool
  rc_destroyed :: bool
  rc_disconnecting :: bool
  rc_connected :: bool
  rc_ownsLoopThread :: bool
  rc_ownsClient :: bool
  rc_borrowedTransport :: bool
  rc_loop :: bool
  rc_tcpClient :: "nat option"
  rc_endpoints :: "Endpoint list"
  rc_rrIndex :: u64
  rc_lbPolicy :: LBPolicy
  rc_consistentHash :: "ConsistentHash option"
  rc_nextReqId :: u64
  rc_pendingPromises :: "u64 list"
  rc_pendingCallbacks :: "u64 list"
  rc_completed :: "(u64 \<times> RpcResponse) list"
  rc_chain :: "call_env interceptor list"
  rc_circuitBreaker :: bool
  rc_env :: call_env
  rc_heartbeatTimer :: "u64 option"
  rc_sent :: "(nat \<times> bytes) list"
  rc_timers :: "(u64 \<times> int) list"

definition new_AsyncClient :: "call_env \<Rightarrow> AsyncClient" where
  "new_AsyncClient e = \<lparr>rc_invalid = False, rc_destroyed = False, rc_disconnecting = False,
     rc_connected = False, rc_ownsLoopThread = True, rc_ownsClient = False, rc_borrowedTransport = False,
     rc_loop = False, rc_tcpClient = None, rc_endpoints = [], rc_rrIndex = 0, rc_lbPolicy = RR,
     rc_consistentHash = None, rc_nextReqId = 1, rc_pendingPromises = [], rc_pendingCallbacks = [],
     rc_completed = [], rc_chain = [], rc_circuitBreaker = False, rc_env = e, rc_heartbeatTimer = None,
     rc_sent = [], rc_timers = []\<rparr>"

text \<open>
  The constructor on a pooled transport: \<open>claimed\<close> is the result of \<^verbatim>\<open>tryClaim\<close>, \<open>up\<close> whether the
  connection is up.
\<close>

definition pooled_AsyncClient :: "call_env \<Rightarrow> nat \<Rightarrow> bool \<Rightarrow> bool \<Rightarrow> AsyncClient" where
  "pooled_AsyncClient e tcpClient claimed up =
     (let c = (new_AsyncClient e)\<lparr>rc_ownsLoopThread := False\<rparr>
      in if \<not> claimed then c\<lparr>rc_invalid := True\<rparr>
         else c\<lparr>rc_loop := True, rc_tcpClient := Some tcpClient, rc_ownsClient := True,
                rc_borrowedTransport := True, rc_connected := up\<rparr>)"

section \<open>Completing requests\<close>

text \<open>The common tail of \<^verbatim>\<open>handleTimeout\<close> and \<^verbatim>\<open>handleResponse\<close>, under the lock.\<close>

definition complete :: "u64 \<Rightarrow> RpcResponse \<Rightarrow> AsyncClient \<Rightarrow> AsyncClient" where
  "complete i resp c =
     (if i \<in> set (rc_pendingPromises c)
      then c\<lparr>rc_pendingPromises := removeAll i (rc_pendingPromises c), rc_completed := rc_completed c @ [(i, resp)]\<rparr>
      else if i \<in> set (rc_pendingCallbacks c)
      then c\<lparr>rc_pendingCallbacks := removeAll i (rc_pendingCallbacks c), rc_completed := rc_completed c @ [(i, resp)]\<rparr>
      else c)"

definition on_breaker :: "(breaker \<Rightarrow> breaker) \<Rightarrow> AsyncClient \<Rightarrow> AsyncClient" where
  "on_breaker f c =
     (if rc_circuitBreaker c then c\<lparr>rc_env := (rc_env c)\<lparr>ce_breaker := f (ce_breaker (rc_env c))\<rparr>\<rparr> else c)"

definition handleTimeout :: "u64 \<Rightarrow> AsyncClient \<Rightarrow> AsyncClient" where
  "handleTimeout i c =
     (if rc_destroyed c then c
      else complete i (error_response (str ''request timeout''))
             (on_breaker (recordFailure (ce_now (rc_env c))) c))"

definition handleResponse :: "DecodedPacket \<Rightarrow> AsyncClient \<Rightarrow> AsyncClient" where
  "handleResponse packet c =
     complete (pk_req_id packet) (pk_rpc_response packet)
       (on_breaker (if pk_network_status packet = SUCCESS then recordSuccess
                    else recordFailure (ce_now (rc_env c))) c)"

text \<open>The body of the loop of \<^verbatim>\<open>onMessage\<close>, and the loop, which is the one of the decoder.\<close>

definition receive :: "DecodedPacket \<Rightarrow> AsyncClient \<Rightarrow> AsyncClient" where
  "receive packet c = (if pk_msg_type packet = RESPONSE then handleResponse packet c else c)"

definition client_onMessage ::
    "pb_runtime \<Rightarrow> MsgType \<Rightarrow> u64 \<Rightarrow> buffer \<Rightarrow> AsyncClient \<Rightarrow> AsyncClient \<times> buffer" where
  "client_onMessage rt t i buf c =
     (case decode_all rt buf (new_packet t i) of (packets, buf', _) \<Rightarrow> (fold receive packets c, buf'))"

section \<open>Choosing a transport and sending\<close>

definition endpointKey :: "Endpoint \<Rightarrow> bytes" where
  "endpointKey ep = ae_host ep @ str '':'' @ to_string (unat (ae_port ep))"

definition setLBPolicy :: "(bytes \<Rightarrow> u32) \<Rightarrow> LBPolicy \<Rightarrow> int \<Rightarrow> AsyncClient \<Rightarrow> AsyncClient" where
  "setLBPolicy hf p virtualNodes c =
     c\<lparr>rc_lbPolicy := p, rc_consistentHash :=
       (if p = CONSISTENT_HASH
        then Some (fold (\<lambda>ep h. snd (addNode hf (endpointKey ep) h)) (rc_endpoints c) (new_ConsistentHash virtualNodes))
        else None)\<rparr>"

definition getTcpClient :: "(bytes \<Rightarrow> u32) \<Rightarrow> bytes \<Rightarrow> AsyncClient \<Rightarrow> nat option \<times> AsyncClient" where
  "getTcpClient hf hashKey c =
     (let sz = length (rc_endpoints c) in
      if sz = 0 then (rc_tcpClient c, c)
      else
        let hit = (case rc_consistentHash c of
            Some h \<Rightarrow> if rc_lbPolicy c = CONSISTENT_HASH \<and> hashKey \<noteq> []
              then List.find (\<lambda>ep. endpointKey ep = getNode hf hashKey h) (rc_endpoints c) else None
          | None \<Rightarrow> None)
        in case hit of
             Some ep \<Rightarrow> (Some (ae_tcpClient ep), c)
           | None \<Rightarrow> (Some (ae_tcpClient (rc_endpoints c ! (unat (rc_rrIndex c) mod sz))),
                      c\<lparr>rc_rrIndex := rc_rrIndex c + 1\<rparr>))"

definition sendRequest ::
    "(bytes \<Rightarrow> u32) \<Rightarrow> (nat \<Rightarrow> bool) \<Rightarrow> u64 \<Rightarrow> bytes \<Rightarrow> bytes \<Rightarrow> AsyncClient \<Rightarrow> AsyncClient" where
  "sendRequest hf linked i packet hashKey c =
     (case getTcpClient hf hashKey c of
        (None, c) \<Rightarrow> handleTimeout i c
      | (Some client, c) \<Rightarrow>
          if rc_disconnecting c \<or> \<not> linked client then handleTimeout i c
          else c\<lparr>rc_sent := rc_sent c @ [(client, packet)]\<rparr>)"

text \<open>A time-out needs a loop: that of the first endpoint, or the client's own.\<close>

definition add_timeout :: "u64 \<Rightarrow> int \<Rightarrow> AsyncClient \<Rightarrow> AsyncClient" where
  "add_timeout i timeout_ms c =
     (if timeout_ms > 0 \<and> (rc_endpoints c \<noteq> [] \<or> rc_loop c)
      then c\<lparr>rc_timers := rc_timers c @ [(i, timeout_ms)]\<rparr> else c)"

definition encode_and_send ::
    "pb_runtime \<Rightarrow> (bytes \<Rightarrow> u32) \<Rightarrow> (nat \<Rightarrow> bool) \<Rightarrow> u64 \<Rightarrow> bytes \<Rightarrow> bytes \<Rightarrow> RpcRequest \<Rightarrow> AsyncClient \<Rightarrow> AsyncClient" where
  "encode_and_send rt hf linked i service method request c =
     (let packet = encodeRequest rt request i service method
      in if packet = [] then handleTimeout i c
         else sendRequest hf linked i packet (service @ str ''/'' @ method) c)"

section \<open>Calls\<close>

text \<open>
  \<^verbatim>\<open>doCall\<close> up to the point where it waits for its future, and the whole of it: \<open>io\<close> is what the
  other threads do while it waits; the result is \<open>None\<close> if the future never gets a value.
\<close>

definition traced :: "u64 \<Rightarrow> RpcRequest \<Rightarrow> AsyncClient \<Rightarrow> RpcRequest" where
  "traced i request c =
     (if rc_chain c = [] then
        RpcRequest_set_metadata trace_key
          (to_string (unat i) @ str ''-'' @ to_string (nat (ce_now (rc_env c))) @ str ''-''
            @ to_string (ce_thread (rc_env c))) request
      else request)"

definition doCall_start ::
    "pb_runtime \<Rightarrow> (bytes \<Rightarrow> u32) \<Rightarrow> (nat \<Rightarrow> bool) \<Rightarrow> bytes \<Rightarrow> bytes \<Rightarrow> RpcRequest \<Rightarrow> u64 \<Rightarrow> int
      \<Rightarrow> AsyncClient \<Rightarrow> AsyncClient" where
  "doCall_start rt hf linked service method request i timeout_ms c =
     encode_and_send rt hf linked i service method (traced i request c)
       (add_timeout i timeout_ms (c\<lparr>rc_pendingPromises := List.insert i (rc_pendingPromises c)\<rparr>))"

definition doCall ::
    "pb_runtime \<Rightarrow> (bytes \<Rightarrow> u32) \<Rightarrow> (nat \<Rightarrow> bool) \<Rightarrow> (AsyncClient \<Rightarrow> AsyncClient) \<Rightarrow> bytes \<Rightarrow> bytes \<Rightarrow> RpcRequest
      \<Rightarrow> u64 \<Rightarrow> int \<Rightarrow> AsyncClient \<Rightarrow> (RpcResponse \<times> AsyncClient) option" where
  "doCall rt hf linked io service method request i timeout_ms c =
     (let c = io (doCall_start rt hf linked service method request i timeout_ms c)
      in map_option (\<lambda>resp. (resp, c)) (map_of (rc_completed c) i))"

definition take_id :: "AsyncClient \<Rightarrow> u64 \<times> AsyncClient" where
  "take_id c = (rc_nextReqId c, c\<lparr>rc_nextReqId := rc_nextReqId c + 1\<rparr>)"

definition with_env :: "AsyncClient \<Rightarrow> call_env \<Rightarrow> AsyncClient" where
  "with_env c e = c\<lparr>rc_env := e\<rparr>"

text \<open>The blocking call: the interceptors before it, the call, the interceptors after it.\<close>

definition invalid_response :: RpcResponse where
  "invalid_response = error_response (str ''TcpClient already owned by another RpcAsyncClient'')"

definition asyncCall ::
    "pb_runtime \<Rightarrow> (bytes \<Rightarrow> u32) \<Rightarrow> (nat \<Rightarrow> bool) \<Rightarrow> (AsyncClient \<Rightarrow> AsyncClient) \<Rightarrow> bytes \<Rightarrow> bytes \<Rightarrow> RpcRequest
      \<Rightarrow> int \<Rightarrow> AsyncClient \<Rightarrow> (RpcResponse \<times> AsyncClient) option" where
  "asyncCall rt hf linked io service method request timeout_ms c =
     (if rc_invalid c then Some (invalid_response, c)
      else let (i, c) = take_id c in
        if rc_chain c = [] then doCall rt hf linked io service method request i timeout_ms c
        else (case pre_all (rc_chain c) request (rc_env c) of
            (False, _, e) \<Rightarrow> Some (error_response (str ''interceptor blocked''), with_env c e)
          | (True, request, e) \<Rightarrow>
              map_option (\<lambda>(resp, c). (resp, with_env c (post_all (rc_chain c) resp (rc_env c))))
                (doCall rt hf linked io service method request i timeout_ms (with_env c e))))"

text \<open>The call with a callback, from where it registers the callback.\<close>

definition asyncCall_callback ::
    "pb_runtime \<Rightarrow> (bytes \<Rightarrow> u32) \<Rightarrow> (nat \<Rightarrow> bool) \<Rightarrow> bytes \<Rightarrow> bytes \<Rightarrow> RpcRequest \<Rightarrow> u64 \<Rightarrow> int
      \<Rightarrow> AsyncClient \<Rightarrow> AsyncClient" where
  "asyncCall_callback rt hf linked service method request i timeout_ms c =
     encode_and_send rt hf linked i service method request
       (add_timeout i timeout_ms (c\<lparr>rc_pendingCallbacks := List.insert i (rc_pendingCallbacks c)\<rparr>))"

text \<open>
  The whole of the call with a callback: \<open>Some (Some resp, c)\<close> when the callback has been called
  before it returns, which is the case on every path but the last.
\<close>

definition asyncCall_cb ::
    "pb_runtime \<Rightarrow> (bytes \<Rightarrow> u32) \<Rightarrow> (nat \<Rightarrow> bool) \<Rightarrow> (AsyncClient \<Rightarrow> AsyncClient) \<Rightarrow> bytes \<Rightarrow> bytes \<Rightarrow> RpcRequest
      \<Rightarrow> int \<Rightarrow> AsyncClient \<Rightarrow> (RpcResponse option \<times> AsyncClient) option" where
  "asyncCall_cb rt hf linked io service method request timeout_ms c =
     (if rc_invalid c then Some (Some invalid_response, c)
      else if rc_chain c \<noteq> [] then
        map_option (\<lambda>(resp, c). (Some resp, c)) (asyncCall rt hf linked io service method request timeout_ms c)
      else let (i, c) = take_id c in
        Some (None, asyncCall_callback rt hf linked service method request i timeout_ms c))"

text \<open>The pointers may be null.\<close>

definition setCircuitBreaker :: "bool \<Rightarrow> AsyncClient \<Rightarrow> AsyncClient" where
  "setCircuitBreaker cb c = c\<lparr>rc_circuitBreaker := cb,
     rc_chain := addInterceptor (CircuitBreakerInterceptor cb) (rc_chain c)\<rparr>"

definition setRateLimiter :: "bool \<Rightarrow> AsyncClient \<Rightarrow> AsyncClient" where
  "setRateLimiter limiter c = c\<lparr>rc_chain := addInterceptor (RateLimitInterceptor limiter) (rc_chain c)\<rparr>"

section \<open>Connecting and disconnecting\<close>

text \<open>
  A node chosen at random, which nothing calls at present; \<open>pick n\<close> is a number below \<open>n\<close>.  The result
  is the address, unchanged if there is no node.
\<close>

definition resolveEndpoint :: "(nat \<Rightarrow> nat) \<Rightarrow> RegistryNode list \<Rightarrow> bytes \<times> u16 \<Rightarrow> bool \<times> bytes \<times> u16" where
  "resolveEndpoint pick ns addr =
     (if ns = [] then (False, addr) else let node = ns ! pick (length ns) in (True, rn_host node, rn_port node))"

text \<open>
  \<open>inet_pton\<close> tells whether a host is an address, \<open>outcome k\<close> whether the \<open>k\<close>-th node answered in
  time, and \<open>transport k\<close> is the number of the transport made for it.
\<close>

fun connect_nodes ::
    "(bytes \<Rightarrow> u32) \<Rightarrow> (bytes \<Rightarrow> bool) \<Rightarrow> (nat \<Rightarrow> bool) \<Rightarrow> (nat \<Rightarrow> nat) \<Rightarrow> nat \<Rightarrow> RegistryNode list
      \<Rightarrow> nat \<times> AsyncClient \<Rightarrow> nat \<times> AsyncClient" where
  "connect_nodes hf inet_pton outcome transport k [] nc = nc"
| "connect_nodes hf inet_pton outcome transport k (node # found) (n, c) =
     (let ep = \<lparr>ae_host = rn_host node, ae_port = rn_port node, ae_tcpClient = transport k\<rparr> in
      connect_nodes hf inet_pton outcome transport (Suc k) found
        (if inet_pton (rn_host node) \<and> outcome k
         then (Suc n, c\<lparr>rc_endpoints := rc_endpoints c @ [ep],
           rc_consistentHash := (case rc_consistentHash c of
               Some h \<Rightarrow> if rc_lbPolicy c = CONSISTENT_HASH then Some (snd (addNode hf (endpointKey ep) h)) else Some h
             | None \<Rightarrow> None)\<rparr>)
         else (n, c)))"

definition connectViaRegistry ::
    "(bytes \<Rightarrow> u32) \<Rightarrow> (bytes \<Rightarrow> bool) \<Rightarrow> (nat \<Rightarrow> bool) \<Rightarrow> (nat \<Rightarrow> nat) \<Rightarrow> RegistryNode list
      \<Rightarrow> AsyncClient \<Rightarrow> bool \<times> AsyncClient" where
  "connectViaRegistry hf inet_pton outcome transport found c =
     (if found = [] then (False, c)
      else case connect_nodes hf inet_pton outcome transport 0 found (0, c) of
        (n, c) \<Rightarrow> if n = 0 then (False, c) else (True, c\<lparr>rc_connected := True\<rparr>))"

text \<open>\<open>up\<close> is the answer of the first connect within three seconds, if there is one.\<close>

definition connectDirect :: "bool \<Rightarrow> nat \<Rightarrow> bool option \<Rightarrow> AsyncClient \<Rightarrow> bool \<times> AsyncClient" where
  "connectDirect validIP transport up c =
     (if \<not> validIP then (False, c\<lparr>rc_loop := False\<rparr>)
      else if up = Some True
      then (True, c\<lparr>rc_loop := True, rc_tcpClient := Some transport, rc_ownsClient := True, rc_connected := True\<rparr>)
      else (False, c\<lparr>rc_loop := False, rc_tcpClient := None, rc_ownsClient := True,
              rc_connected := (if up = None then rc_connected c else False)\<rparr>))"

definition async_connect ::
    "(bytes \<Rightarrow> u32) \<Rightarrow> (bytes \<Rightarrow> bool) \<Rightarrow> (nat \<Rightarrow> bool) \<Rightarrow> (nat \<Rightarrow> nat) \<Rightarrow> RegistryNode list option
      \<Rightarrow> bool \<Rightarrow> bool option \<Rightarrow> AsyncClient \<Rightarrow> bool \<times> AsyncClient" where
  "async_connect hf inet_pton outcome transport discovered validIP up c =
     (if rc_invalid c then (False, c)
      else if \<not> rc_ownsLoopThread c then (rc_connected c, c)
      else case discovered of
        Some found \<Rightarrow> connectViaRegistry hf inet_pton outcome transport found c
      | None \<Rightarrow> connectDirect validIP (transport 0) up c)"

text \<open>\<open>up t\<close> is whether transport \<open>t\<close> has a connection that is up.\<close>

definition async_connected :: "(nat \<Rightarrow> bool) \<Rightarrow> AsyncClient \<Rightarrow> bool" where
  "async_connected up c =
     (if rc_endpoints c \<noteq> [] then list_ex (\<lambda>ep. up (ae_tcpClient ep)) (rc_endpoints c) else rc_connected c)"

text \<open>What is done to the transports, besides letting go of them.\<close>

datatype transport_action = StopTransport nat | ClearCallbacks nat | DisconnectPermanently nat | ReleaseClaim nat

definition disconnect :: "AsyncClient \<Rightarrow> transport_action list \<times> AsyncClient" where
  "disconnect c =
     (map (\<lambda>ep. StopTransport (ae_tcpClient ep)) (rc_endpoints c)
        @ (case rc_tcpClient c of
             Some t \<Rightarrow> if rc_ownsClient c
               then ClearCallbacks t # (if rc_borrowedTransport c then [] else [DisconnectPermanently t]) else []
           | None \<Rightarrow> []),
      c\<lparr>rc_disconnecting := True,
        rc_consistentHash := (case rc_consistentHash c of
            Some h \<Rightarrow> Some (if rc_lbPolicy c = CONSISTENT_HASH
              then fold (\<lambda>ep. removeNode (endpointKey ep)) (rc_endpoints c) h else h)
          | None \<Rightarrow> None),
        rc_endpoints := [], rc_tcpClient := None, rc_connected := False, rc_loop := False\<rparr>)"

definition startHeartbeat :: "u64 \<Rightarrow> AsyncClient \<Rightarrow> AsyncClient" where
  "startHeartbeat timerId c =
     (if (rc_endpoints c \<noteq> [] \<or> rc_loop c) \<and> rc_heartbeatTimer c = None
      then c\<lparr>rc_heartbeatTimer := Some timerId\<rparr> else c)"

definition heartbeat_fired :: "(nat \<Rightarrow> bool) \<Rightarrow> nat option \<Rightarrow> int \<Rightarrow> AsyncClient \<Rightarrow> AsyncClient" where
  "heartbeat_fired linked client time c =
     (case client of
        Some t \<Rightarrow>
          if rc_connected c \<and> linked t
          then c\<lparr>rc_sent := rc_sent c @ [(t, encodeHeartbeat (Heartbeat_new\<lparr>hb_service_name := str ''client'',
                  hb_node_id := str ''node_1'', hb_timestamp := time\<rparr>) 0)]\<rparr>
          else c
      | None \<Rightarrow> c)"

text \<open>The timer that is cancelled, if one runs.\<close>

definition stopHeartbeat :: "AsyncClient \<Rightarrow> u64 option \<times> AsyncClient" where
  "stopHeartbeat c = (rc_heartbeatTimer c, c\<lparr>rc_heartbeatTimer := None\<rparr>)"

definition destroy_AsyncClient :: "AsyncClient \<Rightarrow> transport_action list \<times> AsyncClient" where
  "destroy_AsyncClient c =
     (let c = snd (stopHeartbeat (c\<lparr>rc_destroyed := True\<rparr>));
          claimed = (if rc_ownsClient c then rc_tcpClient c else None);
          (actions, c) = disconnect c;
          resp = error_response (str ''client destroyed'')
      in (actions @ (case claimed of Some t \<Rightarrow> [ReleaseClaim t] | None \<Rightarrow> []),
          c\<lparr>rc_completed := rc_completed c @ map (\<lambda>i. (i, resp)) (rc_pendingPromises c)
               @ map (\<lambda>i. (i, resp)) (rc_pendingCallbacks c),
             rc_pendingPromises := [], rc_pendingCallbacks := []\<rparr>))"

section \<open>Requests are completed once\<close>

text \<open>What happens to a client, with the ids of the requests it has registered.\<close>

datatype client_event =
    EvCall bytes bytes RpcRequest int
  | EvCallback bytes bytes RpcRequest int
  | EvBlocked
  | EvPacket DecodedPacket
  | EvTimeout u64

definition client_event ::
    "pb_runtime \<Rightarrow> (bytes \<Rightarrow> u32) \<Rightarrow> (nat \<Rightarrow> bool) \<Rightarrow> client_event \<Rightarrow> u64 list \<times> AsyncClient \<Rightarrow> u64 list \<times> AsyncClient" where
  "client_event rt hf linked ev rc =
     (case rc of (reg, c) \<Rightarrow>
       case ev of
         EvCall service method request timeout \<Rightarrow>
           (let (i, c) = take_id c in (reg @ [i], doCall_start rt hf linked service method request i timeout c))
       | EvCallback service method request timeout \<Rightarrow>
           (let (i, c) = take_id c in (reg @ [i], asyncCall_callback rt hf linked service method request i timeout c))
       | EvBlocked \<Rightarrow> (reg, snd (take_id c))
       | EvPacket packet \<Rightarrow> (reg, receive packet c)
       | EvTimeout i \<Rightarrow> (reg, handleTimeout i c))"

definition pending :: "AsyncClient \<Rightarrow> u64 list" where
  "pending c = rc_pendingPromises c @ rc_pendingCallbacks c"

text \<open>Every registered id is pending or completed, in one place only, and lies behind the counter.\<close>

definition ac_inv :: "u64 list \<times> AsyncClient \<Rightarrow> bool" where
  "ac_inv rc \<longleftrightarrow> (case rc of (reg, c) \<Rightarrow>
     distinct (pending c @ map fst (rc_completed c))
     \<and> set reg = set (pending c) \<union> fst ` set (rc_completed c)
     \<and> (\<forall>i \<in> set reg. i < rc_nextReqId c))"

lemma complete_pending:
  assumes "distinct (pending c)" and "i \<in> set (pending c)"
  shows "rc_completed (complete i resp c) = rc_completed c @ [(i, resp)]
    \<and> set (pending (complete i resp c)) = set (pending c) - {i} \<and> distinct (pending (complete i resp c))"
  using assms by (auto simp: complete_def pending_def distinct_removeAll)

lemma complete_other: "i \<notin> set (pending c) \<Longrightarrow> complete i resp c = c"
  by (auto simp: complete_def pending_def)

lemma complete_keeps [simp]:
  "rc_nextReqId (complete i resp c) = rc_nextReqId c" "rc_endpoints (complete i resp c) = rc_endpoints c"
  "rc_env (complete i resp c) = rc_env c" "rc_destroyed (complete i resp c) = rc_destroyed c"
  by (simp_all add: complete_def)

text \<open>Two clients that agree on everything the table of requests depends on.\<close>

definition same_table :: "AsyncClient \<Rightarrow> AsyncClient \<Rightarrow> bool" where
  "same_table c d \<longleftrightarrow> rc_pendingPromises c = rc_pendingPromises d \<and> rc_pendingCallbacks c = rc_pendingCallbacks d
     \<and> rc_completed c = rc_completed d \<and> rc_nextReqId c = rc_nextReqId d"

lemma same_table_inv: "same_table c d \<Longrightarrow> ac_inv (reg, c) \<longleftrightarrow> ac_inv (reg, d)"
  by (simp add: same_table_def ac_inv_def pending_def)

lemma same_table_refl [simp]: "same_table c c"
  by (simp add: same_table_def)

lemma same_table_trans: "same_table c d \<Longrightarrow> same_table d e \<Longrightarrow> same_table c e"
  by (simp add: same_table_def)

lemma on_breaker_same [simp]: "same_table (on_breaker f c) c"
  by (simp add: on_breaker_def same_table_def)

lemma add_timeout_same [simp]: "same_table (add_timeout i t c) c"
  by (simp add: add_timeout_def same_table_def)

lemma getTcpClient_same: "getTcpClient hf key c = (t, d) \<Longrightarrow> same_table d c"
  by (auto simp: getTcpClient_def Let_def same_table_def split: if_splits option.splits)

interpretation async: request_table pending "\<lambda>c. map fst (rc_completed c)" complete
  by unfold_locales (simp_all add: complete_pending complete_other)

lemma complete_inv:
  assumes "ac_inv (reg, c)"
  shows "ac_inv (reg, complete i resp c)"
proof -
  have "async.once c" "set reg = async.known c" "\<forall>i \<in> set reg. i < rc_nextReqId c"
    using assms by (simp_all add: ac_inv_def async.once_def async.known_def)
  with async.finish_once [of c i resp] show ?thesis
    by (simp add: ac_inv_def async.once_def async.known_def)
qed

lemma handleTimeout_inv: "ac_inv (reg, c) \<Longrightarrow> ac_inv (reg, handleTimeout i c)"
  by (simp add: handleTimeout_def complete_inv same_table_inv [OF on_breaker_same])

lemma receive_inv: "ac_inv (reg, c) \<Longrightarrow> ac_inv (reg, receive p c)"
  by (simp add: receive_def handleResponse_def complete_inv same_table_inv [OF on_breaker_same])

lemma encode_and_send_inv:
  assumes "ac_inv (reg, c)"
  shows "ac_inv (reg, encode_and_send rt hf linked i service method request c)"
proof -
  have "ac_inv (reg, sendRequest hf linked i packet key c)" for packet key
  proof -
    obtain t d where d: "getTcpClient hf key c = (t, d)" by fastforce
    then have "ac_inv (reg, d)" using assms same_table_inv [OF getTcpClient_same [OF d]] by simp
    then have "ac_inv (reg, handleTimeout i d)" "ac_inv (reg, d\<lparr>rc_sent := x\<rparr>)" for x
      by (simp_all add: handleTimeout_inv) (simp add: ac_inv_def pending_def)
    then show ?thesis by (simp add: sendRequest_def d split: option.split)
  qed
  then show ?thesis by (simp add: encode_and_send_def Let_def handleTimeout_inv assms)
qed

lemma word_less_next: "(i :: u64) < n \<or> i = n \<Longrightarrow> n + 1 \<noteq> 0 \<Longrightarrow> i < n + 1"
  using unatSuc [of n] by (auto simp: word_less_nat_alt add.commute)

text \<open>Registering the id the counter gives, under a promise or a callback.\<close>

lemma register_inv:
  assumes "ac_inv (reg, c)" and "rc_nextReqId c + 1 \<noteq> 0"
  shows "ac_inv (reg @ [rc_nextReqId c], c\<lparr>rc_nextReqId := rc_nextReqId c + 1,
      rc_pendingPromises := List.insert (rc_nextReqId c) (rc_pendingPromises c)\<rparr>)"
    and "ac_inv (reg @ [rc_nextReqId c], c\<lparr>rc_nextReqId := rc_nextReqId c + 1,
      rc_pendingCallbacks := List.insert (rc_nextReqId c) (rc_pendingCallbacks c)\<rparr>)"
    and "ac_inv (reg, c\<lparr>rc_nextReqId := rc_nextReqId c + 1\<rparr>)"
proof -
  let ?i = "rc_nextReqId c"
  have reg: "distinct (pending c @ map fst (rc_completed c))"
    "set reg = set (pending c) \<union> fst ` set (rc_completed c)" "\<forall>i \<in> set reg. i < ?i"
    using assms(1) by (simp_all add: ac_inv_def)
  have new: "?i \<notin> set (pending c) \<union> fst ` set (rc_completed c)"
    using reg(2,3) by blast
  have less: "\<forall>i \<in> set (reg @ [?i]). i < ?i + 1"
    using reg(3) word_less_next [OF _ assms(2)] by auto
  show "ac_inv (reg @ [?i], c\<lparr>rc_nextReqId := ?i + 1, rc_pendingPromises := List.insert ?i (rc_pendingPromises c)\<rparr>)"
    "ac_inv (reg @ [?i], c\<lparr>rc_nextReqId := ?i + 1, rc_pendingCallbacks := List.insert ?i (rc_pendingCallbacks c)\<rparr>)"
    "ac_inv (reg, c\<lparr>rc_nextReqId := ?i + 1\<rparr>)"
    using reg(1,2) new less by (auto simp: ac_inv_def pending_def)
qed

lemma client_event_inv:
  assumes "ac_inv (reg, c)" and "rc_nextReqId c + 1 \<noteq> 0"
  shows "ac_inv (client_event rt hf linked ev (reg, c))"
proof (cases ev)
  case (EvCall service meth request timeout)
  then show ?thesis
    using register_inv(1) [OF assms]
    by (simp add: client_event_def take_id_def Let_def doCall_start_def encode_and_send_inv
        same_table_inv [OF add_timeout_same])
next
  case (EvCallback service meth request timeout)
  then show ?thesis
    using register_inv(2) [OF assms]
    by (simp add: client_event_def take_id_def Let_def asyncCall_callback_def encode_and_send_inv
        same_table_inv [OF add_timeout_same])
qed (simp_all add: client_event_def take_id_def register_inv [OF assms] receive_inv handleTimeout_inv assms)

lemma table_keeps_counter [simp]:
  "rc_nextReqId (handleTimeout i c) = rc_nextReqId c" "rc_nextReqId (receive p c) = rc_nextReqId c"
  "rc_nextReqId (on_breaker f c) = rc_nextReqId c" "rc_nextReqId (add_timeout i t c) = rc_nextReqId c"
  by (simp_all add: handleTimeout_def receive_def handleResponse_def on_breaker_def add_timeout_def)

lemma encode_and_send_counter [simp]:
  "rc_nextReqId (encode_and_send rt hf linked i service method request c) = rc_nextReqId c"
proof -
  have "rc_nextReqId (sendRequest hf linked i packet key c) = rc_nextReqId c" for packet key
  proof -
    obtain t d where d: "getTcpClient hf key c = (t, d)" by fastforce
    then have "rc_nextReqId d = rc_nextReqId c" using getTcpClient_same by (auto simp: same_table_def)
    then show ?thesis by (simp add: sendRequest_def d split: option.split)
  qed
  then show ?thesis by (simp add: encode_and_send_def Let_def)
qed

lemma client_event_counter:
  "rc_nextReqId (snd (client_event rt hf linked ev (reg, c))) \<in> {rc_nextReqId c, rc_nextReqId c + 1}"
  by (cases ev) (simp_all add: client_event_def take_id_def Let_def doCall_start_def asyncCall_callback_def)

lemma client_events_inv:
  assumes "ac_inv rc" and "unat (rc_nextReqId (snd rc)) + length evs < 2 ^ 64"
  shows "ac_inv (fold (client_event rt hf linked) evs rc)"
  using assms
proof (induction evs arbitrary: rc)
  case (Cons ev evs)
  obtain reg c where rc: "rc = (reg, c)" by (cases rc)
  have le: "unat (rc_nextReqId c) + Suc (length evs) < 2 ^ 64" using Cons.prems(2) rc by simp
  then have nx: "unat (rc_nextReqId c + 1) = Suc (unat (rc_nextReqId c))"
    by (simp add: unat_word_ariths(1))
  then have "rc_nextReqId c + 1 \<noteq> 0" by (metis nat.distinct(1) unsigned_0)
  with Cons.prems(1) rc have inv: "ac_inv (client_event rt hf linked ev rc)" by (simp add: client_event_inv)
  have "unat (rc_nextReqId (snd (client_event rt hf linked ev rc))) + length evs < 2 ^ 64"
    using client_event_counter [of rt hf linked ev reg c] le nx rc by auto
  from Cons.IH [OF inv this] show ?case by simp
qed simp

section \<open>Properties\<close>



text \<open>A response completes exactly the request it answers, with its content: the request with its id
  leaves the table and nothing else changes there; a response to no pending request, late or
  duplicate, changes nothing in the tables.
\<close>

theorem response_correlates:
  assumes "ac_inv (reg, c)" and "pk_msg_type p = RESPONSE"
  shows "if pk_req_id p \<in> set (pending c)
    then rc_completed (receive p c) = rc_completed c @ [(pk_req_id p, pk_rpc_response p)]
      \<and> set (pending (receive p c)) = set (pending c) - {pk_req_id p}
    else rc_completed (receive p c) = rc_completed c \<and> pending (receive p c) = pending c"
proof -
  let ?c = "on_breaker (if pk_network_status p = SUCCESS then recordSuccess else recordFailure (ce_now (rc_env c))) c"
  have same: "pending ?c = pending c" "rc_completed ?c = rc_completed c"
    using on_breaker_same by (auto simp: same_table_def pending_def)
  have "receive p c = complete (pk_req_id p) (pk_rpc_response p) ?c"
    using assms(2) by (simp add: receive_def handleResponse_def)
  moreover have "distinct (pending ?c)"
    using assms(1) by (simp add: same ac_inv_def)
  ultimately show ?thesis
    using complete_pending [of ?c "pk_req_id p" "pk_rpc_response p"] complete_other [of "pk_req_id p" ?c] by (simp add: same)
qed

definition waiting_client :: AsyncClient where
  "waiting_client = (new_AsyncClient sample_env)\<lparr>rc_pendingPromises := [1, 2], rc_nextReqId := 3\<rparr>"

lemma waiting_client_inv: "ac_inv ([1, 2], waiting_client)"
  by (simp add: ac_inv_def waiting_client_def new_AsyncClient_def pending_def)

theorem response_correlates_witness:
  "rc_completed (receive (new_packet RESPONSE 2) waiting_client) = [(2, pk_rpc_response (new_packet RESPONSE 2))]"
  using response_correlates [OF waiting_client_inv, of "new_packet RESPONSE 2"]
  by (simp add: new_packet_def waiting_client_def new_AsyncClient_def pending_def)



text \<open>C32: With consistent hashing every call finds its node: after \<^verbatim>\<open>setLBPolicy\<close> a non-empty key always goes to an
  endpoint whose address the ring gives for it, whatever was sent before, and the round-robin
  counter is never used.
\<close>

theorem hashing_never_falls_back:
  assumes "rc_endpoints c \<noteq> []" and "0 < v" and "key \<noteq> []"
  shows "\<exists>ep h. ep \<in> set (rc_endpoints c) \<and> rc_consistentHash (setLBPolicy hf CONSISTENT_HASH v c) = Some h
    \<and> endpointKey ep = getNode hf key h
    \<and> getTcpClient hf key (setLBPolicy hf CONSISTENT_HASH v c)
        = (Some (ae_tcpClient ep), setLBPolicy hf CONSISTENT_HASH v c)"
proof -
  let ?h = "fold (\<lambda>n h. snd (addNode hf n h)) (map endpointKey (rc_endpoints c)) (new_ConsistentHash v)"
  have "ring_ready hf (new_ConsistentHash v)" and "nodes (new_ConsistentHash v) = {}"
    using assms(2) by (simp_all add: ring_ready_def new_ConsistentHash_def nodes_def ch_inv_def ring_sorted_def points_def owner_def)
  then have "getNode hf key ?h \<in> set (map endpointKey (rc_endpoints c))"
    using assms(1) by (intro ring_lb.pick_fold) simp_all
  then obtain ep where ep: "List.find (\<lambda>ep. endpointKey ep = getNode hf key ?h) (rc_endpoints c) = Some ep"
    by (cases "List.find (\<lambda>ep. endpointKey ep = getNode hf key ?h) (rc_endpoints c)")
       (auto simp: find_None_iff)
  then have "ep \<in> set (rc_endpoints c)" "endpointKey ep = getNode hf key ?h"
    by (auto simp: find_Some_iff)
  moreover have "rc_consistentHash (setLBPolicy hf CONSISTENT_HASH v c) = Some ?h"
    by (simp add: setLBPolicy_def fold_map o_def)
  moreover have "getTcpClient hf key (setLBPolicy hf CONSISTENT_HASH v c)
      = (Some (ae_tcpClient ep), setLBPolicy hf CONSISTENT_HASH v c)"
    using ep assms(1,3) calculation(3) by (simp add: getTcpClient_def) (simp add: setLBPolicy_def)
  ultimately show ?thesis by blast
qed

definition two_endpoints :: AsyncClient where
  "two_endpoints = (new_AsyncClient sample_env)\<lparr>rc_endpoints :=
     [\<lparr>ae_host = [97], ae_port = 1, ae_tcpClient = 10\<rparr>, \<lparr>ae_host = [98], ae_port = 2, ae_tcpClient = 11\<rparr>]\<rparr>"

theorem hashing_never_falls_back_witness:
  "\<exists>ep. ep \<in> set (rc_endpoints two_endpoints)
    \<and> getTcpClient defaultHash [107] (setLBPolicy defaultHash CONSISTENT_HASH 150 two_endpoints)
        = (Some (ae_tcpClient ep), setLBPolicy defaultHash CONSISTENT_HASH 150 two_endpoints)"
proof -
  have "rc_endpoints two_endpoints \<noteq> []" by (simp add: two_endpoints_def)
  from hashing_never_falls_back [OF this, of 150 "[107]" defaultHash] show ?thesis by auto
qed

section \<open>Where the client differs from its comments\<close>

text \<open>
  A time-out is never cancelled: when it fires for a request that was answered long ago, the
  breaker still counts a failure.
\<close>

lemma late_timeout_counts_as_failure:
  assumes "\<not> rc_destroyed c" and "rc_circuitBreaker c" and "i \<notin> set (pending c)"
  shows "handleTimeout i c
    = c\<lparr>rc_env := (rc_env c)\<lparr>ce_breaker := recordFailure (ce_now (rc_env c)) (ce_breaker (rc_env c))\<rparr>\<rparr>"
proof -
  have "pending (on_breaker (recordFailure (ce_now (rc_env c))) c) = pending c"
    using on_breaker_same by (simp add: same_table_def pending_def)
  with assms show ?thesis by (simp add: handleTimeout_def complete_other) (simp add: on_breaker_def)
qed

text \<open>Without a positive time-out a call whose response is lost waits for ever.\<close>

lemma lost_response_blocks:
  assumes "rc_pendingPromises c = []" and "rc_pendingCallbacks c = []" and "rc_endpoints c = []"
    and "rc_tcpClient c = Some t" and "linked t" and "\<not> rc_disconnecting c" and "timeout_ms \<le> 0"
    and "map_of (rc_completed c) i = None" and "encodeRequest rt (traced i request c) i service method \<noteq> []"
  shows "doCall rt hf linked id service method request i timeout_ms c = None"
  using assms
  by (simp add: doCall_def doCall_start_def encode_and_send_def add_timeout_def sendRequest_def getTcpClient_def)

end
