(* ===== verification/EndToEnd.thy ===== *)
theory EndToEnd
  imports Server AsyncClient
begin

text \<open>
  The composition of the two sides of a connection: what the client encodes the server serves, and
  what the server sends completes the client's requests.  The lemmas here take the codec, the
  server and the client each at its own specification; the end-to-end property is in the root.
\<close>

section \<open>Encoded requests and responses as packets of the stream\<close>

lemma request_on_wire:
  assumes "wire_runtime rt" and "req_ok rt req" and "length service \<le> 65535" and "length method \<le> 65535"
    and "length (encodeRequest rt req i service method) \<le> kMaxBufferSize"
  shows "\<exists>k m. encodeRequest rt req i service method = wire k \<and> wire_ok rt k
    \<and> wire_msg rt k = RequestMsg i service method m \<and> req_same m req"
proof -
  obtain payload m where pl: "RpcRequest_SerializeToString rt req = Some payload"
    and m: "RpcRequest_ParseFromString rt payload = Some m" "req_same m req"
    using wire_runtime.request_wire [OF assms(1,2)] by blast
  let ?body = "string_field service @ string_field method @ payload_field payload"
  have enc: "encodeRequest rt req i service method = pack REQUEST i ?body"
    using encodeRequestBody_fields [OF assms(3,4) pl]
    by (auto simp: encodeRequest_def Let_def dest: arg_cong [where f = length])
  have "length payload < 2 ^ 32" using assms(5) by (simp add: enc kMaxBufferSize_def)
  from decodeRequestBody_fields [OF assms(3,4) this m(1), of "new_packet REQUEST i"]
  have "body_message rt REQUEST i ?body = Some (RequestMsg i service method m)"
    by (simp add: body_message_def decodeBody_def message_of_def)
  then have "wire_ok rt (REQUEST, i, ?body)" "wire_msg rt (REQUEST, i, ?body) = RequestMsg i service method m"
    using assms(5) by (simp_all add: wire_ok_def wire_msg_def enc)
  with enc m(2) show ?thesis by (metis (no_types, lifting) case_prod_conv wire_def)
qed

lemma response_on_wire:
  assumes "wire_runtime rt" and "resp_ok rt resp" and "length (encodeResponse rt resp i st) \<le> kMaxBufferSize"
  shows "\<exists>k. encodeResponse rt resp i st = wire k \<and> wire_ok rt k \<and> wire_msg rt k = ResponseMsg i st resp"
proof -
  obtain payload where pl: "RpcResponse_SerializeToString rt resp = Some payload"
    and m: "RpcResponse_ParseFromString rt payload = Some resp"
    using wire_runtime.response_wire [OF assms(1,2)] by blast
  let ?body = "Status_code st # payload_field payload"
  have enc: "encodeResponse rt resp i st = pack RESPONSE i ?body"
    by (simp add: encodeResponse_def encodeResponseBody_def pl appendPayload_field)
  have "length payload < 2 ^ 32" using assms(3) by (simp add: enc kMaxBufferSize_def)
  from decodeResponseBody_fields [OF this m, of st "new_packet RESPONSE i"]
  have "body_message rt RESPONSE i ?body = Some (ResponseMsg i st resp)"
    by (simp add: body_message_def decodeBody_def message_of_def)
  then have "wire_ok rt (RESPONSE, i, ?body)" "wire_msg rt (RESPONSE, i, ?body) = ResponseMsg i st resp"
    using assms(3) by (simp_all add: wire_ok_def wire_msg_def enc)
  with enc show ?thesis by (metis (no_types, lifting) case_prod_conv wire_def)
qed

section \<open>Calls\<close>

text \<open>A call: its id, service, method and request.\<close>

type_synonym remote_call = "u64 \<times> bytes \<times> bytes \<times> RpcRequest"

definition call_packet :: "pb_runtime \<Rightarrow> remote_call \<Rightarrow> bytes" where
  "call_packet rt = (\<lambda>(i, service, method, req). encodeRequest rt req i service method)"

definition call_ok :: "pb_runtime \<Rightarrow> remote_call \<Rightarrow> bool" where
  "call_ok rt = (\<lambda>(i, service, method, req). req_ok rt req \<and> length service \<le> 65535 \<and> length method \<le> 65535)"

definition same_call :: "remote_call \<Rightarrow> remote_call \<Rightarrow> bool" where
  "same_call = (\<lambda>(i, service, method, req) (i', service', method', req').
     i = i' \<and> service = service' \<and> method = method' \<and> req_same req req')"

text \<open>The specification: the calls are served one after the other on the state of the handlers.\<close>

fun serve_calls :: "'s RpcServer \<Rightarrow> remote_call list \<Rightarrow> 's \<Rightarrow> (u64 \<times> Status \<times> RpcResponse) list \<times> 's" where
  "serve_calls srv [] s = ([], s)"
| "serve_calls srv ((i, service, method, req) # cs) s =
     (let (resp, st, s) = call_service srv service method req s; (rs, s) = serve_calls srv cs s
      in ((i, st, resp) # rs, s))"

definition reply_packet :: "pb_runtime \<Rightarrow> u64 \<times> Status \<times> RpcResponse \<Rightarrow> bytes" where
  "reply_packet rt = (\<lambda>(i, st, resp). encodeResponse rt resp i st)"

lemma serve_calls_ids: "map fst (fst (serve_calls srv cs s)) = map fst cs"
  by (induction srv cs s rule: serve_calls.induct) (auto split: prod.split)

lemma calls_on_wire:
  assumes "wire_runtime rt" and "list_all (call_ok rt) cs" and "list_all (\<lambda>c. length (call_packet rt c) \<le> kMaxBufferSize) cs"
  shows "\<exists>ks cs'. map (call_packet rt) cs = map wire ks \<and> list_all (wire_ok rt) ks
    \<and> map (wire_msg rt) ks = map (\<lambda>(i, service, method, req). RequestMsg i service method req) cs'
    \<and> list_all2 same_call cs' cs"
  using assms(2,3)
proof (induction cs)
  case Nil
  show ?case by (intro exI [of _ "[]"]) simp
next
  case (Cons c cs)
  obtain i service meth req where c: "c = (i, service, meth, req)" by (cases c)
  then obtain k m where "call_packet rt c = wire k" "wire_ok rt k" "wire_msg rt k = RequestMsg i service meth m" "req_same m req"
    using request_on_wire [OF assms(1), of req service meth i] Cons.prems
    by (auto simp: call_ok_def call_packet_def)
  moreover obtain ks cs' where "map (call_packet rt) cs = map wire ks" "list_all (wire_ok rt) ks"
      "map (wire_msg rt) ks = map (\<lambda>(i, service, method, req). RequestMsg i service method req) cs'" "list_all2 same_call cs' cs"
    using Cons.IH Cons.prems by auto
  ultimately show ?case
    by (intro exI [of _ "k # ks"] exI [of _ "(i, service, meth, m) # cs'"]) (simp add: c same_call_def)
qed

lemma replies_on_wire:
  assumes "wire_runtime rt" and "list_all (\<lambda>(i, st, resp). resp_ok rt resp) rs"
    and "length (concat (map (reply_packet rt) rs)) \<le> kMaxBufferSize"
  shows "\<exists>ks. concat (map (reply_packet rt) rs) = concat (map wire ks) \<and> list_all (wire_ok rt) ks
    \<and> map (wire_msg rt) ks = map (\<lambda>(i, st, resp). ResponseMsg i st resp) rs"
  using assms(2,3)
proof (induction rs)
  case Nil
  show ?case by (intro exI [of _ "[]"]) simp
next
  case (Cons r rs)
  obtain i st resp where r: "r = (i, st, resp)" by (cases r)
  then obtain k where "reply_packet rt r = wire k" "wire_ok rt k" "wire_msg rt k = ResponseMsg i st resp"
    using response_on_wire [OF assms(1), of resp i st] Cons.prems by (auto simp: reply_packet_def)
  moreover obtain ks where "concat (map (reply_packet rt) rs) = concat (map wire ks)" "list_all (wire_ok rt) ks"
      "map (wire_msg rt) ks = map (\<lambda>(i, st, resp). ResponseMsg i st resp) rs"
    using Cons.IH Cons.prems by auto
  ultimately show ?case by (intro exI [of _ "k # ks"]) (simp add: r)
qed

lemma serve_all_calls:
  "serve_all rt time srv k (map (\<lambda>(i, service, method, req). RequestMsg i service method req) cs) s
    = (case serve_calls srv cs s of (rs, s') \<Rightarrow> (map (reply_packet rt) rs, s'))"
  by (induction srv cs s arbitrary: k rule: serve_calls.induct)
    (auto simp: serve_def reply_packet_def split: prod.split)

section \<open>The client's side\<close>

lemma receive_response:
  assumes "message_of p = ResponseMsg i st resp"
  shows "receive p c = complete i resp (on_breaker (if st = SUCCESS then recordSuccess else recordFailure (ce_now (rc_env c))) c)"
  using assms by (cases "pk_msg_type p") (auto simp: message_of_def receive_def handleResponse_def)

lemma receive_completes:
  assumes "message_of p = ResponseMsg i st resp" and "distinct (pending c)" and "i \<in> set (pending c)"
  shows "rc_completed (receive p c) = rc_completed c @ [(i, resp)] \<and> set (pending (receive p c)) = set (pending c) - {i}
    \<and> distinct (pending (receive p c))"
proof -
  let ?c = "on_breaker (if st = SUCCESS then recordSuccess else recordFailure (ce_now (rc_env c))) c"
  have "pending ?c = pending c" "rc_completed ?c = rc_completed c"
    using on_breaker_same by (auto simp: same_table_def pending_def)
  with complete_pending [of ?c i resp] assms show ?thesis by (simp add: receive_response)
qed

lemma receive_all_completes:
  assumes "map message_of ps = map (\<lambda>(i, st, resp). ResponseMsg i st resp) rs" and "distinct (pending c)"
    and "distinct (map fst rs)" and "set (map fst rs) \<subseteq> set (pending c)"
  shows "rc_completed (fold receive ps c) = rc_completed c @ map (\<lambda>(i, st, resp). (i, resp)) rs"
  using assms
proof (induction ps arbitrary: rs c)
  case (Cons p ps)
  then obtain i st resp rs' where rs: "rs = (i, st, resp) # rs'" and p: "message_of p = ResponseMsg i st resp"
    and ps: "map message_of ps = map (\<lambda>(i, st, resp). ResponseMsg i st resp) rs'"
    by auto
  have "rc_completed (receive p c) = rc_completed c @ [(i, resp)]" "set (pending (receive p c)) = set (pending c) - {i}"
      "distinct (pending (receive p c))"
    using receive_completes [OF p Cons.prems(2)] Cons.prems(4) rs by simp_all
  with Cons.IH [OF ps, of "receive p c"] Cons.prems(3,4) rs show ?case by auto
qed simp

lemma client_onMessage_completes:
  assumes "wire_runtime rt" and "list_all (\<lambda>(i, st, resp). resp_ok rt resp) rs" and "distinct (map fst rs)"
    and "set (map fst rs) \<subseteq> set (pending c)" and "distinct (pending c)"
    and "buf_inv b" and "content b = concat (map (reply_packet rt) rs)" and "length (content b) \<le> kMaxBufferSize"
  shows "rc_completed (fst (client_onMessage rt t i b c)) = rc_completed c @ map (\<lambda>(i, st, resp). (i, resp)) rs"
proof -
  obtain ks where ks: "content b = concat (map wire ks)" "list_all (wire_ok rt) ks"
      "map (wire_msg rt) ks = map (\<lambda>(i, st, resp). ResponseMsg i st resp) rs"
    using replies_on_wire [OF assms(1,2)] assms(7,8) by auto
  have "\<exists>b'. decode_loop rt (new_packet t i) b = (map (wire_msg rt) ks, b') \<and> buf_inv b' \<and> content b' = []"
    by (rule decode_loop_stream [where later = "[]" and rest = "[]"]) (use assms ks in \<open>simp_all add: unfinished_def\<close>)
  then obtain ps b' p' where d: "decode_all rt b (new_packet t i) = (ps, b', p')" "map message_of ps = map (wire_msg rt) ks"
    by (auto simp: decode_loop_def split: prod.splits)
  with receive_all_completes [of ps rs c] ks(3) assms(3-5) show ?thesis by (simp add: client_onMessage_def)
qed

section \<open>Calls served and answered\<close>

lemma server_replies:
  assumes "wire_runtime rt" and "list_all (call_ok rt) calls"
    and "buf_inv b" and "content b = concat (map (call_packet rt) calls)" and "length (content b) \<le> kMaxBufferSize"
  shows "\<exists>calls' b'. list_all2 same_call calls' calls \<and> content b' = []
    \<and> onMessage rt time t i srv b s
      = (map (reply_packet rt) (fst (serve_calls srv calls' s)), b', snd (serve_calls srv calls' s))"
proof -
  have short: "list_all (\<lambda>c. length (call_packet rt c) \<le> kMaxBufferSize) calls"
    using assms(4,5) member_le_sum_list [of _ "map (\<lambda>c. length (call_packet rt c)) calls"]
    by (force simp: list_all_iff length_concat comp_def)
  obtain ks calls' where ks: "content b = concat (map wire ks)" "list_all (wire_ok rt) ks"
      "map (wire_msg rt) ks = map (\<lambda>(i, service, method, req). RequestMsg i service method req) calls'"
      "list_all2 same_call calls' calls"
    using calls_on_wire [OF assms(1,2) short] assms(4) by metis
  have "\<exists>b'. decode_loop rt (new_packet t i) b = (map (wire_msg rt) ks, b') \<and> buf_inv b' \<and> content b' = []"
    by (rule decode_loop_stream [where later = "[]" and rest = "[]"]) (use assms ks in \<open>simp_all add: unfinished_def\<close>)
  then obtain b' where "decode_loop rt (new_packet t i) b = (map (wire_msg rt) ks, b')" "content b' = []" by blast
  then show ?thesis
    using ks(4) by (intro exI [of _ calls'] exI [of _ b'])
      (simp add: onMessage_serves ks(3) serve_all_calls split: prod.split)
qed

lemma calls_answered:
  assumes "wire_runtime rt" and "list_all (call_ok rt) calls"
    and "buf_inv b" and "content b = concat (map (call_packet rt) calls)" and "length (content b) \<le> kMaxBufferSize"
    and "ac_inv (reg, c)" and "distinct (map fst calls)" and "set (map fst calls) \<subseteq> set (pending c)"
    and "\<And>calls'. list_all2 same_call calls' calls \<Longrightarrow>
      list_all (\<lambda>(i, st, resp). resp_ok rt resp) (fst (serve_calls srv calls' s))"
  shows "\<exists>calls' sent b'. list_all2 same_call calls' calls \<and> content b' = []
    \<and> onMessage rt time t i srv b s = (sent, b', snd (serve_calls srv calls' s))
    \<and> sent = map (reply_packet rt) (fst (serve_calls srv calls' s))
    \<and> (\<forall>cb t' i'. buf_inv cb \<and> content cb = concat sent \<and> length (content cb) \<le> kMaxBufferSize \<longrightarrow>
        rc_completed (fst (client_onMessage rt t' i' cb c))
          = rc_completed c @ map (\<lambda>(i, st, resp). (i, resp)) (fst (serve_calls srv calls' s)))"
proof -
  obtain calls' b' where same: "list_all2 same_call calls' calls" and b': "content b' = []"
    and m: "onMessage rt time t i srv b s
      = (map (reply_packet rt) (fst (serve_calls srv calls' s)), b', snd (serve_calls srv calls' s))"
    using server_replies [OF assms(1-5), where time = time and t = t and i = i and srv = srv and s = s] by blast
  let ?rs = "fst (serve_calls srv calls' s)"
  have "map fst calls' = map fst calls" using same by induction (auto simp: same_call_def)
  then have ids: "map fst ?rs = map fst calls" by (simp add: serve_calls_ids)
  have pend: "distinct (pending c)" using assms(6) by (simp add: ac_inv_def)
  have "rc_completed (fst (client_onMessage rt t' i' cb c)) = rc_completed c @ map (\<lambda>(i, st, resp). (i, resp)) ?rs"
    if "buf_inv cb" "content cb = concat (map (reply_packet rt) ?rs)" "length (content cb) \<le> kMaxBufferSize" for cb t' i'
    using client_onMessage_completes [OF assms(1) assms(9) [OF same] _ _ pend that] ids assms(7,8) by metis
  with same b' m show ?thesis by blast
qed

section \<open>A concrete call\<close>

definition sample_call :: remote_call where
  "sample_call = (1, [69], [101], RpcRequest_new)"

definition sample_response :: RpcResponse where
  "sample_response = RpcResponse_new\<lparr>resp_success := True\<rparr>"

lemma sample_call_id [simp]: "fst sample_call = 1"
  by (simp add: sample_call_def)

lemma sample_call_length: "length (call_packet reference_runtime sample_call) = 32"
  using encodeRequestBody_fields [OF _ _ empty_request_serializes, of "[69]" "[101]"]
  by (auto simp: sample_call_def call_packet_def encodeRequest_def Let_def dest: arg_cong [where f = length])

lemma sample_call_ok: "call_ok reference_runtime sample_call"
  by (simp add: sample_call_def call_ok_def req_ok_def RpcRequest_new_def RpcRequest_ByteSizeLong_def map_size_def)

lemma sample_call_served:
  assumes "list_all2 same_call calls [sample_call]"
  shows "serve_calls echo_server calls () = ([(1, SUCCESS, sample_response)], ())"
  using assms
  by (auto simp: list_all2_Cons2 same_call_def req_same_def call_service_def echo_server_def callMethod_def
      callResponse_def RpcRequest_new_def RpcResponse_new_def sample_call_def sample_response_def)

end
