(* ===== verification/ServiceMessages.thy ===== *)
theory ServiceMessages
  imports Wire_Format
begin

text \<open>
  The other message classes of \<^verbatim>\<open>src/src/protocol/rpc_service.pb.cc\<close>: \<open>Heartbeat\<close>, the messages of
  service discovery, and those of the echo service.  Each class has its default and copy
  constructor, \<^verbatim>\<open>Clear\<close>, the \<^verbatim>\<open>switch\<close> of its parser, \<^verbatim>\<open>_InternalSerialize\<close>, \<^verbatim>\<open>ByteSizeLong\<close>,
  \<^verbatim>\<open>MergeFrom\<close>, \<^verbatim>\<open>CopyFrom\<close> and \<^verbatim>\<open>InternalSwap\<close>, over the loop and the runtime of \<open>Protobuf\<close>.

  For every class: parsing what a message serializes to merges that message into the one
  that parses it, hence round trips; the size it computes is the size it writes; the parser
  ends on every input; and both ways to copy agree.
\<close>

section \<open>Message classes\<close>

record ServiceRegister =
  sr_service_name :: bytes
  sr_node_id :: bytes
  sr_host :: bytes
  sr_port :: int
  sr_tags :: "(bytes \<times> bytes) list"
  sr_unknown :: bytes

record ServiceDiscover =
  sd_service_name :: bytes
  sd_unknown :: bytes

record ServiceNode =
  sn_node_id :: bytes
  sn_host :: bytes
  sn_port :: int
  sn_tags :: "(bytes \<times> bytes) list"
  sn_unknown :: bytes

record ServiceDiscoverResult =
  dr_nodes :: "ServiceNode list"
  dr_unknown :: bytes

record EchoRequest =
  eq_message :: bytes
  eq_unknown :: bytes

record EchoResponse =
  es_message :: bytes
  es_unknown :: bytes

text \<open>An integer field that is 0 is not written and takes no space.\<close>

definition write_int64 :: "pb_runtime \<Rightarrow> nat \<Rightarrow> int \<Rightarrow> bytes" where
  "write_int64 rt f i = (if i \<noteq> 0 then rt_WriteInt64 rt f i else [])"

definition write_int32 :: "pb_runtime \<Rightarrow> nat \<Rightarrow> int \<Rightarrow> bytes" where
  "write_int32 rt f i = (if i \<noteq> 0 then rt_WriteInt32 rt f i else [])"

definition int64_size :: "pb_runtime \<Rightarrow> int \<Rightarrow> nat" where
  "int64_size rt i = (if i \<noteq> 0 then 1 + rt_Int64Size rt i else 0)"

definition int32_size :: "pb_runtime \<Rightarrow> int \<Rightarrow> nat" where
  "int32_size rt i = (if i \<noteq> 0 then 1 + rt_Int32Size rt i else 0)"

section \<open>Operations of the message classes\<close>

subsection \<open>Heartbeat\<close>

definition Heartbeat_copy :: "Heartbeat \<Rightarrow> Heartbeat" where
  "Heartbeat_copy from =
     \<lparr>hb_service_name = hb_service_name from, hb_node_id = hb_node_id from,
       hb_timestamp = hb_timestamp from, hb_extra = merge_map [] (hb_extra from),
     hb_unknown = hb_unknown from\<rparr>"

definition Heartbeat_Clear :: "Heartbeat \<Rightarrow> Heartbeat" where
  "Heartbeat_Clear m =
     m\<lparr>hb_extra := [], hb_service_name := [], hb_node_id := [], hb_timestamp := 0, hb_unknown := []\<rparr>"

definition Heartbeat_field :: "pb_runtime \<Rightarrow> u32 \<Rightarrow> Heartbeat field_handler option" where
  "Heartbeat_field rt tag =
     (if drop_bit 3 tag = 1 \<and> (ucast tag :: u8) = 10
      then Some (string_value rt (\<lambda>s m. m\<lparr>hb_service_name := s\<rparr>))
      else if drop_bit 3 tag = 2 \<and> (ucast tag :: u8) = 18
      then Some (string_value rt (\<lambda>s m. m\<lparr>hb_node_id := s\<rparr>))
      else if drop_bit 3 tag = 3 \<and> (ucast tag :: u8) = 24
      then Some (varint_value rt (\<lambda>w m. m\<lparr>hb_timestamp := sint w\<rparr>))
      else if drop_bit 3 tag = 4 \<and> (ucast tag :: u8) = 34
      then Some (map_value rt 34 (\<lambda>(k, v) m. m\<lparr>hb_extra := AList.update k v (hb_extra m)\<rparr>))
      else None)"

definition Heartbeat_add_unknown :: "bytes \<Rightarrow> Heartbeat \<Rightarrow> Heartbeat" where
  "Heartbeat_add_unknown raw m = m\<lparr>hb_unknown := hb_unknown m @ raw\<rparr>"

definition Heartbeat_InternalParse ::
  "pb_runtime \<Rightarrow> nat \<Rightarrow> Heartbeat \<Rightarrow> bytes \<Rightarrow> (Heartbeat \<times> u32 option) step" where
  "Heartbeat_InternalParse rt = parse_fields rt (Heartbeat_field rt) Heartbeat_add_unknown"

definition Heartbeat_InternalSerialize :: "pb_runtime \<Rightarrow> Heartbeat \<Rightarrow> bytes" where
  "Heartbeat_InternalSerialize rt m =
     write_string rt 1 (hb_service_name m)
     @ write_string rt 2 (hb_node_id m)
     @ write_int64 rt 3 (hb_timestamp m)
     @ write_map rt 4 (hb_extra m)
     @ hb_unknown m"

definition Heartbeat_ByteSizeLong :: "pb_runtime \<Rightarrow> Heartbeat \<Rightarrow> nat" where
  "Heartbeat_ByteSizeLong rt m =
     map_size rt (hb_extra m)
     + string_size rt (hb_service_name m)
     + string_size rt (hb_node_id m)
     + int64_size rt (hb_timestamp m)
     + length (hb_unknown m)"

definition Heartbeat_MergeFrom :: "Heartbeat \<Rightarrow> Heartbeat \<Rightarrow> Heartbeat" where
  "Heartbeat_MergeFrom this from =
     (let m = this\<lparr>hb_unknown := hb_unknown this @ hb_unknown from,
                   hb_extra := merge_map (hb_extra this) (hb_extra from)\<rparr>;
          m = (if length (hb_service_name from) > 0 then m\<lparr>hb_service_name := hb_service_name from\<rparr> else m);
          m = (if length (hb_node_id from) > 0 then m\<lparr>hb_node_id := hb_node_id from\<rparr> else m)
      in if hb_timestamp from \<noteq> 0 then m\<lparr>hb_timestamp := hb_timestamp from\<rparr> else m)"

definition Heartbeat_CopyFrom :: "Heartbeat \<Rightarrow> Heartbeat \<Rightarrow> Heartbeat" where
  "Heartbeat_CopyFrom this from = Heartbeat_MergeFrom (Heartbeat_Clear this) from"

definition Heartbeat_Swap :: "Heartbeat \<Rightarrow> Heartbeat \<Rightarrow> Heartbeat \<times> Heartbeat" where
  "Heartbeat_Swap this other = (
     this\<lparr>hb_extra := hb_extra other, hb_service_name := hb_service_name other,
       hb_node_id := hb_node_id other, hb_timestamp := hb_timestamp other,
       hb_unknown := hb_unknown other\<rparr>,
     other\<lparr>hb_extra := hb_extra this, hb_service_name := hb_service_name this, hb_node_id := hb_node_id this,
       hb_timestamp := hb_timestamp this,
       hb_unknown := hb_unknown this\<rparr>)"

definition Heartbeat_SerializeToString :: "pb_runtime \<Rightarrow> Heartbeat \<Rightarrow> bytes option" where
  "Heartbeat_SerializeToString rt =
     serialize_with rt (Heartbeat_ByteSizeLong rt) (Heartbeat_InternalSerialize rt)"

definition Heartbeat_ParseFromString :: "pb_runtime \<Rightarrow> bytes \<Rightarrow> Heartbeat option" where
  "Heartbeat_ParseFromString rt = parse_with rt (Heartbeat_InternalParse rt) Heartbeat_new"

subsection \<open>ServiceRegister\<close>

definition ServiceRegister_new :: ServiceRegister where
  "ServiceRegister_new =
     \<lparr>sr_service_name = [], sr_node_id = [], sr_host = [], sr_port = 0, sr_tags = [], sr_unknown = []\<rparr>"

definition ServiceRegister_copy :: "ServiceRegister \<Rightarrow> ServiceRegister" where
  "ServiceRegister_copy from =
     \<lparr>sr_service_name = sr_service_name from, sr_node_id = sr_node_id from, sr_host = sr_host from,
       sr_port = sr_port from, sr_tags = merge_map [] (sr_tags from),
     sr_unknown = sr_unknown from\<rparr>"

definition ServiceRegister_Clear :: "ServiceRegister \<Rightarrow> ServiceRegister" where
  "ServiceRegister_Clear m =
     m\<lparr>sr_tags := [], sr_service_name := [], sr_node_id := [], sr_host := [], sr_port := 0, sr_unknown := []\<rparr>"

definition ServiceRegister_field :: "pb_runtime \<Rightarrow> u32 \<Rightarrow> ServiceRegister field_handler option" where
  "ServiceRegister_field rt tag =
     (if drop_bit 3 tag = 1 \<and> (ucast tag :: u8) = 10
      then Some (string_value rt (\<lambda>s m. m\<lparr>sr_service_name := s\<rparr>))
      else if drop_bit 3 tag = 2 \<and> (ucast tag :: u8) = 18
      then Some (string_value rt (\<lambda>s m. m\<lparr>sr_node_id := s\<rparr>))
      else if drop_bit 3 tag = 3 \<and> (ucast tag :: u8) = 26
      then Some (string_value rt (\<lambda>s m. m\<lparr>sr_host := s\<rparr>))
      else if drop_bit 3 tag = 4 \<and> (ucast tag :: u8) = 32
      then Some (varint_value rt (\<lambda>w m. m\<lparr>sr_port := sint (ucast w :: u32)\<rparr>))
      else if drop_bit 3 tag = 5 \<and> (ucast tag :: u8) = 42
      then Some (map_value rt 42 (\<lambda>(k, v) m. m\<lparr>sr_tags := AList.update k v (sr_tags m)\<rparr>))
      else None)"

definition ServiceRegister_add_unknown :: "bytes \<Rightarrow> ServiceRegister \<Rightarrow> ServiceRegister" where
  "ServiceRegister_add_unknown raw m = m\<lparr>sr_unknown := sr_unknown m @ raw\<rparr>"

definition ServiceRegister_InternalParse ::
  "pb_runtime \<Rightarrow> nat \<Rightarrow> ServiceRegister \<Rightarrow> bytes \<Rightarrow> (ServiceRegister \<times> u32 option) step" where
  "ServiceRegister_InternalParse rt = parse_fields rt (ServiceRegister_field rt) ServiceRegister_add_unknown"

definition ServiceRegister_InternalSerialize :: "pb_runtime \<Rightarrow> ServiceRegister \<Rightarrow> bytes" where
  "ServiceRegister_InternalSerialize rt m =
     write_string rt 1 (sr_service_name m)
     @ write_string rt 2 (sr_node_id m)
     @ write_string rt 3 (sr_host m)
     @ write_int32 rt 4 (sr_port m)
     @ write_map rt 5 (sr_tags m)
     @ sr_unknown m"

definition ServiceRegister_ByteSizeLong :: "pb_runtime \<Rightarrow> ServiceRegister \<Rightarrow> nat" where
  "ServiceRegister_ByteSizeLong rt m =
     map_size rt (sr_tags m)
     + string_size rt (sr_service_name m)
     + string_size rt (sr_node_id m)
     + string_size rt (sr_host m)
     + int32_size rt (sr_port m)
     + length (sr_unknown m)"

definition ServiceRegister_MergeFrom :: "ServiceRegister \<Rightarrow> ServiceRegister \<Rightarrow> ServiceRegister" where
  "ServiceRegister_MergeFrom this from =
     (let m = this\<lparr>sr_unknown := sr_unknown this @ sr_unknown from,
                   sr_tags := merge_map (sr_tags this) (sr_tags from)\<rparr>;
          m = (if length (sr_service_name from) > 0 then m\<lparr>sr_service_name := sr_service_name from\<rparr> else m);
          m = (if length (sr_node_id from) > 0 then m\<lparr>sr_node_id := sr_node_id from\<rparr> else m);
          m = (if length (sr_host from) > 0 then m\<lparr>sr_host := sr_host from\<rparr> else m)
      in if sr_port from \<noteq> 0 then m\<lparr>sr_port := sr_port from\<rparr> else m)"

definition ServiceRegister_CopyFrom :: "ServiceRegister \<Rightarrow> ServiceRegister \<Rightarrow> ServiceRegister" where
  "ServiceRegister_CopyFrom this from = ServiceRegister_MergeFrom (ServiceRegister_Clear this) from"

definition ServiceRegister_Swap :: "ServiceRegister \<Rightarrow> ServiceRegister \<Rightarrow> ServiceRegister \<times> ServiceRegister" where
  "ServiceRegister_Swap this other = (
     this\<lparr>sr_tags := sr_tags other, sr_service_name := sr_service_name other, sr_node_id := sr_node_id other,
       sr_host := sr_host other, sr_port := sr_port other,
       sr_unknown := sr_unknown other\<rparr>,
     other\<lparr>sr_tags := sr_tags this, sr_service_name := sr_service_name this, sr_node_id := sr_node_id this,
       sr_host := sr_host this, sr_port := sr_port this,
       sr_unknown := sr_unknown this\<rparr>)"

definition ServiceRegister_SerializeToString :: "pb_runtime \<Rightarrow> ServiceRegister \<Rightarrow> bytes option" where
  "ServiceRegister_SerializeToString rt =
     serialize_with rt (ServiceRegister_ByteSizeLong rt) (ServiceRegister_InternalSerialize rt)"

definition ServiceRegister_ParseFromString :: "pb_runtime \<Rightarrow> bytes \<Rightarrow> ServiceRegister option" where
  "ServiceRegister_ParseFromString rt = parse_with rt (ServiceRegister_InternalParse rt) ServiceRegister_new"

subsection \<open>ServiceDiscover\<close>

definition ServiceDiscover_new :: ServiceDiscover where
  "ServiceDiscover_new =
     \<lparr>sd_service_name = [], sd_unknown = []\<rparr>"

definition ServiceDiscover_copy :: "ServiceDiscover \<Rightarrow> ServiceDiscover" where
  "ServiceDiscover_copy from =
     \<lparr>sd_service_name = sd_service_name from,
     sd_unknown = sd_unknown from\<rparr>"

definition ServiceDiscover_Clear :: "ServiceDiscover \<Rightarrow> ServiceDiscover" where
  "ServiceDiscover_Clear m =
     m\<lparr>sd_service_name := [], sd_unknown := []\<rparr>"

definition ServiceDiscover_field :: "pb_runtime \<Rightarrow> u32 \<Rightarrow> ServiceDiscover field_handler option" where
  "ServiceDiscover_field rt tag =
     (if drop_bit 3 tag = 1 \<and> (ucast tag :: u8) = 10
      then Some (string_value rt (\<lambda>s m. m\<lparr>sd_service_name := s\<rparr>))
      else None)"

definition ServiceDiscover_add_unknown :: "bytes \<Rightarrow> ServiceDiscover \<Rightarrow> ServiceDiscover" where
  "ServiceDiscover_add_unknown raw m = m\<lparr>sd_unknown := sd_unknown m @ raw\<rparr>"

definition ServiceDiscover_InternalParse ::
  "pb_runtime \<Rightarrow> nat \<Rightarrow> ServiceDiscover \<Rightarrow> bytes \<Rightarrow> (ServiceDiscover \<times> u32 option) step" where
  "ServiceDiscover_InternalParse rt = parse_fields rt (ServiceDiscover_field rt) ServiceDiscover_add_unknown"

definition ServiceDiscover_InternalSerialize :: "pb_runtime \<Rightarrow> ServiceDiscover \<Rightarrow> bytes" where
  "ServiceDiscover_InternalSerialize rt m =
     write_string rt 1 (sd_service_name m)
     @ sd_unknown m"

definition ServiceDiscover_ByteSizeLong :: "pb_runtime \<Rightarrow> ServiceDiscover \<Rightarrow> nat" where
  "ServiceDiscover_ByteSizeLong rt m =
     string_size rt (sd_service_name m)
     + length (sd_unknown m)"

definition ServiceDiscover_MergeFrom :: "ServiceDiscover \<Rightarrow> ServiceDiscover \<Rightarrow> ServiceDiscover" where
  "ServiceDiscover_MergeFrom this from =
     (let m = this\<lparr>sd_unknown := sd_unknown this @ sd_unknown from\<rparr>
      in if length (sd_service_name from) > 0 then m\<lparr>sd_service_name := sd_service_name from\<rparr> else m)"

definition ServiceDiscover_CopyFrom :: "ServiceDiscover \<Rightarrow> ServiceDiscover \<Rightarrow> ServiceDiscover" where
  "ServiceDiscover_CopyFrom this from = ServiceDiscover_MergeFrom (ServiceDiscover_Clear this) from"

definition ServiceDiscover_Swap :: "ServiceDiscover \<Rightarrow> ServiceDiscover \<Rightarrow> ServiceDiscover \<times> ServiceDiscover" where
  "ServiceDiscover_Swap this other = (
     this\<lparr>sd_service_name := sd_service_name other,
       sd_unknown := sd_unknown other\<rparr>,
     other\<lparr>sd_service_name := sd_service_name this,
       sd_unknown := sd_unknown this\<rparr>)"

definition ServiceDiscover_SerializeToString :: "pb_runtime \<Rightarrow> ServiceDiscover \<Rightarrow> bytes option" where
  "ServiceDiscover_SerializeToString rt =
     serialize_with rt (ServiceDiscover_ByteSizeLong rt) (ServiceDiscover_InternalSerialize rt)"

definition ServiceDiscover_ParseFromString :: "pb_runtime \<Rightarrow> bytes \<Rightarrow> ServiceDiscover option" where
  "ServiceDiscover_ParseFromString rt = parse_with rt (ServiceDiscover_InternalParse rt) ServiceDiscover_new"

subsection \<open>ServiceNode\<close>

definition ServiceNode_new :: ServiceNode where
  "ServiceNode_new =
     \<lparr>sn_node_id = [], sn_host = [], sn_port = 0, sn_tags = [], sn_unknown = []\<rparr>"

definition ServiceNode_copy :: "ServiceNode \<Rightarrow> ServiceNode" where
  "ServiceNode_copy from =
     \<lparr>sn_node_id = sn_node_id from, sn_host = sn_host from, sn_port = sn_port from,
       sn_tags = merge_map [] (sn_tags from),
     sn_unknown = sn_unknown from\<rparr>"

definition ServiceNode_Clear :: "ServiceNode \<Rightarrow> ServiceNode" where
  "ServiceNode_Clear m =
     m\<lparr>sn_tags := [], sn_node_id := [], sn_host := [], sn_port := 0, sn_unknown := []\<rparr>"

definition ServiceNode_field :: "pb_runtime \<Rightarrow> u32 \<Rightarrow> ServiceNode field_handler option" where
  "ServiceNode_field rt tag =
     (if drop_bit 3 tag = 1 \<and> (ucast tag :: u8) = 10
      then Some (string_value rt (\<lambda>s m. m\<lparr>sn_node_id := s\<rparr>))
      else if drop_bit 3 tag = 2 \<and> (ucast tag :: u8) = 18
      then Some (string_value rt (\<lambda>s m. m\<lparr>sn_host := s\<rparr>))
      else if drop_bit 3 tag = 3 \<and> (ucast tag :: u8) = 24
      then Some (varint_value rt (\<lambda>w m. m\<lparr>sn_port := sint (ucast w :: u32)\<rparr>))
      else if drop_bit 3 tag = 4 \<and> (ucast tag :: u8) = 34
      then Some (map_value rt 34 (\<lambda>(k, v) m. m\<lparr>sn_tags := AList.update k v (sn_tags m)\<rparr>))
      else None)"

definition ServiceNode_add_unknown :: "bytes \<Rightarrow> ServiceNode \<Rightarrow> ServiceNode" where
  "ServiceNode_add_unknown raw m = m\<lparr>sn_unknown := sn_unknown m @ raw\<rparr>"

definition ServiceNode_InternalParse ::
  "pb_runtime \<Rightarrow> nat \<Rightarrow> ServiceNode \<Rightarrow> bytes \<Rightarrow> (ServiceNode \<times> u32 option) step" where
  "ServiceNode_InternalParse rt = parse_fields rt (ServiceNode_field rt) ServiceNode_add_unknown"

definition ServiceNode_InternalSerialize :: "pb_runtime \<Rightarrow> ServiceNode \<Rightarrow> bytes" where
  "ServiceNode_InternalSerialize rt m =
     write_string rt 1 (sn_node_id m)
     @ write_string rt 2 (sn_host m)
     @ write_int32 rt 3 (sn_port m)
     @ write_map rt 4 (sn_tags m)
     @ sn_unknown m"

definition ServiceNode_ByteSizeLong :: "pb_runtime \<Rightarrow> ServiceNode \<Rightarrow> nat" where
  "ServiceNode_ByteSizeLong rt m =
     map_size rt (sn_tags m)
     + string_size rt (sn_node_id m)
     + string_size rt (sn_host m)
     + int32_size rt (sn_port m)
     + length (sn_unknown m)"

definition ServiceNode_MergeFrom :: "ServiceNode \<Rightarrow> ServiceNode \<Rightarrow> ServiceNode" where
  "ServiceNode_MergeFrom this from =
     (let m = this\<lparr>sn_unknown := sn_unknown this @ sn_unknown from,
                   sn_tags := merge_map (sn_tags this) (sn_tags from)\<rparr>;
          m = (if length (sn_node_id from) > 0 then m\<lparr>sn_node_id := sn_node_id from\<rparr> else m);
          m = (if length (sn_host from) > 0 then m\<lparr>sn_host := sn_host from\<rparr> else m)
      in if sn_port from \<noteq> 0 then m\<lparr>sn_port := sn_port from\<rparr> else m)"

definition ServiceNode_CopyFrom :: "ServiceNode \<Rightarrow> ServiceNode \<Rightarrow> ServiceNode" where
  "ServiceNode_CopyFrom this from = ServiceNode_MergeFrom (ServiceNode_Clear this) from"

definition ServiceNode_Swap :: "ServiceNode \<Rightarrow> ServiceNode \<Rightarrow> ServiceNode \<times> ServiceNode" where
  "ServiceNode_Swap this other = (
     this\<lparr>sn_tags := sn_tags other, sn_node_id := sn_node_id other, sn_host := sn_host other,
       sn_port := sn_port other,
       sn_unknown := sn_unknown other\<rparr>,
     other\<lparr>sn_tags := sn_tags this, sn_node_id := sn_node_id this, sn_host := sn_host this,
       sn_port := sn_port this,
       sn_unknown := sn_unknown this\<rparr>)"

definition ServiceNode_SerializeToString :: "pb_runtime \<Rightarrow> ServiceNode \<Rightarrow> bytes option" where
  "ServiceNode_SerializeToString rt =
     serialize_with rt (ServiceNode_ByteSizeLong rt) (ServiceNode_InternalSerialize rt)"

definition ServiceNode_ParseFromString :: "pb_runtime \<Rightarrow> bytes \<Rightarrow> ServiceNode option" where
  "ServiceNode_ParseFromString rt = parse_with rt (ServiceNode_InternalParse rt) ServiceNode_new"

subsection \<open>ServiceDiscoverResult\<close>

definition ServiceDiscoverResult_new :: ServiceDiscoverResult where
  "ServiceDiscoverResult_new = \<lparr>dr_nodes = [], dr_unknown = []\<rparr>"

definition ServiceDiscoverResult_copy :: "ServiceDiscoverResult \<Rightarrow> ServiceDiscoverResult" where
  "ServiceDiscoverResult_copy from = \<lparr>dr_nodes = dr_nodes from, dr_unknown = dr_unknown from\<rparr>"

definition ServiceDiscoverResult_Clear :: "ServiceDiscoverResult \<Rightarrow> ServiceDiscoverResult" where
  "ServiceDiscoverResult_Clear m = m\<lparr>dr_nodes := [], dr_unknown := []\<rparr>"

text \<open>\<^verbatim>\<open>ParseMessage\<close>: the runtime delimits the node's bytes, the node parses them, and the runtime
  refuses a node that did not end at its limit.\<close>

definition read_node :: "pb_runtime \<Rightarrow> bytes \<Rightarrow> (ServiceNode \<times> bytes) step" where
  "read_node rt p = step_bind (null_fails (rt_ReadMessage rt p)) (\<lambda>(sub, q).
     step_bind (ServiceNode_InternalParse rt (Suc (length sub)) ServiceNode_new sub) (\<lambda>(nd, e).
       if rt_LimitAccepted rt e then Done (nd, q) else Failed))"

definition ServiceDiscoverResult_field :: "pb_runtime \<Rightarrow> u32 \<Rightarrow> ServiceDiscoverResult field_handler option" where
  "ServiceDiscoverResult_field rt tag =
     (if drop_bit 3 tag = 1 \<and> (ucast tag :: u8) = 10
      then Some (repeat_field (read_node rt) 10 (\<lambda>nd m. m\<lparr>dr_nodes := dr_nodes m @ [nd]\<rparr>))
      else None)"

definition ServiceDiscoverResult_add_unknown :: "bytes \<Rightarrow> ServiceDiscoverResult \<Rightarrow> ServiceDiscoverResult" where
  "ServiceDiscoverResult_add_unknown raw m = m\<lparr>dr_unknown := dr_unknown m @ raw\<rparr>"

definition ServiceDiscoverResult_InternalParse :: "pb_runtime \<Rightarrow> nat \<Rightarrow> ServiceDiscoverResult \<Rightarrow> bytes
    \<Rightarrow> (ServiceDiscoverResult \<times> u32 option) step" where
  "ServiceDiscoverResult_InternalParse rt =
     parse_fields rt (ServiceDiscoverResult_field rt) ServiceDiscoverResult_add_unknown"

definition ServiceDiscoverResult_InternalSerialize :: "pb_runtime \<Rightarrow> ServiceDiscoverResult \<Rightarrow> bytes" where
  "ServiceDiscoverResult_InternalSerialize rt m =
     concat (map (\<lambda>nd. rt_WriteMessage rt 1 (ServiceNode_InternalSerialize rt nd)) (dr_nodes m))
     @ dr_unknown m"

definition ServiceDiscoverResult_ByteSizeLong :: "pb_runtime \<Rightarrow> ServiceDiscoverResult \<Rightarrow> nat" where
  "ServiceDiscoverResult_ByteSizeLong rt m =
     1 * length (dr_nodes m)
     + sum_list (map (\<lambda>nd. rt_MessageSize rt (ServiceNode_ByteSizeLong rt nd)) (dr_nodes m))
     + length (dr_unknown m)"

definition ServiceDiscoverResult_MergeFrom ::
  "ServiceDiscoverResult \<Rightarrow> ServiceDiscoverResult \<Rightarrow> ServiceDiscoverResult" where
  "ServiceDiscoverResult_MergeFrom this from =
     this\<lparr>dr_unknown := dr_unknown this @ dr_unknown from, dr_nodes := dr_nodes this @ dr_nodes from\<rparr>"

definition ServiceDiscoverResult_CopyFrom ::
  "ServiceDiscoverResult \<Rightarrow> ServiceDiscoverResult \<Rightarrow> ServiceDiscoverResult" where
  "ServiceDiscoverResult_CopyFrom this from = ServiceDiscoverResult_MergeFrom (ServiceDiscoverResult_Clear this) from"

definition ServiceDiscoverResult_Swap ::
  "ServiceDiscoverResult \<Rightarrow> ServiceDiscoverResult \<Rightarrow> ServiceDiscoverResult \<times> ServiceDiscoverResult" where
  "ServiceDiscoverResult_Swap this other = (
     this\<lparr>dr_nodes := dr_nodes other, dr_unknown := dr_unknown other\<rparr>,
     other\<lparr>dr_nodes := dr_nodes this, dr_unknown := dr_unknown this\<rparr>)"

definition ServiceDiscoverResult_SerializeToString :: "pb_runtime \<Rightarrow> ServiceDiscoverResult \<Rightarrow> bytes option" where
  "ServiceDiscoverResult_SerializeToString rt =
     serialize_with rt (ServiceDiscoverResult_ByteSizeLong rt) (ServiceDiscoverResult_InternalSerialize rt)"

definition ServiceDiscoverResult_ParseFromString :: "pb_runtime \<Rightarrow> bytes \<Rightarrow> ServiceDiscoverResult option" where
  "ServiceDiscoverResult_ParseFromString rt =
     parse_with rt (ServiceDiscoverResult_InternalParse rt) ServiceDiscoverResult_new"

subsection \<open>EchoRequest\<close>

definition EchoRequest_new :: EchoRequest where
  "EchoRequest_new =
     \<lparr>eq_message = [], eq_unknown = []\<rparr>"

definition EchoRequest_copy :: "EchoRequest \<Rightarrow> EchoRequest" where
  "EchoRequest_copy from =
     \<lparr>eq_message = eq_message from,
     eq_unknown = eq_unknown from\<rparr>"

definition EchoRequest_Clear :: "EchoRequest \<Rightarrow> EchoRequest" where
  "EchoRequest_Clear m =
     m\<lparr>eq_message := [], eq_unknown := []\<rparr>"

definition EchoRequest_field :: "pb_runtime \<Rightarrow> u32 \<Rightarrow> EchoRequest field_handler option" where
  "EchoRequest_field rt tag =
     (if drop_bit 3 tag = 1 \<and> (ucast tag :: u8) = 10
      then Some (string_value rt (\<lambda>s m. m\<lparr>eq_message := s\<rparr>))
      else None)"

definition EchoRequest_add_unknown :: "bytes \<Rightarrow> EchoRequest \<Rightarrow> EchoRequest" where
  "EchoRequest_add_unknown raw m = m\<lparr>eq_unknown := eq_unknown m @ raw\<rparr>"

definition EchoRequest_InternalParse ::
  "pb_runtime \<Rightarrow> nat \<Rightarrow> EchoRequest \<Rightarrow> bytes \<Rightarrow> (EchoRequest \<times> u32 option) step" where
  "EchoRequest_InternalParse rt = parse_fields rt (EchoRequest_field rt) EchoRequest_add_unknown"

definition EchoRequest_InternalSerialize :: "pb_runtime \<Rightarrow> EchoRequest \<Rightarrow> bytes" where
  "EchoRequest_InternalSerialize rt m =
     write_string rt 1 (eq_message m)
     @ eq_unknown m"

definition EchoRequest_ByteSizeLong :: "pb_runtime \<Rightarrow> EchoRequest \<Rightarrow> nat" where
  "EchoRequest_ByteSizeLong rt m =
     string_size rt (eq_message m)
     + length (eq_unknown m)"

definition EchoRequest_MergeFrom :: "EchoRequest \<Rightarrow> EchoRequest \<Rightarrow> EchoRequest" where
  "EchoRequest_MergeFrom this from =
     (let m = this\<lparr>eq_unknown := eq_unknown this @ eq_unknown from\<rparr>
      in if length (eq_message from) > 0 then m\<lparr>eq_message := eq_message from\<rparr> else m)"

definition EchoRequest_CopyFrom :: "EchoRequest \<Rightarrow> EchoRequest \<Rightarrow> EchoRequest" where
  "EchoRequest_CopyFrom this from = EchoRequest_MergeFrom (EchoRequest_Clear this) from"

definition EchoRequest_Swap :: "EchoRequest \<Rightarrow> EchoRequest \<Rightarrow> EchoRequest \<times> EchoRequest" where
  "EchoRequest_Swap this other = (
     this\<lparr>eq_message := eq_message other,
       eq_unknown := eq_unknown other\<rparr>,
     other\<lparr>eq_message := eq_message this,
       eq_unknown := eq_unknown this\<rparr>)"

definition EchoRequest_SerializeToString :: "pb_runtime \<Rightarrow> EchoRequest \<Rightarrow> bytes option" where
  "EchoRequest_SerializeToString rt =
     serialize_with rt (EchoRequest_ByteSizeLong rt) (EchoRequest_InternalSerialize rt)"

definition EchoRequest_ParseFromString :: "pb_runtime \<Rightarrow> bytes \<Rightarrow> EchoRequest option" where
  "EchoRequest_ParseFromString rt = parse_with rt (EchoRequest_InternalParse rt) EchoRequest_new"

subsection \<open>EchoResponse\<close>

definition EchoResponse_new :: EchoResponse where
  "EchoResponse_new =
     \<lparr>es_message = [], es_unknown = []\<rparr>"

definition EchoResponse_copy :: "EchoResponse \<Rightarrow> EchoResponse" where
  "EchoResponse_copy from =
     \<lparr>es_message = es_message from,
     es_unknown = es_unknown from\<rparr>"

definition EchoResponse_Clear :: "EchoResponse \<Rightarrow> EchoResponse" where
  "EchoResponse_Clear m =
     m\<lparr>es_message := [], es_unknown := []\<rparr>"

definition EchoResponse_field :: "pb_runtime \<Rightarrow> u32 \<Rightarrow> EchoResponse field_handler option" where
  "EchoResponse_field rt tag =
     (if drop_bit 3 tag = 1 \<and> (ucast tag :: u8) = 10
      then Some (string_value rt (\<lambda>s m. m\<lparr>es_message := s\<rparr>))
      else None)"

definition EchoResponse_add_unknown :: "bytes \<Rightarrow> EchoResponse \<Rightarrow> EchoResponse" where
  "EchoResponse_add_unknown raw m = m\<lparr>es_unknown := es_unknown m @ raw\<rparr>"

definition EchoResponse_InternalParse ::
  "pb_runtime \<Rightarrow> nat \<Rightarrow> EchoResponse \<Rightarrow> bytes \<Rightarrow> (EchoResponse \<times> u32 option) step" where
  "EchoResponse_InternalParse rt = parse_fields rt (EchoResponse_field rt) EchoResponse_add_unknown"

definition EchoResponse_InternalSerialize :: "pb_runtime \<Rightarrow> EchoResponse \<Rightarrow> bytes" where
  "EchoResponse_InternalSerialize rt m =
     write_string rt 1 (es_message m)
     @ es_unknown m"

definition EchoResponse_ByteSizeLong :: "pb_runtime \<Rightarrow> EchoResponse \<Rightarrow> nat" where
  "EchoResponse_ByteSizeLong rt m =
     string_size rt (es_message m)
     + length (es_unknown m)"

definition EchoResponse_MergeFrom :: "EchoResponse \<Rightarrow> EchoResponse \<Rightarrow> EchoResponse" where
  "EchoResponse_MergeFrom this from =
     (let m = this\<lparr>es_unknown := es_unknown this @ es_unknown from\<rparr>
      in if length (es_message from) > 0 then m\<lparr>es_message := es_message from\<rparr> else m)"

definition EchoResponse_CopyFrom :: "EchoResponse \<Rightarrow> EchoResponse \<Rightarrow> EchoResponse" where
  "EchoResponse_CopyFrom this from = EchoResponse_MergeFrom (EchoResponse_Clear this) from"

definition EchoResponse_Swap :: "EchoResponse \<Rightarrow> EchoResponse \<Rightarrow> EchoResponse \<times> EchoResponse" where
  "EchoResponse_Swap this other = (
     this\<lparr>es_message := es_message other,
       es_unknown := es_unknown other\<rparr>,
     other\<lparr>es_message := es_message this,
       es_unknown := es_unknown this\<rparr>)"

definition EchoResponse_SerializeToString :: "pb_runtime \<Rightarrow> EchoResponse \<Rightarrow> bytes option" where
  "EchoResponse_SerializeToString rt =
     serialize_with rt (EchoResponse_ByteSizeLong rt) (EchoResponse_InternalSerialize rt)"

definition EchoResponse_ParseFromString :: "pb_runtime \<Rightarrow> bytes \<Rightarrow> EchoResponse option" where
  "EchoResponse_ParseFromString rt = parse_with rt (EchoResponse_InternalParse rt) EchoResponse_new"

section \<open>Messages that survive the wire\<close>

definition map_ok :: "pb_runtime \<Rightarrow> (bytes \<times> bytes) list \<Rightarrow> bool" where
  "map_ok rt es \<longleftrightarrow> distinct (map fst es) \<and> list_all (\<lambda>(k, v). rt_VerifyUTF8 rt k \<and> rt_VerifyUTF8 rt v) es"

definition Heartbeat_ok :: "pb_runtime \<Rightarrow> Heartbeat \<Rightarrow> bool" where
  "Heartbeat_ok rt m \<longleftrightarrow> rt_VerifyUTF8 rt (hb_service_name m)
     \<and> rt_VerifyUTF8 rt (hb_node_id m)
     \<and> - (2 ^ 63) \<le> hb_timestamp m \<and> hb_timestamp m < 2 ^ 63
     \<and> map_ok rt (hb_extra m)
     \<and> hb_unknown m = [] \<and> Heartbeat_ByteSizeLong rt m \<le> kMaxField"

definition ServiceRegister_ok :: "pb_runtime \<Rightarrow> ServiceRegister \<Rightarrow> bool" where
  "ServiceRegister_ok rt m \<longleftrightarrow> rt_VerifyUTF8 rt (sr_service_name m)
     \<and> rt_VerifyUTF8 rt (sr_node_id m)
     \<and> rt_VerifyUTF8 rt (sr_host m)
     \<and> - (2 ^ 31) \<le> sr_port m \<and> sr_port m < 2 ^ 31
     \<and> map_ok rt (sr_tags m)
     \<and> sr_unknown m = [] \<and> ServiceRegister_ByteSizeLong rt m \<le> kMaxField"

definition ServiceDiscover_ok :: "pb_runtime \<Rightarrow> ServiceDiscover \<Rightarrow> bool" where
  "ServiceDiscover_ok rt m \<longleftrightarrow> rt_VerifyUTF8 rt (sd_service_name m)
     \<and> sd_unknown m = [] \<and> ServiceDiscover_ByteSizeLong rt m \<le> kMaxField"

definition ServiceNode_ok :: "pb_runtime \<Rightarrow> ServiceNode \<Rightarrow> bool" where
  "ServiceNode_ok rt m \<longleftrightarrow> rt_VerifyUTF8 rt (sn_node_id m)
     \<and> rt_VerifyUTF8 rt (sn_host m)
     \<and> - (2 ^ 31) \<le> sn_port m \<and> sn_port m < 2 ^ 31
     \<and> map_ok rt (sn_tags m)
     \<and> sn_unknown m = [] \<and> ServiceNode_ByteSizeLong rt m \<le> kMaxField"

definition ServiceDiscoverResult_ok :: "pb_runtime \<Rightarrow> ServiceDiscoverResult \<Rightarrow> bool" where
  "ServiceDiscoverResult_ok rt m \<longleftrightarrow> list_all (ServiceNode_ok rt) (dr_nodes m)
     \<and> dr_unknown m = [] \<and> ServiceDiscoverResult_ByteSizeLong rt m \<le> kMaxField"

definition EchoRequest_ok :: "pb_runtime \<Rightarrow> EchoRequest \<Rightarrow> bool" where
  "EchoRequest_ok rt m \<longleftrightarrow> rt_VerifyUTF8 rt (eq_message m)
     \<and> eq_unknown m = [] \<and> EchoRequest_ByteSizeLong rt m \<le> kMaxField"

definition EchoResponse_ok :: "pb_runtime \<Rightarrow> EchoResponse \<Rightarrow> bool" where
  "EchoResponse_ok rt m \<longleftrightarrow> rt_VerifyUTF8 rt (es_message m)
     \<and> es_unknown m = [] \<and> EchoResponse_ByteSizeLong rt m \<le> kMaxField"

text \<open>The same message: a map field is the mapping, not the order of its entries.\<close>

definition Heartbeat_same :: "Heartbeat \<Rightarrow> Heartbeat \<Rightarrow> bool" where
  "Heartbeat_same m m' \<longleftrightarrow> m\<lparr>hb_extra := []\<rparr> = m'\<lparr>hb_extra := []\<rparr> \<and> map_of (hb_extra m) = map_of (hb_extra m')"

definition ServiceRegister_same :: "ServiceRegister \<Rightarrow> ServiceRegister \<Rightarrow> bool" where
  "ServiceRegister_same m m' \<longleftrightarrow> m\<lparr>sr_tags := []\<rparr> = m'\<lparr>sr_tags := []\<rparr> \<and> map_of (sr_tags m) = map_of (sr_tags m')"

definition ServiceNode_same :: "ServiceNode \<Rightarrow> ServiceNode \<Rightarrow> bool" where
  "ServiceNode_same m m' \<longleftrightarrow> m\<lparr>sn_tags := []\<rparr> = m'\<lparr>sn_tags := []\<rparr> \<and> map_of (sn_tags m) = map_of (sn_tags m')"

definition ServiceDiscoverResult_same :: "ServiceDiscoverResult \<Rightarrow> ServiceDiscoverResult \<Rightarrow> bool" where
  "ServiceDiscoverResult_same m m' \<longleftrightarrow> list_all2 ServiceNode_same (dr_nodes m) (dr_nodes m')
     \<and> dr_unknown m = dr_unknown m'"

section \<open>Lemmas for every class\<close>

text \<open>Both ways to copy give the same message, whatever the target held, and swapping exchanges.\<close>

lemmas class_ops =
  RpcRequest_copy_def RpcRequest_CopyFrom_def RpcRequest_MergeFrom_def RpcRequest_Clear_def RpcRequest_Swap_def
  RpcResponse_copy_def RpcResponse_CopyFrom_def RpcResponse_MergeFrom_def RpcResponse_Clear_def RpcResponse_Swap_def
  Heartbeat_copy_def Heartbeat_CopyFrom_def Heartbeat_MergeFrom_def Heartbeat_Clear_def Heartbeat_Swap_def
  ServiceRegister_copy_def ServiceRegister_CopyFrom_def ServiceRegister_MergeFrom_def ServiceRegister_Clear_def
  ServiceRegister_Swap_def
  ServiceDiscover_copy_def ServiceDiscover_CopyFrom_def ServiceDiscover_MergeFrom_def ServiceDiscover_Clear_def
  ServiceDiscover_Swap_def
  ServiceNode_copy_def ServiceNode_CopyFrom_def ServiceNode_MergeFrom_def ServiceNode_Clear_def ServiceNode_Swap_def
  ServiceDiscoverResult_copy_def ServiceDiscoverResult_CopyFrom_def ServiceDiscoverResult_MergeFrom_def
  ServiceDiscoverResult_Clear_def ServiceDiscoverResult_Swap_def
  EchoRequest_copy_def EchoRequest_CopyFrom_def EchoRequest_MergeFrom_def EchoRequest_Clear_def EchoRequest_Swap_def
  EchoResponse_copy_def EchoResponse_CopyFrom_def EchoResponse_MergeFrom_def EchoResponse_Clear_def EchoResponse_Swap_def

lemma copies_agree:
  "RpcRequest_CopyFrom m0 rq = RpcRequest_copy rq"
  "RpcResponse_CopyFrom m1 rp = RpcResponse_copy rp"
  "Heartbeat_CopyFrom m h = Heartbeat_copy h"
  "ServiceRegister_CopyFrom m2 r = ServiceRegister_copy r"
  "ServiceDiscover_CopyFrom m3 d = ServiceDiscover_copy d"
  "ServiceNode_CopyFrom m4 nd = ServiceNode_copy nd"
  "ServiceDiscoverResult_CopyFrom m5 l = ServiceDiscoverResult_copy l"
  "EchoRequest_CopyFrom m6 q = EchoRequest_copy q"
  "EchoResponse_CopyFrom m7 s = EchoResponse_copy s"
  by (simp_all add: class_ops Let_def)

lemma swaps_exchange:
  "RpcRequest_Swap rq rq' = (rq', rq)"
  "RpcResponse_Swap rp rp' = (rp', rp)"
  "Heartbeat_Swap h h' = (h', h)"
  "ServiceRegister_Swap r r' = (r', r)"
  "ServiceDiscover_Swap d d' = (d', d)"
  "ServiceNode_Swap nd nd' = (nd', nd)"
  "ServiceDiscoverResult_Swap l l' = (l', l)"
  "EchoRequest_Swap q q' = (q', q)"
  "EchoResponse_Swap s s' = (s', s)"
  by (simp_all add: class_ops)

context wire_runtime
begin

lemma parses_int64:
  assumes "fields_ok field" and "0 < f" "f < 16" "field (of_nat (8 * f)) = Some (varint_value rt put)"
    and "- (2 ^ 63) \<le> i" "i < 2 ^ 63"
    and "parses rt field unknown (if i \<noteq> 0 then put (word_of_int i) m else m) r m'"
  shows "parses rt field unknown m (write_int64 rt f i @ r) m'"
  unfolding write_int64_def
  by (rule parses_varint [OF assms(1,3,4) int64_field [OF assms(2,3,5,6)] assms(7)])

lemma parses_int32:
  assumes "fields_ok field" and "0 < f" "f < 16" "field (of_nat (8 * f)) = Some (varint_value rt put)"
    and "- (2 ^ 31) \<le> i" "i < 2 ^ 31"
    and "parses rt field unknown (if i \<noteq> 0 then put (word_of_int i) m else m) r m'"
  shows "parses rt field unknown m (write_int32 rt f i @ r) m'"
  unfolding write_int32_def
  by (rule parses_varint [OF assms(1,3,4) int32_field [OF assms(2,3,5,6)] assms(7)])

lemma length_write_int:
  assumes "0 < f" "f < 16"
  shows "length (write_int64 rt f i) = ServiceMessages.int64_size rt i"
    and "length (write_int32 rt f i) = ServiceMessages.int32_size rt i"
  using assms int64_size [OF assms] int32_size [OF assms]
  by (simp_all add: write_int64_def write_int32_def ServiceMessages.int64_size_def ServiceMessages.int32_size_def)

lemma ServiceNode_fields_ok [simp]: "fields_ok (ServiceNode_field rt)"
  by (simp add: fields_ok_def ServiceNode_field_def)

lemma read_node_ok [simp]: "handler_ok (repeat_field (read_node rt) tag add)"
proof (rule repeat_field_ok)
  show "read_node rt p \<noteq> OutOfFuel" for p
    by (auto simp: read_node_def step_bind_OutOfFuel ServiceNode_InternalParse_def
        simp del: parse_fields.simps dest!: parse_fields_fuel [OF ServiceNode_fields_ok, THEN notE, rotated] split: if_splits)
  show "read_node rt p = Done (e, q) \<Longrightarrow> length q \<le> length p" for p e q
    by (auto simp: read_node_def step_bind_Done split: if_splits dest: message_consumes)
qed

lemma class_fields_ok [simp]:
  "fields_ok (Heartbeat_field rt)" "fields_ok (ServiceRegister_field rt)" "fields_ok (ServiceDiscover_field rt)"
  "fields_ok (ServiceDiscoverResult_field rt)" "fields_ok (EchoRequest_field rt)" "fields_ok (EchoResponse_field rt)"
  by (simp_all add: fields_ok_def Heartbeat_field_def ServiceRegister_field_def ServiceDiscover_field_def
      ServiceDiscoverResult_field_def EchoRequest_field_def EchoResponse_field_def)

lemma class_sizes:
  "length (Heartbeat_InternalSerialize rt h) = Heartbeat_ByteSizeLong rt h"
  "length (ServiceRegister_InternalSerialize rt r) = ServiceRegister_ByteSizeLong rt r"
  "length (ServiceDiscover_InternalSerialize rt d) = ServiceDiscover_ByteSizeLong rt d"
  "length (ServiceNode_InternalSerialize rt nd) = ServiceNode_ByteSizeLong rt nd"
  "length (EchoRequest_InternalSerialize rt q) = EchoRequest_ByteSizeLong rt q"
  "length (EchoResponse_InternalSerialize rt s) = EchoResponse_ByteSizeLong rt s"
  by (simp_all add: Heartbeat_InternalSerialize_def Heartbeat_ByteSizeLong_def ServiceRegister_InternalSerialize_def
      ServiceRegister_ByteSizeLong_def ServiceDiscover_InternalSerialize_def ServiceDiscover_ByteSizeLong_def
      ServiceNode_InternalSerialize_def ServiceNode_ByteSizeLong_def EchoRequest_InternalSerialize_def
      EchoRequest_ByteSizeLong_def EchoResponse_InternalSerialize_def EchoResponse_ByteSizeLong_def
      length_write_string length_write_map length_write_int)

lemma ServiceDiscoverResult_size:
  "length (ServiceDiscoverResult_InternalSerialize rt m) = ServiceDiscoverResult_ByteSizeLong rt m"
proof -
  have "length (concat (map (\<lambda>nd. rt_WriteMessage rt 1 (ServiceNode_InternalSerialize rt nd)) ns))
      = length ns + sum_list (map (\<lambda>nd. rt_MessageSize rt (ServiceNode_ByteSizeLong rt nd)) ns)" for ns
    by (induction ns) (simp_all add: message_size class_sizes)
  then show ?thesis
    by (simp add: ServiceDiscoverResult_InternalSerialize_def ServiceDiscoverResult_ByteSizeLong_def)
qed

end

section \<open>Reading merges\<close>

context wire_runtime
begin

lemma Heartbeat_reads:
  assumes ok: "Heartbeat_ok rt b"
  shows "\<exists>m'. reads_as rt (Heartbeat_field rt) Heartbeat_add_unknown m
      (Heartbeat_InternalSerialize rt b) m' \<and> Heartbeat_same m' (Heartbeat_MergeFrom m b)"
proof -
  let ?p = "parses rt (Heartbeat_field rt) Heartbeat_add_unknown"
  define m1 where "m1 = (if hb_service_name b = [] then m else m\<lparr>hb_service_name := hb_service_name b\<rparr>)"
  define m2 where "m2 = (if hb_node_id b = [] then m1 else m1\<lparr>hb_node_id := hb_node_id b\<rparr>)"
  define m3 where "m3 = (if hb_timestamp b \<noteq> 0 then m2\<lparr>hb_timestamp := hb_timestamp b\<rparr> else m2)"
  define m4 where "m4 = m3\<lparr>hb_extra := merge_map (hb_extra m3) (map_entries rt (hb_extra b))\<rparr>"
  have size: "length (hb_service_name b) \<le> kMaxField"
    "length (hb_node_id b) \<le> kMaxField"
    "map_size rt (hb_extra b) \<le> kMaxField"
    using ok string_size_ge [of "hb_service_name b"] string_size_ge [of "hb_node_id b"]
    by (auto simp: Heartbeat_ok_def Heartbeat_ByteSizeLong_def)
  let ?w1 = "write_string rt 1 (hb_service_name b)"
  let ?w2 = "write_string rt 2 (hb_node_id b)"
  let ?w3 = "write_int64 rt 3 (hb_timestamp b)"
  let ?w4 = "write_map rt 4 (hb_extra b)"
  have "?p m (Heartbeat_InternalSerialize rt b @ r) m''" if r: "?p m4 r m''" for r m''
  proof -
    have p4: "?p m3 (?w4 @ r) m''"
      by (rule parses_map_field [where get = hb_extra and put = "\<lambda>x. hb_extra_update (\<lambda>_. x)"])
        (use ok size r in \<open>auto simp: Heartbeat_field_def Heartbeat_ok_def map_ok_def list_all_iff m4_def\<close>)
    have p3: "?p m2 (?w3 @ ?w4 @ r) m''"
      by (rule parses_int64 [where put = "\<lambda>w m. m\<lparr>hb_timestamp := sint w\<rparr>"])
        (use ok p4 in \<open>simp_all add: Heartbeat_field_def Heartbeat_ok_def m3_def sint_int64 cong: if_cong split del: if_split\<close>)
    have p2: "?p m1 (?w2 @ ?w3 @ ?w4 @ r) m''"
      by (rule parses_string [where put = "\<lambda>s m. m\<lparr>hb_node_id := s\<rparr>"])
        (use ok size p3 in \<open>simp_all add: Heartbeat_field_def Heartbeat_ok_def m2_def split del: if_split\<close>)
    have p1: "?p m (?w1 @ ?w2 @ ?w3 @ ?w4 @ r) m''"
      by (rule parses_string [where put = "\<lambda>s m. m\<lparr>hb_service_name := s\<rparr>"])
        (use ok size p2 in \<open>simp_all add: Heartbeat_field_def Heartbeat_ok_def m1_def split del: if_split\<close>)
    then show ?thesis using ok by (simp add: Heartbeat_InternalSerialize_def Heartbeat_ok_def)
  qed
  moreover have "Heartbeat_same m4 (Heartbeat_MergeFrom m b)"
    using ok by (auto simp: Heartbeat_same_def Heartbeat_MergeFrom_def Let_def Heartbeat_ok_def map_ok_def
        m1_def m2_def m3_def m4_def map_of_merge_map map_entries_distinct map_of_map_entries)
  ultimately show ?thesis unfolding reads_as_def by blast
qed

lemma ServiceRegister_reads:
  assumes ok: "ServiceRegister_ok rt b"
  shows "\<exists>m'. reads_as rt (ServiceRegister_field rt) ServiceRegister_add_unknown m
      (ServiceRegister_InternalSerialize rt b) m' \<and> ServiceRegister_same m' (ServiceRegister_MergeFrom m b)"
proof -
  let ?p = "parses rt (ServiceRegister_field rt) ServiceRegister_add_unknown"
  define m1 where "m1 = (if sr_service_name b = [] then m else m\<lparr>sr_service_name := sr_service_name b\<rparr>)"
  define m2 where "m2 = (if sr_node_id b = [] then m1 else m1\<lparr>sr_node_id := sr_node_id b\<rparr>)"
  define m3 where "m3 = (if sr_host b = [] then m2 else m2\<lparr>sr_host := sr_host b\<rparr>)"
  define m4 where "m4 = (if sr_port b \<noteq> 0 then m3\<lparr>sr_port := sr_port b\<rparr> else m3)"
  define m5 where "m5 = m4\<lparr>sr_tags := merge_map (sr_tags m4) (map_entries rt (sr_tags b))\<rparr>"
  have size: "length (sr_service_name b) \<le> kMaxField"
    "length (sr_node_id b) \<le> kMaxField"
    "length (sr_host b) \<le> kMaxField"
    "map_size rt (sr_tags b) \<le> kMaxField"
    using ok string_size_ge [of "sr_service_name b"] string_size_ge [of "sr_node_id b"] string_size_ge [of "sr_host b"]
    by (auto simp: ServiceRegister_ok_def ServiceRegister_ByteSizeLong_def)
  let ?w1 = "write_string rt 1 (sr_service_name b)"
  let ?w2 = "write_string rt 2 (sr_node_id b)"
  let ?w3 = "write_string rt 3 (sr_host b)"
  let ?w4 = "write_int32 rt 4 (sr_port b)"
  let ?w5 = "write_map rt 5 (sr_tags b)"
  have "?p m (ServiceRegister_InternalSerialize rt b @ r) m''" if r: "?p m5 r m''" for r m''
  proof -
    have p5: "?p m4 (?w5 @ r) m''"
      by (rule parses_map_field [where get = sr_tags and put = "\<lambda>x. sr_tags_update (\<lambda>_. x)"])
        (use ok size r in \<open>auto simp: ServiceRegister_field_def ServiceRegister_ok_def map_ok_def list_all_iff m5_def\<close>)
    have p4: "?p m3 (?w4 @ ?w5 @ r) m''"
      by (rule parses_int32 [where put = "\<lambda>w m. m\<lparr>sr_port := sint (ucast w :: u32)\<rparr>"])
        (use ok p5 in \<open>simp_all add: ServiceRegister_field_def ServiceRegister_ok_def m4_def sint_int32 cong: if_cong split del: if_split\<close>)
    have p3: "?p m2 (?w3 @ ?w4 @ ?w5 @ r) m''"
      by (rule parses_string [where put = "\<lambda>s m. m\<lparr>sr_host := s\<rparr>"])
        (use ok size p4 in \<open>simp_all add: ServiceRegister_field_def ServiceRegister_ok_def m3_def split del: if_split\<close>)
    have p2: "?p m1 (?w2 @ ?w3 @ ?w4 @ ?w5 @ r) m''"
      by (rule parses_string [where put = "\<lambda>s m. m\<lparr>sr_node_id := s\<rparr>"])
        (use ok size p3 in \<open>simp_all add: ServiceRegister_field_def ServiceRegister_ok_def m2_def split del: if_split\<close>)
    have p1: "?p m (?w1 @ ?w2 @ ?w3 @ ?w4 @ ?w5 @ r) m''"
      by (rule parses_string [where put = "\<lambda>s m. m\<lparr>sr_service_name := s\<rparr>"])
        (use ok size p2 in \<open>simp_all add: ServiceRegister_field_def ServiceRegister_ok_def m1_def split del: if_split\<close>)
    then show ?thesis using ok by (simp add: ServiceRegister_InternalSerialize_def ServiceRegister_ok_def)
  qed
  moreover have "ServiceRegister_same m5 (ServiceRegister_MergeFrom m b)"
    using ok by (auto simp: ServiceRegister_same_def ServiceRegister_MergeFrom_def Let_def ServiceRegister_ok_def map_ok_def
        m1_def m2_def m3_def m4_def m5_def map_of_merge_map map_entries_distinct map_of_map_entries)
  ultimately show ?thesis unfolding reads_as_def by blast
qed

lemma ServiceDiscover_reads:
  assumes ok: "ServiceDiscover_ok rt b"
  shows "reads_as rt (ServiceDiscover_field rt) ServiceDiscover_add_unknown m
    (ServiceDiscover_InternalSerialize rt b) (ServiceDiscover_MergeFrom m b)"
proof -
  let ?p = "parses rt (ServiceDiscover_field rt) ServiceDiscover_add_unknown"
  define m1 where "m1 = (if sd_service_name b = [] then m else m\<lparr>sd_service_name := sd_service_name b\<rparr>)"
  have size: "length (sd_service_name b) \<le> kMaxField"
    using ok string_size_ge [of "sd_service_name b"]
    by (auto simp: ServiceDiscover_ok_def ServiceDiscover_ByteSizeLong_def)
  let ?w1 = "write_string rt 1 (sd_service_name b)"
  have "?p m (ServiceDiscover_InternalSerialize rt b @ r) m''" if r: "?p m1 r m''" for r m''
  proof -
    have p1: "?p m (?w1 @ r) m''"
      by (rule parses_string [where put = "\<lambda>s m. m\<lparr>sd_service_name := s\<rparr>"])
        (use ok size r in \<open>simp_all add: ServiceDiscover_field_def ServiceDiscover_ok_def m1_def split del: if_split\<close>)
    then show ?thesis using ok by (simp add: ServiceDiscover_InternalSerialize_def ServiceDiscover_ok_def)
  qed
  moreover have "m1 = ServiceDiscover_MergeFrom m b"
    using ok by (auto simp: ServiceDiscover_MergeFrom_def Let_def ServiceDiscover_ok_def m1_def)
  ultimately show ?thesis unfolding reads_as_def by blast
qed

lemma ServiceNode_reads:
  assumes ok: "ServiceNode_ok rt b"
  shows "\<exists>m'. reads_as rt (ServiceNode_field rt) ServiceNode_add_unknown m
      (ServiceNode_InternalSerialize rt b) m' \<and> ServiceNode_same m' (ServiceNode_MergeFrom m b)"
proof -
  let ?p = "parses rt (ServiceNode_field rt) ServiceNode_add_unknown"
  define m1 where "m1 = (if sn_node_id b = [] then m else m\<lparr>sn_node_id := sn_node_id b\<rparr>)"
  define m2 where "m2 = (if sn_host b = [] then m1 else m1\<lparr>sn_host := sn_host b\<rparr>)"
  define m3 where "m3 = (if sn_port b \<noteq> 0 then m2\<lparr>sn_port := sn_port b\<rparr> else m2)"
  define m4 where "m4 = m3\<lparr>sn_tags := merge_map (sn_tags m3) (map_entries rt (sn_tags b))\<rparr>"
  have size: "length (sn_node_id b) \<le> kMaxField"
    "length (sn_host b) \<le> kMaxField"
    "map_size rt (sn_tags b) \<le> kMaxField"
    using ok string_size_ge [of "sn_node_id b"] string_size_ge [of "sn_host b"]
    by (auto simp: ServiceNode_ok_def ServiceNode_ByteSizeLong_def)
  let ?w1 = "write_string rt 1 (sn_node_id b)"
  let ?w2 = "write_string rt 2 (sn_host b)"
  let ?w3 = "write_int32 rt 3 (sn_port b)"
  let ?w4 = "write_map rt 4 (sn_tags b)"
  have "?p m (ServiceNode_InternalSerialize rt b @ r) m''" if r: "?p m4 r m''" for r m''
  proof -
    have p4: "?p m3 (?w4 @ r) m''"
      by (rule parses_map_field [where get = sn_tags and put = "\<lambda>x. sn_tags_update (\<lambda>_. x)"])
        (use ok size r in \<open>auto simp: ServiceNode_field_def ServiceNode_ok_def map_ok_def list_all_iff m4_def\<close>)
    have p3: "?p m2 (?w3 @ ?w4 @ r) m''"
      by (rule parses_int32 [where put = "\<lambda>w m. m\<lparr>sn_port := sint (ucast w :: u32)\<rparr>"])
        (use ok p4 in \<open>simp_all add: ServiceNode_field_def ServiceNode_ok_def m3_def sint_int32 cong: if_cong split del: if_split\<close>)
    have p2: "?p m1 (?w2 @ ?w3 @ ?w4 @ r) m''"
      by (rule parses_string [where put = "\<lambda>s m. m\<lparr>sn_host := s\<rparr>"])
        (use ok size p3 in \<open>simp_all add: ServiceNode_field_def ServiceNode_ok_def m2_def split del: if_split\<close>)
    have p1: "?p m (?w1 @ ?w2 @ ?w3 @ ?w4 @ r) m''"
      by (rule parses_string [where put = "\<lambda>s m. m\<lparr>sn_node_id := s\<rparr>"])
        (use ok size p2 in \<open>simp_all add: ServiceNode_field_def ServiceNode_ok_def m1_def split del: if_split\<close>)
    then show ?thesis using ok by (simp add: ServiceNode_InternalSerialize_def ServiceNode_ok_def)
  qed
  moreover have "ServiceNode_same m4 (ServiceNode_MergeFrom m b)"
    using ok by (auto simp: ServiceNode_same_def ServiceNode_MergeFrom_def Let_def ServiceNode_ok_def map_ok_def
        m1_def m2_def m3_def m4_def map_of_merge_map map_entries_distinct map_of_map_entries)
  ultimately show ?thesis unfolding reads_as_def by blast
qed

lemma EchoRequest_reads:
  assumes ok: "EchoRequest_ok rt b"
  shows "reads_as rt (EchoRequest_field rt) EchoRequest_add_unknown m
    (EchoRequest_InternalSerialize rt b) (EchoRequest_MergeFrom m b)"
proof -
  let ?p = "parses rt (EchoRequest_field rt) EchoRequest_add_unknown"
  define m1 where "m1 = (if eq_message b = [] then m else m\<lparr>eq_message := eq_message b\<rparr>)"
  have size: "length (eq_message b) \<le> kMaxField"
    using ok string_size_ge [of "eq_message b"]
    by (auto simp: EchoRequest_ok_def EchoRequest_ByteSizeLong_def)
  let ?w1 = "write_string rt 1 (eq_message b)"
  have "?p m (EchoRequest_InternalSerialize rt b @ r) m''" if r: "?p m1 r m''" for r m''
  proof -
    have p1: "?p m (?w1 @ r) m''"
      by (rule parses_string [where put = "\<lambda>s m. m\<lparr>eq_message := s\<rparr>"])
        (use ok size r in \<open>simp_all add: EchoRequest_field_def EchoRequest_ok_def m1_def split del: if_split\<close>)
    then show ?thesis using ok by (simp add: EchoRequest_InternalSerialize_def EchoRequest_ok_def)
  qed
  moreover have "m1 = EchoRequest_MergeFrom m b"
    using ok by (auto simp: EchoRequest_MergeFrom_def Let_def EchoRequest_ok_def m1_def)
  ultimately show ?thesis unfolding reads_as_def by blast
qed

lemma EchoResponse_reads:
  assumes ok: "EchoResponse_ok rt b"
  shows "reads_as rt (EchoResponse_field rt) EchoResponse_add_unknown m
    (EchoResponse_InternalSerialize rt b) (EchoResponse_MergeFrom m b)"
proof -
  let ?p = "parses rt (EchoResponse_field rt) EchoResponse_add_unknown"
  define m1 where "m1 = (if es_message b = [] then m else m\<lparr>es_message := es_message b\<rparr>)"
  have size: "length (es_message b) \<le> kMaxField"
    using ok string_size_ge [of "es_message b"]
    by (auto simp: EchoResponse_ok_def EchoResponse_ByteSizeLong_def)
  let ?w1 = "write_string rt 1 (es_message b)"
  have "?p m (EchoResponse_InternalSerialize rt b @ r) m''" if r: "?p m1 r m''" for r m''
  proof -
    have p1: "?p m (?w1 @ r) m''"
      by (rule parses_string [where put = "\<lambda>s m. m\<lparr>es_message := s\<rparr>"])
        (use ok size r in \<open>simp_all add: EchoResponse_field_def EchoResponse_ok_def m1_def split del: if_split\<close>)
    then show ?thesis using ok by (simp add: EchoResponse_InternalSerialize_def EchoResponse_ok_def)
  qed
  moreover have "m1 = EchoResponse_MergeFrom m b"
    using ok by (auto simp: EchoResponse_MergeFrom_def Let_def EchoResponse_ok_def m1_def)
  ultimately show ?thesis unfolding reads_as_def by blast
qed

lemma ServiceNode_roundtrip:
  assumes "ServiceNode_ok rt nd"
  shows "\<exists>nd'. parses rt (ServiceNode_field rt) ServiceNode_add_unknown ServiceNode_new
      (ServiceNode_InternalSerialize rt nd) nd' \<and> ServiceNode_same nd' nd"
proof -
  have "ServiceNode_same (ServiceNode_MergeFrom ServiceNode_new nd) nd"
    using assms by (auto simp: ServiceNode_same_def ServiceNode_MergeFrom_def ServiceNode_new_def ServiceNode_ok_def
        map_ok_def map_of_merge_map Let_def)
  with ServiceNode_reads [OF assms, of ServiceNode_new] show ?thesis
    by (auto dest!: reads_as_parses simp: ServiceNode_same_def)
qed

lemma read_node_written:
  assumes "parses rt (ServiceNode_field rt) ServiceNode_add_unknown ServiceNode_new v nd" and "length v \<le> kMaxField"
  shows "\<exists>body. rt_WriteMessage rt 1 v = of_nat 10 # body \<and> (\<forall>r. read_node rt (body @ r) = Done (nd, r))"
  using message_field [of 1 v] assms(2) limit_accepted parses_complete [OF ServiceNode_fields_ok assms(1)]
  by (auto simp: read_node_def ServiceNode_InternalParse_def simp del: parse_fields.simps)

lemma ServiceDiscoverResult_reads:
  assumes ok: "ServiceDiscoverResult_ok rt b"
  shows "\<exists>m'. reads_as rt (ServiceDiscoverResult_field rt) ServiceDiscoverResult_add_unknown m
      (ServiceDiscoverResult_InternalSerialize rt b) m'
    \<and> ServiceDiscoverResult_same m' (ServiceDiscoverResult_MergeFrom m b)"
proof -
  let ?p = "parses rt (ServiceDiscoverResult_field rt) ServiceDiscoverResult_add_unknown"
  let ?ser = "ServiceNode_InternalSerialize rt"
  have nodes: "\<forall>nd \<in> set (dr_nodes b). ServiceNode_ok rt nd" using ok by (simp add: ServiceDiscoverResult_ok_def list_all_iff)
  then have "\<forall>nd \<in> set (dr_nodes b). \<exists>nd'. parses rt (ServiceNode_field rt) ServiceNode_add_unknown ServiceNode_new
      (?ser nd) nd' \<and> ServiceNode_same nd' nd"
    using ServiceNode_roundtrip by blast
  then obtain g where g: "\<And>nd. nd \<in> set (dr_nodes b) \<Longrightarrow>
      parses rt (ServiceNode_field rt) ServiceNode_add_unknown ServiceNode_new (?ser nd) (g nd) \<and> ServiceNode_same (g nd) nd"
    by (metis (no_types, lifting))
  have len: "length (?ser nd) \<le> kMaxField" if "nd \<in> set (dr_nodes b)" for nd
    using nodes that by (auto simp: class_sizes ServiceNode_ok_def)
  define m1 where "m1 = m\<lparr>dr_nodes := dr_nodes m @ map g (dr_nodes b)\<rparr>"
  have fold: "foldl (\<lambda>m nd. m\<lparr>dr_nodes := dr_nodes m @ [g nd]\<rparr>) x ns = x\<lparr>dr_nodes := dr_nodes x @ map g ns\<rparr>" for x ns
    by (induction ns arbitrary: x) simp_all
  have "?p m (ServiceDiscoverResult_InternalSerialize rt b @ r) m''" if r: "?p m1 r m''" for r m''
  proof -
    have "?p m (concat (map (\<lambda>nd. rt_WriteMessage rt 1 (?ser nd)) (dr_nodes b)) @ r) m''"
    proof (rule parses_repeated [where k = 10 and g = g and rd = "read_node rt"
          and add = "\<lambda>nd m. m\<lparr>dr_nodes := dr_nodes m @ [nd]\<rparr>"])
      show "\<forall>nd \<in> set (dr_nodes b). \<exists>body. rt_WriteMessage rt 1 (?ser nd) = of_nat 10 # body
          \<and> (\<forall>r. read_node rt (body @ r) = Done (g nd, r))"
        using g len read_node_written by blast
    qed (use r in \<open>simp_all add: ServiceDiscoverResult_field_def fold m1_def\<close>)
    then show ?thesis using ok by (simp add: ServiceDiscoverResult_InternalSerialize_def ServiceDiscoverResult_ok_def)
  qed
  moreover have "list_all2 ServiceNode_same (map g (dr_nodes b)) (dr_nodes b)"
    using g by (auto simp: list_all2_map1 intro!: list.rel_refl_strong)
  then have "ServiceDiscoverResult_same m1 (ServiceDiscoverResult_MergeFrom m b)"
    using ok by (auto simp: ServiceDiscoverResult_same_def ServiceDiscoverResult_MergeFrom_def
        ServiceDiscoverResult_ok_def ServiceNode_same_def m1_def intro!: list_all2_appendI list.rel_refl)
  ultimately show ?thesis unfolding reads_as_def by blast
qed

end

section \<open>Every class as a payload\<close>

sublocale wire_runtime \<subseteq> hb_msg: payload_message
  "Heartbeat_SerializeToString rt" "Heartbeat_ParseFromString rt" "Heartbeat_ok rt" "Heartbeat_same"
proof unfold_locales
  fix m
  assume ok: "Heartbeat_ok rt m"
  then have "Heartbeat_same (Heartbeat_MergeFrom Heartbeat_new m) m"
    by (auto simp: Heartbeat_same_def Heartbeat_MergeFrom_def Heartbeat_new_def Heartbeat_ok_def map_ok_def map_of_merge_map Let_def)
  with Heartbeat_reads [OF ok, of Heartbeat_new] obtain m' where p: "parses rt (Heartbeat_field rt)
      Heartbeat_add_unknown Heartbeat_new (Heartbeat_InternalSerialize rt m) m'" "Heartbeat_same m' m"
    by (auto dest!: reads_as_parses simp: Heartbeat_same_def)
  show "\<exists>data m'. Heartbeat_SerializeToString rt m = Some data
      \<and> Heartbeat_ParseFromString rt data = Some m' \<and> Heartbeat_same m' m"
    using message_wire [where same = "Heartbeat_same" and m = m and sz = "Heartbeat_ByteSizeLong rt"
        and ser = "Heartbeat_InternalSerialize rt", OF class_fields_ok(1) p(1)] p(2) ok
    by (simp add: Heartbeat_SerializeToString_def Heartbeat_ParseFromString_def Heartbeat_InternalParse_def Heartbeat_ok_def)
qed (simp_all add: Heartbeat_same_def)

sublocale wire_runtime \<subseteq> register_msg: payload_message
  "ServiceRegister_SerializeToString rt" "ServiceRegister_ParseFromString rt" "ServiceRegister_ok rt" "ServiceRegister_same"
proof unfold_locales
  fix m
  assume ok: "ServiceRegister_ok rt m"
  then have "ServiceRegister_same (ServiceRegister_MergeFrom ServiceRegister_new m) m"
    by (auto simp: ServiceRegister_same_def ServiceRegister_MergeFrom_def ServiceRegister_new_def ServiceRegister_ok_def map_ok_def map_of_merge_map Let_def)
  with ServiceRegister_reads [OF ok, of ServiceRegister_new] obtain m' where p: "parses rt (ServiceRegister_field rt)
      ServiceRegister_add_unknown ServiceRegister_new (ServiceRegister_InternalSerialize rt m) m'" "ServiceRegister_same m' m"
    by (auto dest!: reads_as_parses simp: ServiceRegister_same_def)
  show "\<exists>data m'. ServiceRegister_SerializeToString rt m = Some data
      \<and> ServiceRegister_ParseFromString rt data = Some m' \<and> ServiceRegister_same m' m"
    using message_wire [where same = "ServiceRegister_same" and m = m and sz = "ServiceRegister_ByteSizeLong rt"
        and ser = "ServiceRegister_InternalSerialize rt", OF class_fields_ok(2) p(1)] p(2) ok
    by (simp add: ServiceRegister_SerializeToString_def ServiceRegister_ParseFromString_def ServiceRegister_InternalParse_def ServiceRegister_ok_def)
qed (simp_all add: ServiceRegister_same_def)

sublocale wire_runtime \<subseteq> discover_msg: payload_message
  "ServiceDiscover_SerializeToString rt" "ServiceDiscover_ParseFromString rt" "ServiceDiscover_ok rt" "(=)"
proof unfold_locales
  fix m
  assume ok: "ServiceDiscover_ok rt m"
  then have "ServiceDiscover_MergeFrom ServiceDiscover_new m = m"
    by (auto simp: ServiceDiscover_MergeFrom_def ServiceDiscover_new_def ServiceDiscover_ok_def Let_def)
  with ServiceDiscover_reads [OF ok, of ServiceDiscover_new] obtain m' where p: "parses rt (ServiceDiscover_field rt)
      ServiceDiscover_add_unknown ServiceDiscover_new (ServiceDiscover_InternalSerialize rt m) m'" "m' = m"
    by (auto dest!: reads_as_parses)
  show "\<exists>data m'. ServiceDiscover_SerializeToString rt m = Some data
      \<and> ServiceDiscover_ParseFromString rt data = Some m' \<and> m' = m"
    using message_wire [where same = "(=)" and m = m and sz = "ServiceDiscover_ByteSizeLong rt"
        and ser = "ServiceDiscover_InternalSerialize rt", OF class_fields_ok(3) p(1)] p(2) ok
    by (simp add: ServiceDiscover_SerializeToString_def ServiceDiscover_ParseFromString_def ServiceDiscover_InternalParse_def ServiceDiscover_ok_def)
qed simp_all

sublocale wire_runtime \<subseteq> node_msg: payload_message
  "ServiceNode_SerializeToString rt" "ServiceNode_ParseFromString rt" "ServiceNode_ok rt" "ServiceNode_same"
proof unfold_locales
  fix m
  assume ok: "ServiceNode_ok rt m"
  then have "ServiceNode_same (ServiceNode_MergeFrom ServiceNode_new m) m"
    by (auto simp: ServiceNode_same_def ServiceNode_MergeFrom_def ServiceNode_new_def ServiceNode_ok_def map_ok_def map_of_merge_map Let_def)
  with ServiceNode_reads [OF ok, of ServiceNode_new] obtain m' where p: "parses rt (ServiceNode_field rt)
      ServiceNode_add_unknown ServiceNode_new (ServiceNode_InternalSerialize rt m) m'" "ServiceNode_same m' m"
    by (auto dest!: reads_as_parses simp: ServiceNode_same_def)
  show "\<exists>data m'. ServiceNode_SerializeToString rt m = Some data
      \<and> ServiceNode_ParseFromString rt data = Some m' \<and> ServiceNode_same m' m"
    using message_wire [where same = "ServiceNode_same" and m = m and sz = "ServiceNode_ByteSizeLong rt"
        and ser = "ServiceNode_InternalSerialize rt", OF ServiceNode_fields_ok p(1)] p(2) ok
    by (simp add: ServiceNode_SerializeToString_def ServiceNode_ParseFromString_def ServiceNode_InternalParse_def ServiceNode_ok_def)
qed (simp_all add: ServiceNode_same_def)

sublocale wire_runtime \<subseteq> echo_req_msg: payload_message
  "EchoRequest_SerializeToString rt" "EchoRequest_ParseFromString rt" "EchoRequest_ok rt" "(=)"
proof unfold_locales
  fix m
  assume ok: "EchoRequest_ok rt m"
  then have "EchoRequest_MergeFrom EchoRequest_new m = m"
    by (auto simp: EchoRequest_MergeFrom_def EchoRequest_new_def EchoRequest_ok_def Let_def)
  with EchoRequest_reads [OF ok, of EchoRequest_new] obtain m' where p: "parses rt (EchoRequest_field rt)
      EchoRequest_add_unknown EchoRequest_new (EchoRequest_InternalSerialize rt m) m'" "m' = m"
    by (auto dest!: reads_as_parses)
  show "\<exists>data m'. EchoRequest_SerializeToString rt m = Some data
      \<and> EchoRequest_ParseFromString rt data = Some m' \<and> m' = m"
    using message_wire [where same = "(=)" and m = m and sz = "EchoRequest_ByteSizeLong rt"
        and ser = "EchoRequest_InternalSerialize rt", OF class_fields_ok(5) p(1)] p(2) ok
    by (simp add: EchoRequest_SerializeToString_def EchoRequest_ParseFromString_def EchoRequest_InternalParse_def EchoRequest_ok_def)
qed simp_all

sublocale wire_runtime \<subseteq> echo_resp_msg: payload_message
  "EchoResponse_SerializeToString rt" "EchoResponse_ParseFromString rt" "EchoResponse_ok rt" "(=)"
proof unfold_locales
  fix m
  assume ok: "EchoResponse_ok rt m"
  then have "EchoResponse_MergeFrom EchoResponse_new m = m"
    by (auto simp: EchoResponse_MergeFrom_def EchoResponse_new_def EchoResponse_ok_def Let_def)
  with EchoResponse_reads [OF ok, of EchoResponse_new] obtain m' where p: "parses rt (EchoResponse_field rt)
      EchoResponse_add_unknown EchoResponse_new (EchoResponse_InternalSerialize rt m) m'" "m' = m"
    by (auto dest!: reads_as_parses)
  show "\<exists>data m'. EchoResponse_SerializeToString rt m = Some data
      \<and> EchoResponse_ParseFromString rt data = Some m' \<and> m' = m"
    using message_wire [where same = "(=)" and m = m and sz = "EchoResponse_ByteSizeLong rt"
        and ser = "EchoResponse_InternalSerialize rt", OF class_fields_ok(6) p(1)] p(2) ok
    by (simp add: EchoResponse_SerializeToString_def EchoResponse_ParseFromString_def EchoResponse_InternalParse_def EchoResponse_ok_def)
qed simp_all

lemma ServiceDiscoverResult_same_sym: "ServiceDiscoverResult_same a b \<Longrightarrow> ServiceDiscoverResult_same b a"
  by (auto simp: ServiceDiscoverResult_same_def ServiceNode_same_def list_all2_conv_all_nth)

lemma ServiceDiscoverResult_same_trans:
  "ServiceDiscoverResult_same a b \<Longrightarrow> ServiceDiscoverResult_same b c \<Longrightarrow> ServiceDiscoverResult_same a c"
  by (auto simp: ServiceDiscoverResult_same_def ServiceNode_same_def list_all2_conv_all_nth)

sublocale wire_runtime \<subseteq> result_msg: payload_message
  "ServiceDiscoverResult_SerializeToString rt" "ServiceDiscoverResult_ParseFromString rt" "ServiceDiscoverResult_ok rt" "ServiceDiscoverResult_same"
proof unfold_locales
  fix m
  assume ok: "ServiceDiscoverResult_ok rt m"
  then have "ServiceDiscoverResult_same (ServiceDiscoverResult_MergeFrom ServiceDiscoverResult_new m) m"
    by (auto simp: ServiceDiscoverResult_same_def ServiceDiscoverResult_MergeFrom_def ServiceDiscoverResult_new_def ServiceDiscoverResult_ok_def ServiceNode_same_def intro!: list.rel_refl)
  with ServiceDiscoverResult_reads [OF ok, of ServiceDiscoverResult_new] obtain m' where p: "parses rt (ServiceDiscoverResult_field rt)
      ServiceDiscoverResult_add_unknown ServiceDiscoverResult_new (ServiceDiscoverResult_InternalSerialize rt m) m'" "ServiceDiscoverResult_same m' m"
    by (blast intro: reads_as_parses ServiceDiscoverResult_same_trans)
  show "\<exists>data m'. ServiceDiscoverResult_SerializeToString rt m = Some data
      \<and> ServiceDiscoverResult_ParseFromString rt data = Some m' \<and> ServiceDiscoverResult_same m' m"
    using message_wire [where same = "ServiceDiscoverResult_same" and m = m and sz = "ServiceDiscoverResult_ByteSizeLong rt"
        and ser = "ServiceDiscoverResult_InternalSerialize rt", OF class_fields_ok(4) p(1)] p(2) ok
    by (simp add: ServiceDiscoverResult_SerializeToString_def ServiceDiscoverResult_ParseFromString_def ServiceDiscoverResult_InternalParse_def ServiceDiscoverResult_ok_def)
qed (blast intro: ServiceDiscoverResult_same_sym ServiceDiscoverResult_same_trans)+

context wire_runtime
begin

lemmas heartbeat_wire = hb_msg.wire

lemmas register_wire = register_msg.wire

lemmas discover_wire = discover_msg.wire

lemmas result_wire = result_msg.wire

lemmas echo_request_wire = echo_req_msg.wire

lemmas echo_response_wire = echo_resp_msg.wire

lemma class_parse_fuel:
  assumes "length p < n"
  shows "Heartbeat_InternalParse rt n h p \<noteq> OutOfFuel" "ServiceRegister_InternalParse rt n r p \<noteq> OutOfFuel"
    "ServiceDiscover_InternalParse rt n d p \<noteq> OutOfFuel" "ServiceNode_InternalParse rt n nd p \<noteq> OutOfFuel"
    "ServiceDiscoverResult_InternalParse rt n l p \<noteq> OutOfFuel" "EchoRequest_InternalParse rt n q p \<noteq> OutOfFuel"
    "EchoResponse_InternalParse rt n s p \<noteq> OutOfFuel"
  unfolding Heartbeat_InternalParse_def ServiceRegister_InternalParse_def ServiceDiscover_InternalParse_def
    ServiceNode_InternalParse_def ServiceDiscoverResult_InternalParse_def EchoRequest_InternalParse_def
    EchoResponse_InternalParse_def
  using assms by (simp_all add: parse_fields_fuel del: parse_fields.simps)

lemma ServiceDiscoverResult_concat:
  assumes a: "ServiceDiscoverResult_ok rt a" and b: "ServiceDiscoverResult_ok rt b"
  shows "\<exists>m'. ServiceDiscoverResult_ParseFromString rt
      (ServiceDiscoverResult_InternalSerialize rt a @ ServiceDiscoverResult_InternalSerialize rt b) = Some m'
    \<and> ServiceDiscoverResult_same m' (ServiceDiscoverResult_MergeFrom a b)"
proof -
  let ?reads = "reads_as rt (ServiceDiscoverResult_field rt) ServiceDiscoverResult_add_unknown"
  obtain m1 where m1: "?reads ServiceDiscoverResult_new (ServiceDiscoverResult_InternalSerialize rt a) m1"
    "ServiceDiscoverResult_same m1 (ServiceDiscoverResult_MergeFrom ServiceDiscoverResult_new a)"
    using ServiceDiscoverResult_reads [OF a] by blast
  obtain m2 where m2: "?reads m1 (ServiceDiscoverResult_InternalSerialize rt b) m2"
    "ServiceDiscoverResult_same m2 (ServiceDiscoverResult_MergeFrom m1 b)"
    using ServiceDiscoverResult_reads [OF b] by blast
  have "ServiceDiscoverResult_same (ServiceDiscoverResult_MergeFrom m1 b) (ServiceDiscoverResult_MergeFrom a b)"
    using m1(2) by (auto simp: ServiceDiscoverResult_same_def ServiceDiscoverResult_MergeFrom_def
        ServiceDiscoverResult_new_def ServiceNode_same_def intro!: list_all2_appendI list.rel_refl)
  with m2(2) have "ServiceDiscoverResult_same m2 (ServiceDiscoverResult_MergeFrom a b)"
    by (rule ServiceDiscoverResult_same_trans)
  with reads_as_append [OF m1(1) m2(1)] show ?thesis
    unfolding ServiceDiscoverResult_ParseFromString_def ServiceDiscoverResult_InternalParse_def
    by (auto dest!: reads_as_parses parses_driver [OF class_fields_ok(4)])
qed

end

section \<open>Properties\<close>

text \<open>C14: a registration and a discovery result survive the wire: with UTF-8 text, ports of 32 bits
  and no unknown fields each serializes, and parsing the bytes gives back every field, the
  tags as a mapping, and the nodes of the result in their order.\<close>

theorem discovery_roundtrip:
  assumes "wire_runtime rt" and "ServiceRegister_ok rt r" and "ServiceDiscoverResult_ok rt l"
  shows "(\<exists>data r'. ServiceRegister_SerializeToString rt r = Some data
      \<and> ServiceRegister_ParseFromString rt data = Some r' \<and> ServiceRegister_same r' r)
    \<and> (\<exists>data l'. ServiceDiscoverResult_SerializeToString rt l = Some data
      \<and> ServiceDiscoverResult_ParseFromString rt data = Some l' \<and> ServiceDiscoverResult_same l' l)"
  using wire_runtime.register_wire [OF assms(1,2)] wire_runtime.result_wire [OF assms(1,3)] by blast

definition sample_node :: ServiceNode where
  "sample_node = \<lparr>sn_node_id = [110], sn_host = [104], sn_port = 80, sn_tags = [([107], [118])], sn_unknown = []\<rparr>"

lemma sample_node_ok: "ServiceNode_ok reference_runtime sample_node"
  by (simp add: ServiceNode_ok_def sample_node_def ServiceNode_ByteSizeLong_def map_ok_def wire_eval
      int32_size_def int_varint_def map_entry_def kMaxField_def)

lemma sample_node_size: "ServiceNode_ByteSizeLong reference_runtime sample_node = 16"
  by (simp add: sample_node_def ServiceNode_ByteSizeLong_def wire_eval int32_size_def int_varint_def map_entry_def)

theorem discovery_roundtrip_witness:
  "(\<exists>data r'. ServiceRegister_SerializeToString reference_runtime (ServiceRegister_new\<lparr>sr_port := 80\<rparr>) = Some data
      \<and> ServiceRegister_ParseFromString reference_runtime data = Some r'
      \<and> ServiceRegister_same r' (ServiceRegister_new\<lparr>sr_port := 80\<rparr>))
    \<and> (\<exists>data l'. ServiceDiscoverResult_SerializeToString reference_runtime
        \<lparr>dr_nodes = [sample_node, sample_node], dr_unknown = []\<rparr> = Some data
      \<and> ServiceDiscoverResult_ParseFromString reference_runtime data = Some l'
      \<and> ServiceDiscoverResult_same l' \<lparr>dr_nodes = [sample_node, sample_node], dr_unknown = []\<rparr>)"
  by (rule discovery_roundtrip [OF ref_rt.wire_runtime_axioms])
    (simp_all add: ServiceRegister_ok_def ServiceRegister_new_def ServiceRegister_ByteSizeLong_def map_ok_def
      wire_eval int32_size_def int_varint_def kMaxField_def ServiceDiscoverResult_ok_def sample_node_ok
      ServiceDiscoverResult_ByteSizeLong_def sample_node_size)

text \<open>the bytes of two messages, one behind the other, parse as the first merged with the
  second: later values replace earlier ones, maps are united, and repeated fields appended.\<close>

theorem concatenation_merges:
  assumes "wire_runtime rt" and "req_ok rt q" "req_ok rt q'" and "resp_ok rt s" "resp_ok rt s'"
    and "ServiceDiscoverResult_ok rt l" "ServiceDiscoverResult_ok rt l'"
  shows "(\<exists>m. RpcRequest_ParseFromString rt (RpcRequest_InternalSerialize rt q @ RpcRequest_InternalSerialize rt q') = Some m
      \<and> req_same m (RpcRequest_MergeFrom q q'))
    \<and> RpcResponse_ParseFromString rt (RpcResponse_InternalSerialize rt s @ RpcResponse_InternalSerialize rt s')
      = Some (RpcResponse_MergeFrom s s')
    \<and> (\<exists>m. ServiceDiscoverResult_ParseFromString rt
        (ServiceDiscoverResult_InternalSerialize rt l @ ServiceDiscoverResult_InternalSerialize rt l') = Some m
      \<and> ServiceDiscoverResult_same m (ServiceDiscoverResult_MergeFrom l l'))"
  using wire_runtime.RpcRequest_concat [OF assms(1-3)] wire_runtime.RpcResponse_concat [OF assms(1,4,5)]
    wire_runtime.ServiceDiscoverResult_concat [OF assms(1,6,7)] by blast

theorem concatenation_merges_witness:
  "RpcResponse_ParseFromString reference_runtime
      (RpcResponse_InternalSerialize reference_runtime (error_response [111])
       @ RpcResponse_InternalSerialize reference_runtime (error_response [107]))
    = Some (error_response [107])"
proof -
  have "resp_ok reference_runtime (error_response [c])" if "c < 128" for c
    using that by (simp add: resp_ok_def error_response_def RpcResponse_new_def RpcResponse_ByteSizeLong_def
        wire_eval kMaxField_def)
  moreover have "req_ok reference_runtime RpcRequest_new"
    by (simp add: req_ok_def RpcRequest_new_def RpcRequest_ByteSizeLong_def map_size_def)
  moreover have "ServiceDiscoverResult_ok reference_runtime \<lparr>dr_nodes = [sample_node], dr_unknown = []\<rparr>"
    by (simp add: ServiceDiscoverResult_ok_def sample_node_ok ServiceDiscoverResult_ByteSizeLong_def
        sample_node_size wire_eval kMaxField_def)
  ultimately show ?thesis
    using concatenation_merges [OF ref_rt.wire_runtime_axioms, of RpcRequest_new RpcRequest_new
        "error_response [111]" "error_response [107]" "\<lparr>dr_nodes = [sample_node], dr_unknown = []\<rparr>"
        "\<lparr>dr_nodes = [sample_node], dr_unknown = []\<rparr>"]
    by (simp add: error_response_def RpcResponse_MergeFrom_def RpcResponse_new_def Let_def)
qed

end
