(* ===== verification/EchoService.thy ===== *)
theory EchoService
  imports EndToEnd ServiceMessages
begin

text \<open>
  The echo service of \<^verbatim>\<open>src/examples/rpc\<close>, a user of the framework: the service with its one
  method (\<^verbatim>\<open>echo_service.cc\<close>), the server that registers it (\<^verbatim>\<open>rpc_server_main.cc\<close>), and what the
  client programs put into a call and read from its response (\<^verbatim>\<open>rpc_sync_test.cc\<close>).  The theorem
  composes it with the codec, the server and the client: what comes back is what was sent.
\<close>

section \<open>The service\<close>

text \<open>\<^verbatim>\<open>SerializeAsString\<close> is the empty string for a message the runtime refuses to serialize.\<close>

definition echo :: "pb_runtime \<Rightarrow> RpcRequest \<Rightarrow> RpcResponse \<Rightarrow> RpcResponse" where
  "echo rt request response =
     (case EchoRequest_ParseFromString rt (req_payload request) of
        None \<Rightarrow> response\<lparr>resp_success := False, resp_error_msg := str ''parse EchoRequest failed''\<rparr>
      | Some echoReq \<Rightarrow>
          (let echoResp = EchoResponse_new\<lparr>es_message := eq_message echoReq\<rparr>
           in response\<lparr>resp_success := True,
                resp_payload := case_option [] id (EchoResponse_SerializeToString rt echoResp)\<rparr>))"

definition serviceName :: bytes where
  "serviceName = str ''EchoService''"

definition new_EchoService :: "pb_runtime \<Rightarrow> 's RpcService" where
  "new_EchoService rt =
     registerMethod (str ''Echo'') (Some (\<lambda>req resp s. (NoThrow, echo rt req resp, s))) \<lparr>sv_methods = []\<rparr>"

definition echo_rpc_server :: "pb_runtime \<Rightarrow> 's RpcServer" where
  "echo_rpc_server rt = server_registerService (Some (serviceName, new_EchoService rt)) \<lparr>rs_services = []\<rparr>"

section \<open>The client programs\<close>

definition echo_request :: "pb_runtime \<Rightarrow> bytes \<Rightarrow> RpcRequest" where
  "echo_request rt msg =
     RpcRequest_new\<lparr>req_payload :=
       case_option [] id (EchoRequest_SerializeToString rt (EchoRequest_new\<lparr>eq_message := msg\<rparr>))\<rparr>"

definition echo_call :: "pb_runtime \<Rightarrow> u64 \<times> bytes \<Rightarrow> remote_call" where
  "echo_call rt = (\<lambda>(i, msg). (i, str ''EchoService'', str ''Echo'', echo_request rt msg))"

definition read_echo :: "pb_runtime \<Rightarrow> RpcResponse \<Rightarrow> bytes option" where
  "read_echo rt resp =
     (if resp_success resp then map_option es_message (EchoResponse_ParseFromString rt (resp_payload resp))
      else None)"

section \<open>What the service answers\<close>

text \<open>The response to a message, as the service serializes it.\<close>

definition echo_reply :: "pb_runtime \<Rightarrow> bytes \<Rightarrow> RpcResponse" where
  "echo_reply rt msg = RpcResponse_new\<lparr>resp_success := True,
     resp_payload := EchoResponse_InternalSerialize rt (EchoResponse_new\<lparr>es_message := msg\<rparr>)\<rparr>"

definition msg_ok :: "pb_runtime \<Rightarrow> bytes \<Rightarrow> bool" where
  "msg_ok rt msg \<longleftrightarrow> rt_VerifyUTF8 rt msg \<and> length msg \<le> kMaxBufferSize"

context wire_runtime
begin

lemma string_size_le: "length v < 2 ^ 32 \<Longrightarrow> string_size rt v \<le> length v + 6"
  using bytes_size_le [of v] by (simp add: string_size_def)

lemma echo_messages_ok:
  assumes "msg_ok rt msg"
  shows "EchoRequest_ok rt (EchoRequest_new\<lparr>eq_message := msg\<rparr>)"
    and "EchoResponse_ok rt (EchoResponse_new\<lparr>es_message := msg\<rparr>)"
    and "EchoRequest_ByteSizeLong rt (EchoRequest_new\<lparr>eq_message := msg\<rparr>) \<le> kMaxBufferSize + 6"
    and "EchoResponse_ByteSizeLong rt (EchoResponse_new\<lparr>es_message := msg\<rparr>) \<le> kMaxBufferSize + 6"
  using assms string_size_le [of msg]
  by (auto simp: msg_ok_def EchoRequest_ok_def EchoResponse_ok_def EchoRequest_new_def EchoResponse_new_def
      EchoRequest_ByteSizeLong_def EchoResponse_ByteSizeLong_def kMaxBufferSize_def kMaxField_def)

lemma echo_request_payload:
  assumes "msg_ok rt msg"
  shows "EchoRequest_ParseFromString rt (req_payload (echo_request rt msg)) = Some (EchoRequest_new\<lparr>eq_message := msg\<rparr>)"
    and "length (req_payload (echo_request rt msg)) \<le> kMaxBufferSize + 6"
proof -
  let ?m = "EchoRequest_new\<lparr>eq_message := msg\<rparr>"
  obtain data where d: "EchoRequest_SerializeToString rt ?m = Some data" "EchoRequest_ParseFromString rt data = Some ?m"
    using echo_request_wire [OF echo_messages_ok(1) [OF assms]] by blast
  then have "data = EchoRequest_InternalSerialize rt ?m"
    by (simp add: EchoRequest_SerializeToString_def serialize_with_def split: if_splits)
  with d show "EchoRequest_ParseFromString rt (req_payload (echo_request rt msg)) = Some ?m"
    and "length (req_payload (echo_request rt msg)) \<le> kMaxBufferSize + 6"
    using echo_messages_ok(3) [OF assms] by (simp_all add: echo_request_def class_sizes)
qed

lemma echo_response_payload:
  assumes "msg_ok rt msg"
  shows "EchoResponse_SerializeToString rt (EchoResponse_new\<lparr>es_message := msg\<rparr>) = Some (resp_payload (echo_reply rt msg))"
    and "read_echo rt (echo_reply rt msg) = Some msg"
    and "length (resp_payload (echo_reply rt msg)) \<le> kMaxBufferSize + 6"
proof -
  let ?m = "EchoResponse_new\<lparr>es_message := msg\<rparr>"
  obtain data where d: "EchoResponse_SerializeToString rt ?m = Some data" "EchoResponse_ParseFromString rt data = Some ?m"
    using echo_response_wire [OF echo_messages_ok(2) [OF assms]] by blast
  then have data: "data = resp_payload (echo_reply rt msg)"
    by (simp add: EchoResponse_SerializeToString_def serialize_with_def echo_reply_def split: if_splits)
  with d show "EchoResponse_SerializeToString rt ?m = Some (resp_payload (echo_reply rt msg))" by simp
  from data d have "EchoResponse_ParseFromString rt (resp_payload (echo_reply rt msg)) = Some ?m" by simp
  moreover have "resp_success (echo_reply rt msg)" by (simp add: echo_reply_def)
  ultimately show "read_echo rt (echo_reply rt msg) = Some msg" by (simp add: read_echo_def)
  show "length (resp_payload (echo_reply rt msg)) \<le> kMaxBufferSize + 6"
    using echo_messages_ok(4) [OF assms] by (simp add: echo_reply_def class_sizes)
qed

lemma echo_call_ok:
  assumes "msg_ok rt msg"
  shows "call_ok rt (echo_call rt (i, msg))"
proof -
  have "length (req_payload (echo_request rt msg)) < 2 ^ 32"
    using echo_request_payload(2) [OF assms] by (simp add: kMaxBufferSize_def)
  from bytes_size_le [OF this] echo_request_payload(2) [OF assms] show ?thesis
    by (simp add: call_ok_def echo_call_def req_ok_def echo_request_def RpcRequest_new_def RpcRequest_ByteSizeLong_def
        map_size_def kMaxField_def kMaxBufferSize_def str_def)
qed

lemma echo_reply_ok:
  assumes "msg_ok rt msg" and "rt_VerifyUTF8 rt []"
  shows "resp_ok rt (echo_reply rt msg)"
proof -
  have "length (resp_payload (echo_reply rt msg)) < 2 ^ 32"
    using echo_response_payload(3) [OF assms(1)] by (simp add: kMaxBufferSize_def)
  from bytes_size_le [OF this] echo_response_payload(3) [OF assms(1)] assms(2) show ?thesis
    by (simp add: resp_ok_def echo_reply_def RpcResponse_new_def RpcResponse_ByteSizeLong_def
        string_size_def kMaxField_def kMaxBufferSize_def)
qed

lemma echo_served:
  assumes "msg_ok rt msg" and "req_payload req = req_payload (echo_request rt msg)"
  shows "call_service (echo_rpc_server rt) (str ''EchoService'') (str ''Echo'') req s = (echo_reply rt msg, SUCCESS, s)"
proof -
  have "EchoRequest_ParseFromString rt (req_payload req) = Some (EchoRequest_new\<lparr>eq_message := msg\<rparr>)"
    using echo_request_payload(1) [OF assms(1)] assms(2) by simp
  then have "echo rt req RpcResponse_new = echo_reply rt msg"
    using echo_response_payload(1) [OF assms(1)] by (simp add: echo_def Let_def) (simp add: echo_reply_def)
  then show ?thesis
    by (simp add: call_service_def echo_rpc_server_def server_registerService_def serviceName_def new_EchoService_def
        registerMethod_def callMethod_def callResponse_def str_def) (simp add: echo_reply_def)
qed

lemma echo_calls_served:
  assumes "list_all2 same_call calls' (map (echo_call rt) ims)" and "list_all (\<lambda>(i, msg). msg_ok rt msg) ims"
  shows "serve_calls (echo_rpc_server rt) calls' s = (map (\<lambda>(i, msg). (i, SUCCESS, echo_reply rt msg)) ims, s)"
  using assms
proof (induction ims arbitrary: calls')
  case (Cons im ims)
  obtain i msg where im: "im = (i, msg)" by (cases im)
  with Cons.prems obtain req cs where c: "calls' = (i, str ''EchoService'', str ''Echo'', req) # cs"
    and req: "req_same req (echo_request rt msg)" and cs: "list_all2 same_call cs (map (echo_call rt) ims)"
    by (auto simp: list_all2_Cons2 echo_call_def same_call_def)
  have "call_service (echo_rpc_server rt) (str ''EchoService'') (str ''Echo'') req s = (echo_reply rt msg, SUCCESS, s)"
    using Cons.prems im req by (intro echo_served) (simp_all add: req_same_def)
  with Cons.IH [OF cs] Cons.prems im show ?case by (simp add: c)
qed simp

end

section \<open>Properties\<close>

text \<open>Any batch of echo calls, encoded by the client, served by the echo server and answered
  to the client, completes exactly these calls in order, and each response holds the text
  that was sent: UTF-8 texts that fit the connection's buffer come back unchanged.
\<close>

theorem echo_end_to_end:
  assumes "wire_runtime rt" and "rt_VerifyUTF8 rt []" and "list_all (\<lambda>(i, msg). msg_ok rt msg) ims"
    and "buf_inv b" and "content b = concat (map (\<lambda>im. call_packet rt (echo_call rt im)) ims)"
    and "length (content b) \<le> kMaxBufferSize"
    and "ac_inv (reg, c)" and "distinct (map fst ims)" and "set (map fst ims) \<subseteq> set (pending c)"
  shows "\<exists>sent b'. onMessage rt time t i (echo_rpc_server rt) b s = (sent, b', s) \<and> content b' = []
    \<and> sent = map (\<lambda>(i, msg). reply_packet rt (i, SUCCESS, echo_reply rt msg)) ims
    \<and> (\<forall>cb t' i'. buf_inv cb \<and> content cb = concat sent \<and> length (content cb) \<le> kMaxBufferSize \<longrightarrow>
        (\<exists>done. rc_completed (fst (client_onMessage rt t' i' cb c)) = rc_completed c @ done
          \<and> map (\<lambda>(i, resp). (i, read_echo rt resp)) done = map (\<lambda>(i, msg). (i, Some msg)) ims))"
proof -
  let ?calls = "map (echo_call rt) ims"
  have fst_call: "fst (echo_call rt im) = fst im" for im by (simp add: echo_call_def split: prod.split)
  have oks: "list_all (call_ok rt) ?calls"
    using assms(3) by (auto simp: list_all_iff wire_runtime.echo_call_ok [OF assms(1)])
  have ids: "distinct (map fst ?calls)" "set (map fst ?calls) \<subseteq> set (pending c)"
    using assms(8,9) by (simp_all add: comp_def fst_call)
  note served = wire_runtime.echo_calls_served [OF assms(1) _ assms(3), where s = s]
  have resps: "list_all (\<lambda>(i, st, resp). resp_ok rt resp) (fst (serve_calls (echo_rpc_server rt) calls' s))"
    if "list_all2 same_call calls' ?calls" for calls'
    using assms(3) wire_runtime.echo_reply_ok [OF assms(1) _ assms(2)]
    by (auto simp: served [OF that] list_all_iff)
  have content: "content b = concat (map (call_packet rt) ?calls)" using assms(5) by (simp add: comp_def)
  obtain calls' sent b' where same: "list_all2 same_call calls' ?calls" and b': "content b' = []"
    and sent: "onMessage rt time t i (echo_rpc_server rt) b s = (sent, b', snd (serve_calls (echo_rpc_server rt) calls' s))"
    and pks: "sent = map (reply_packet rt) (fst (serve_calls (echo_rpc_server rt) calls' s))"
    and compl: "\<forall>cb t' i'. buf_inv cb \<and> content cb = concat sent \<and> length (content cb) \<le> kMaxBufferSize \<longrightarrow>
        rc_completed (fst (client_onMessage rt t' i' cb c))
          = rc_completed c @ map (\<lambda>(i, st, resp). (i, resp)) (fst (serve_calls (echo_rpc_server rt) calls' s))"
    using calls_answered [OF assms(1) oks assms(4) content assms(6,7) ids resps, of time t i] by blast
  have "map (\<lambda>(i, resp). (i, read_echo rt resp)) (map (\<lambda>(i, st, resp). (i, resp))
      (map (\<lambda>(i, msg). (i, SUCCESS, echo_reply rt msg)) ims)) = map (\<lambda>(i, msg). (i, Some msg)) ims"
    using assms(3) by (auto simp: list_all_iff wire_runtime.echo_response_payload(2) [OF assms(1)])
  moreover have "sent = map (\<lambda>(i, msg). reply_packet rt (i, SUCCESS, echo_reply rt msg)) ims"
    using pks by (auto simp: served [OF same])
  ultimately show ?thesis
    using sent b' compl unfolding served [OF same] by (intro exI [of _ sent] exI [of _ b']) auto
qed

lemma echo_packet_length:
  "length (call_packet reference_runtime (echo_call reference_runtime (1, [104, 105]))) = 51"
proof -
  have pl: "RpcRequest_SerializeToString reference_runtime (echo_request reference_runtime [104, 105])
      = Some [10, 4, 10, 2, 104, 105]"
    by (simp add: RpcRequest_SerializeToString_def RpcRequest_InternalSerialize_def RpcRequest_ByteSizeLong_def
        echo_request_def RpcRequest_new_def EchoRequest_SerializeToString_def EchoRequest_InternalSerialize_def
        EchoRequest_ByteSizeLong_def EchoRequest_new_def wire_eval)
  show ?thesis
    using encodeRequestBody_fields [OF _ _ pl, of "str ''EchoService''" "str ''Echo''"]
    by (auto simp: call_packet_def echo_call_def encodeRequest_def Let_def str_def dest: arg_cong [where f = length])
qed

lemma echo_reply_length:
  "length (reply_packet reference_runtime (1, SUCCESS, echo_reply reference_runtime [104, 105])) \<le> kMaxBufferSize"
  by (simp add: reply_packet_def encodeResponse_def encodeResponseBody_def RpcResponse_SerializeToString_def
      RpcResponse_InternalSerialize_def RpcResponse_ByteSizeLong_def echo_reply_def RpcResponse_new_def
      EchoResponse_InternalSerialize_def EchoResponse_new_def wire_eval appendPayload_field kMaxBufferSize_def)

theorem echo_end_to_end_witness:
  "\<exists>sent b'. onMessage reference_runtime (\<lambda>k. 0) REQUEST 0 (echo_rpc_server reference_runtime)
      (buffer_of (call_packet reference_runtime (echo_call reference_runtime (1, [104, 105])))) () = (sent, b', ())
    \<and> map (\<lambda>(i, resp). (i, read_echo reference_runtime resp))
        (rc_completed (fst (client_onMessage reference_runtime REQUEST 0 (buffer_of (concat sent)) waiting_client)))
      = [(1, Some [104, 105])]"
proof -
  let ?c = "[(1, [104, 105])] :: (u64 \<times> bytes) list"
  let ?b = "buffer_of (call_packet reference_runtime (echo_call reference_runtime (1, [104, 105])))"
  have "\<exists>sent b'. onMessage reference_runtime (\<lambda>k. 0) REQUEST 0 (echo_rpc_server reference_runtime) ?b () = (sent, b', ())
    \<and> content b' = []
    \<and> sent = map (\<lambda>(i, msg). reply_packet reference_runtime (i, SUCCESS, echo_reply reference_runtime msg)) ?c
    \<and> (\<forall>cb t' i'. buf_inv cb \<and> content cb = concat sent \<and> length (content cb) \<le> kMaxBufferSize \<longrightarrow>
        (\<exists>done. rc_completed (fst (client_onMessage reference_runtime t' i' cb waiting_client))
            = rc_completed waiting_client @ done
          \<and> map (\<lambda>(i, resp). (i, read_echo reference_runtime resp)) done = map (\<lambda>(i, msg). (i, Some msg)) ?c))"
    by (rule echo_end_to_end [OF ref_rt.wire_runtime_axioms _ _ _ _ _ waiting_client_inv])
      (simp_all add: msg_ok_def echo_packet_length kMaxBufferSize_def waiting_client_def pending_def)
  then obtain sent b' where m: "onMessage reference_runtime (\<lambda>k. 0) REQUEST 0 (echo_rpc_server reference_runtime) ?b ()
      = (sent, b', ())"
    and sent: "sent = [reply_packet reference_runtime (1, SUCCESS, echo_reply reference_runtime [104, 105])]"
    and r: "\<forall>cb t' i'. buf_inv cb \<and> content cb = concat sent \<and> length (content cb) \<le> kMaxBufferSize \<longrightarrow>
        (\<exists>done. rc_completed (fst (client_onMessage reference_runtime t' i' cb waiting_client))
            = rc_completed waiting_client @ done
          \<and> map (\<lambda>(i, resp). (i, read_echo reference_runtime resp)) done = map (\<lambda>(i, msg). (i, Some msg)) ?c)"
    by auto
  have "rc_completed waiting_client = []" by (simp add: waiting_client_def new_AsyncClient_def)
  with r [rule_format, of "buffer_of (concat sent)" REQUEST 0] sent echo_reply_length m show ?thesis by auto
qed

end
