(* ===== verification/Channel.thy ===== *)
theory Channel
  imports Rpc_Prelude
begin

text \<open>
  The channel of a file descriptor, \<^verbatim>\<open>src/src/network/channel.cc\<close>, with its registration in
  the loop's epoll set (\<^verbatim>\<open>EventLoop::updateChannel\<close> and \<^verbatim>\<open>removeChannel\<close>).  The epoll set
  is the kernel's: \<open>epoll_ctl\<close> is its documented behaviour, which refuses to add what is there
  and to modify or delete what is not.  A call from another thread aborts the process: the
  result is then \<open>None\<close>.  The callbacks belong to the channel's owner and are an argument of
  \<^verbatim>\<open>handleEvent\<close>.
\<close>

section \<open>State\<close>

definition EPOLLIN :: u32 where "EPOLLIN = 0x1"
definition EPOLLPRI :: u32 where "EPOLLPRI = 0x2"
definition EPOLLOUT :: u32 where "EPOLLOUT = 0x4"
definition EPOLLERR :: u32 where "EPOLLERR = 0x8"
definition EPOLLHUP :: u32 where "EPOLLHUP = 0x10"
definition EPOLLRDHUP :: u32 where "EPOLLRDHUP = 0x2000"

definition kNoneEvent :: u32 where "kNoneEvent = 0"
definition kReadEvent :: u32 where "kReadEvent = EPOLLIN OR EPOLLPRI"
definition kWriteEvent :: u32 where "kWriteEvent = EPOLLOUT"

lemmas epoll_defs = EPOLLIN_def EPOLLPRI_def EPOLLOUT_def EPOLLERR_def EPOLLHUP_def EPOLLRDHUP_def
  kNoneEvent_def kReadEvent_def kWriteEvent_def

text \<open>The address of the channel is its identity, \<open>cn_id\<close>; the flags say which callbacks are
  set.\<close>

record Channel =
  cn_id :: nat
  cn_fd :: int
  cn_events :: u32
  cn_revents :: u32
  cn_index :: int
  cn_readCallback :: bool
  cn_writeCallback :: bool
  cn_errorCallback :: bool
  cn_closeCallback :: bool
  cn_tieSet :: bool

definition new_Channel :: "nat \<Rightarrow> int \<Rightarrow> Channel" where
  "new_Channel i fd = \<lparr>cn_id = i, cn_fd = fd, cn_events = 0, cn_revents = 0, cn_index = -1,
     cn_readCallback = False, cn_writeCallback = False, cn_errorCallback = False,
     cn_closeCallback = False, cn_tieSet = False\<rparr>"

definition isWriting :: "Channel \<Rightarrow> bool" where
  "isWriting c \<longleftrightarrow> cn_events c AND kWriteEvent \<noteq> 0"

definition isReading :: "Channel \<Rightarrow> bool" where
  "isReading c \<longleftrightarrow> cn_events c AND kReadEvent \<noteq> 0"

definition isNoneEvent :: "Channel \<Rightarrow> bool" where
  "isNoneEvent c \<longleftrightarrow> cn_events c = kNoneEvent"

section \<open>Registration\<close>

type_synonym epoll_set = "(int \<times> u32 \<times> nat) list"

datatype epoll_op = EPOLL_CTL_ADD | EPOLL_CTL_MOD | EPOLL_CTL_DEL

text \<open>Whether the call succeeds, and the set after it.\<close>

definition epoll_ctl :: "epoll_op \<Rightarrow> int \<Rightarrow> u32 \<times> nat \<Rightarrow> epoll_set \<Rightarrow> bool \<times> epoll_set" where
  "epoll_ctl oper fd event ep =
     (case oper of
        EPOLL_CTL_ADD \<Rightarrow> if map_of ep fd = None then (True, AList.update fd event ep) else (False, ep)
      | EPOLL_CTL_MOD \<Rightarrow> if map_of ep fd = None then (False, ep) else (True, AList.update fd event ep)
      | EPOLL_CTL_DEL \<Rightarrow> if map_of ep fd = None then (False, ep) else (True, AList.delete fd ep))"

definition updateChannel :: "bool \<Rightarrow> Channel \<Rightarrow> epoll_set \<Rightarrow> (Channel \<times> epoll_set) option" where
  "updateChannel inLoop c ep =
     (if \<not> inLoop then None
      else let event = (cn_events c, cn_id c) in
        if cn_index c = -1 \<or> cn_index c = 2 then
          Some (c\<lparr>cn_index := 1\<rparr>, snd (epoll_ctl EPOLL_CTL_ADD (cn_fd c) event ep))
        else if isNoneEvent c then
          Some (c\<lparr>cn_index := 2\<rparr>, snd (epoll_ctl EPOLL_CTL_DEL (cn_fd c) event ep))
        else Some (c, snd (epoll_ctl EPOLL_CTL_MOD (cn_fd c) event ep)))"

definition removeChannel :: "bool \<Rightarrow> Channel \<Rightarrow> epoll_set \<Rightarrow> (Channel \<times> epoll_set) option" where
  "removeChannel inLoop c ep =
     (if \<not> inLoop then None
      else Some (c\<lparr>cn_index := -1\<rparr>,
        if cn_index c = 1 then snd (epoll_ctl EPOLL_CTL_DEL (cn_fd c) (0, 0) ep) else ep))"

definition enableReading :: "bool \<Rightarrow> Channel \<Rightarrow> epoll_set \<Rightarrow> (Channel \<times> epoll_set) option" where
  "enableReading inLoop c ep = updateChannel inLoop (c\<lparr>cn_events := cn_events c OR kReadEvent\<rparr>) ep"

definition disableReading :: "bool \<Rightarrow> Channel \<Rightarrow> epoll_set \<Rightarrow> (Channel \<times> epoll_set) option" where
  "disableReading inLoop c ep = updateChannel inLoop (c\<lparr>cn_events := cn_events c AND NOT kReadEvent\<rparr>) ep"

definition enableWriting :: "bool \<Rightarrow> Channel \<Rightarrow> epoll_set \<Rightarrow> (Channel \<times> epoll_set) option" where
  "enableWriting inLoop c ep = updateChannel inLoop (c\<lparr>cn_events := cn_events c OR kWriteEvent\<rparr>) ep"

definition disableWriting :: "bool \<Rightarrow> Channel \<Rightarrow> epoll_set \<Rightarrow> (Channel \<times> epoll_set) option" where
  "disableWriting inLoop c ep = updateChannel inLoop (c\<lparr>cn_events := cn_events c AND NOT kWriteEvent\<rparr>) ep"

definition disableAll :: "bool \<Rightarrow> Channel \<Rightarrow> epoll_set \<Rightarrow> (Channel \<times> epoll_set) option" where
  "disableAll inLoop c ep = updateChannel inLoop (c\<lparr>cn_events := kNoneEvent\<rparr>) ep"

text \<open>The destructor.\<close>

definition destroy_Channel :: "bool \<Rightarrow> Channel \<Rightarrow> epoll_set \<Rightarrow> (Channel \<times> epoll_set) option" where
  "destroy_Channel inLoop c ep = (if cn_index c \<noteq> -1 then removeChannel inLoop c ep else Some (c, ep))"

section \<open>Dispatch\<close>

datatype channel_cb = ReadCb | WriteCb | ErrorCb | CloseCb

definition cb_set :: "channel_cb \<Rightarrow> Channel \<Rightarrow> bool" where
  "cb_set k c = (case k of ReadCb \<Rightarrow> cn_readCallback c | WriteCb \<Rightarrow> cn_writeCallback c
     | ErrorCb \<Rightarrow> cn_errorCallback c | CloseCb \<Rightarrow> cn_closeCallback c)"

definition fire :: "(channel_cb \<Rightarrow> Channel \<times> 's \<Rightarrow> Channel \<times> 's) \<Rightarrow> channel_cb \<Rightarrow> Channel \<times> 's \<Rightarrow> Channel \<times> 's" where
  "fire call k cs = (if cb_set k (fst cs) then call k cs else cs)"

text \<open>\<open>alive\<close> is whether the weak reference to the owner can still be locked.\<close>

definition handleEvent ::
    "(channel_cb \<Rightarrow> Channel \<times> 's \<Rightarrow> Channel \<times> 's) \<Rightarrow> bool \<Rightarrow> Channel \<times> 's \<Rightarrow> Channel \<times> 's" where
  "handleEvent call alive cs =
     (if cn_tieSet (fst cs) \<and> \<not> alive then cs
      else if cn_revents (fst cs) AND EPOLLERR \<noteq> 0 then fire call CloseCb (fire call ErrorCb cs)
      else
        let cs = (if cn_revents (fst cs) AND EPOLLHUP \<noteq> 0 \<and> cn_revents (fst cs) AND EPOLLIN = 0
                  then fire call CloseCb cs else cs);
            cs = (if cn_revents (fst cs) AND (EPOLLIN OR EPOLLPRI) \<noteq> 0 then fire call ReadCb cs else cs);
            cs = (if cn_revents (fst cs) AND EPOLLRDHUP \<noteq> 0
                  then fire call CloseCb (fire call ReadCb cs) else cs)
        in if cn_revents (fst cs) AND EPOLLOUT \<noteq> 0 then fire call WriteCb cs else cs)"

section \<open>The channel and the epoll set agree\<close>

text \<open>A channel is in the set exactly when its index is 1, with the events it asks for.\<close>

definition registered :: "Channel \<Rightarrow> epoll_set \<Rightarrow> bool" where
  "registered c ep \<longleftrightarrow> cn_index c \<in> {-1, 1, 2}
     \<and> map_of ep (cn_fd c) = (if cn_index c = 1 then Some (cn_events c, cn_id c) else None)"

datatype channel_op = EnableReading | DisableReading | EnableWriting | DisableWriting | DisableAll | Remove

definition channel_op :: "channel_op \<Rightarrow> bool \<Rightarrow> Channel \<Rightarrow> epoll_set \<Rightarrow> (Channel \<times> epoll_set) option" where
  "channel_op k = (case k of EnableReading \<Rightarrow> enableReading | DisableReading \<Rightarrow> disableReading
     | EnableWriting \<Rightarrow> enableWriting | DisableWriting \<Rightarrow> disableWriting | DisableAll \<Rightarrow> disableAll
     | Remove \<Rightarrow> removeChannel)"

fun channel_ops :: "channel_op list \<Rightarrow> bool \<Rightarrow> Channel \<times> epoll_set \<Rightarrow> (Channel \<times> epoll_set) option" where
  "channel_ops [] inLoop ce = Some ce"
| "channel_ops (k # ks) inLoop ce =
     (case channel_op k inLoop (fst ce) (snd ce) of None \<Rightarrow> None | Some ce \<Rightarrow> channel_ops ks inLoop ce)"

lemma updateChannel_registered:
  assumes "registered c ep"
  shows "\<exists>c' ep'. updateChannel True (c\<lparr>cn_events := ev\<rparr>) ep = Some (c', ep') \<and> registered c' ep'
    \<and> cn_events c' = ev \<and> cn_fd c' = cn_fd c \<and> cn_id c' = cn_id c
    \<and> (\<forall>fd. fd \<noteq> cn_fd c \<longrightarrow> map_of ep' fd = map_of ep fd)"
  using assms
  by (auto simp: registered_def updateChannel_def epoll_ctl_def isNoneEvent_def kNoneEvent_def Let_def
      map_of_AList_update delete_conv')

lemma removeChannel_registered:
  assumes "registered c ep"
  shows "\<exists>c' ep'. removeChannel True c ep = Some (c', ep') \<and> registered c' ep'
    \<and> cn_index c' = -1 \<and> cn_fd c' = cn_fd c \<and> cn_id c' = cn_id c
    \<and> (\<forall>fd. fd \<noteq> cn_fd c \<longrightarrow> map_of ep' fd = map_of ep fd)"
  using assms
  by (auto simp: registered_def removeChannel_def epoll_ctl_def delete_conv')

lemma channel_op_registered:
  assumes "registered c ep"
  shows "\<exists>c' ep'. channel_op k True c ep = Some (c', ep') \<and> registered c' ep'
    \<and> cn_fd c' = cn_fd c \<and> cn_id c' = cn_id c \<and> (\<forall>fd. fd \<noteq> cn_fd c \<longrightarrow> map_of ep' fd = map_of ep fd)"
  using updateChannel_registered [OF assms] removeChannel_registered [OF assms]
  by (cases k) (fastforce simp: channel_op_def enableReading_def disableReading_def enableWriting_def
      disableWriting_def disableAll_def)+

section \<open>Properties\<close>



text \<open>A dead owner is never called; on \<^verbatim>\<open>EPOLLERR\<close> the error callback and then the close
  callback run and nothing else; otherwise reading comes before the close of \<^verbatim>\<open>EPOLLRDHUP\<close>,
  so the peer's last bytes are read first.\<close>

theorem dispatch_order:
  fixes log :: "channel_cb list"
  assumes "cn_readCallback c" "cn_writeCallback c" "cn_errorCallback c" "cn_closeCallback c"
  defines "run \<equiv> (\<lambda>alive. snd (handleEvent (\<lambda>k (c, l). (c, l @ [k])) alive (c, log)))"
  shows "(cn_tieSet c \<longrightarrow> run False = log)
    \<and> (cn_revents c AND EPOLLERR \<noteq> 0 \<longrightarrow> run True = log @ [ErrorCb, CloseCb])
    \<and> (cn_revents c = EPOLLIN OR EPOLLRDHUP \<longrightarrow> run True = log @ [ReadCb, ReadCb, CloseCb])
    \<and> (cn_revents c = EPOLLIN OR EPOLLOUT \<longrightarrow> run True = log @ [ReadCb, WriteCb])
    \<and> (cn_revents c = EPOLLHUP \<longrightarrow> run True = log @ [CloseCb])"
  using assms(1-4) unfolding run_def
  by (auto simp: handleEvent_def fire_def cb_set_def epoll_defs Let_def)

definition full_channel :: Channel where
  "full_channel = (new_Channel 1 7)\<lparr>cn_readCallback := True, cn_writeCallback := True,
     cn_errorCallback := True, cn_closeCallback := True, cn_revents := EPOLLHUP\<rparr>"

theorem dispatch_order_witness:
  "snd (handleEvent (\<lambda>k (c, l). (c, l @ [k])) True (full_channel, [])) = [CloseCb]"
  using dispatch_order [of full_channel "[]"] by (simp add: full_channel_def)

end
