(* ===== verification/Socket.thy ===== *)
theory Socket
  imports Rpc_Prelude
begin

text \<open>
  The owner of a descriptor, \<^verbatim>\<open>src/src/network/socket.cc\<close>.  Each method makes one system call: the
  calls made on the descriptor are recorded in order, and what the kernel answers is an argument.
\<close>

section \<open>Addresses, options and calls\<close>

record sockaddr_in =
  sin_family :: u16
  sin_port :: u16
  sin_addr :: u32

definition zero_addr :: sockaddr_in where
  "zero_addr = \<lparr>sin_family = 0, sin_port = 0, sin_addr = 0\<rparr>"

definition AF_INET :: u16 where "AF_INET = 2"
definition INADDR_ANY :: u32 where "INADDR_ANY = 0"

definition htons :: "u16 \<Rightarrow> u16" where
  "htons w = push_bit 8 w OR drop_bit 8 w"

datatype sockopt = TCP_NODELAY | SO_REUSEADDR | SO_REUSEPORT | SO_KEEPALIVE

datatype syscall = SysBind sockaddr_in | SysListen | SysAccept4 | SysShutdownWr | SysSetOpt sockopt int | SysClose

record Socket =
  so_fd :: int
  so_calls :: "syscall list"

text \<open>The pending error of a socket as \<^verbatim>\<open>getsockopt\<close> reports it: its own failure, or the value.\<close>

type_synonym so_error = "int + int"

text \<open>What \<^verbatim>\<open>accept4\<close> answers: an error number, or a descriptor and the peer's address.\<close>

type_synonym accept_answer = "int + int \<times> sockaddr_in"

section \<open>Methods\<close>

definition sys :: "syscall \<Rightarrow> Socket \<Rightarrow> Socket" where
  "sys c s = s\<lparr>so_calls := so_calls s @ [c]\<rparr>"

definition new_Socket :: "int \<Rightarrow> Socket" where
  "new_Socket sockfd = \<lparr>so_fd = sockfd, so_calls = []\<rparr>"

definition destroy_Socket :: "Socket \<Rightarrow> Socket" where
  "destroy_Socket s = sys SysClose s"

text \<open>\<open>ret\<close> is the result of the system call, which both methods compare with 0 and then ignore.\<close>

definition bindAddress :: "sockaddr_in \<Rightarrow> int \<Rightarrow> Socket \<Rightarrow> Socket" where
  "bindAddress localaddr ret s = (let s = sys (SysBind localaddr) s in if ret < 0 then s else s)"

definition socket_listen :: "int \<Rightarrow> Socket \<Rightarrow> Socket" where
  "socket_listen ret s = (let s = sys SysListen s in if ret < 0 then s else s)"

definition ECONNABORTED :: int where "ECONNABORTED = 103"
definition EPROTO :: int where "EPROTO = 71"
definition EMFILE :: int where "EMFILE = 24"

definition accept_recoverable :: "int list" where
  "accept_recoverable = [EAGAIN, ECONNABORTED, EINTR, EPROTO, EPERM, EMFILE]"

text \<open>\<open>peeraddr\<close> is the caller's buffer; the result is the descriptor, the buffer and \<^verbatim>\<open>errno\<close>.  Only the
  recoverable errors are stored back into \<^verbatim>\<open>errno\<close>; between reading and storing nothing changes it.\<close>

definition socket_accept :: "accept_answer \<Rightarrow> sockaddr_in \<Rightarrow> int \<Rightarrow> Socket \<Rightarrow> int \<times> sockaddr_in \<times> int \<times> Socket" where
  "socket_accept ans peeraddr errno s =
     (let s = sys SysAccept4 s in
      case ans of
        Inr (connfd, peer) \<Rightarrow> (connfd, peer, errno, s)
      | Inl e \<Rightarrow>
          (let errno = e; savedErrno = errno
           in (- 1, peeraddr, if savedErrno \<in> set accept_recoverable then savedErrno else errno, s)))"

definition shutdownWrite :: "Socket \<Rightarrow> Socket" where
  "shutdownWrite s = sys SysShutdownWr s"

definition setTcpNoDelay :: "bool \<Rightarrow> Socket \<Rightarrow> Socket" where
  "setTcpNoDelay on s = sys (SysSetOpt TCP_NODELAY (if on then 1 else 0)) s"

definition setReuseAddr :: "bool \<Rightarrow> Socket \<Rightarrow> Socket" where
  "setReuseAddr on s = sys (SysSetOpt SO_REUSEADDR (if on then 1 else 0)) s"

definition setReusePort :: "bool \<Rightarrow> Socket \<Rightarrow> Socket" where
  "setReusePort on s = sys (SysSetOpt SO_REUSEPORT (if on then 1 else 0)) s"

definition setKeepAlive :: "bool \<Rightarrow> Socket \<Rightarrow> Socket" where
  "setKeepAlive on s = sys (SysSetOpt SO_KEEPALIVE (if on then 1 else 0)) s"

definition getSocketError :: "so_error \<Rightarrow> int" where
  "getSocketError so = (case so of Inl errno \<Rightarrow> errno | Inr optval \<Rightarrow> optval)"

text \<open>\<open>None\<close>: the system call failed, and the address stays as it was cleared.\<close>

definition getPeerAddr :: "sockaddr_in option \<Rightarrow> sockaddr_in" where
  "getPeerAddr ans = (case ans of None \<Rightarrow> zero_addr | Some a \<Rightarrow> a)"

definition getLocalAddr :: "sockaddr_in option \<Rightarrow> sockaddr_in" where
  "getLocalAddr ans = (case ans of None \<Rightarrow> zero_addr | Some a \<Rightarrow> a)"

lemmas socket_defs = sys_def new_Socket_def destroy_Socket_def bindAddress_def socket_listen_def socket_accept_def
  shutdownWrite_def setTcpNoDelay_def setReuseAddr_def setReusePort_def setKeepAlive_def

section \<open>Lemmas\<close>

text \<open>The descriptor never changes, and only the destructor closes it.\<close>

lemma socket_fd [simp]:
  "so_fd (destroy_Socket s) = so_fd s" "so_fd (bindAddress a r s) = so_fd s" "so_fd (socket_listen r s) = so_fd s"
  "so_fd (snd (snd (snd (socket_accept ans p e s)))) = so_fd s" "so_fd (shutdownWrite s) = so_fd s"
  "so_fd (setTcpNoDelay on s) = so_fd s" "so_fd (setReuseAddr on s) = so_fd s" "so_fd (setReusePort on s) = so_fd s"
  "so_fd (setKeepAlive on s) = so_fd s"
  by (simp_all add: socket_defs Let_def split: sum.split prod.split)

definition closes :: "Socket \<Rightarrow> nat" where
  "closes s = length (filter (\<lambda>c. c = SysClose) (so_calls s))"

lemma closes_simps [simp]:
  "closes (new_Socket fd) = 0" "closes (destroy_Socket s) = Suc (closes s)" "closes (bindAddress a r s) = closes s"
  "closes (socket_listen r s) = closes s" "closes (snd (snd (snd (socket_accept ans p e s)))) = closes s"
  "closes (shutdownWrite s) = closes s" "closes (setTcpNoDelay on s) = closes s" "closes (setReuseAddr on s) = closes s"
  "closes (setReusePort on s) = closes s" "closes (setKeepAlive on s) = closes s"
  by (simp_all add: closes_def socket_defs Let_def split: sum.split prod.split)

text \<open>A failed \<^verbatim>\<open>accept\<close> gives no descriptor, leaves the caller's address and reports the kernel's error,
  recoverable or not.\<close>

lemma accept_reports:
  "socket_accept (Inl e) p errno s = (- 1, p, e, sys SysAccept4 s)"
  "socket_accept (Inr (fd, a)) p errno s = (fd, a, errno, sys SysAccept4 s)"
  by (simp_all add: socket_accept_def Let_def)

end
