(* ===== verification/TcpConnection.thy ===== *)
theory TcpConnection
  imports Channel Buffer Socket "HOL-Library.Sublist"
begin

text \<open>
  A connection, \<^verbatim>\<open>src/src/network/tcp_connection.cc\<close>: its state machine, its channel and its
  two buffers.  What it does to the outside is the list \<open>tc_effects\<close>: the bytes the kernel took,
  the half-close, the calls of its callbacks and what it queues in the loop.  The answers of
  \<^verbatim>\<open>write\<close>, \<^verbatim>\<open>readv\<close> and \<^verbatim>\<open>getsockopt\<close> and the clock are arguments.  The result \<open>None\<close> is a
  failed assertion: a call from a wrong thread or in a wrong state.
\<close>

section \<open>State\<close>

datatype StateE = kDisconnected | kConnecting | kConnected | kDisconnecting

datatype effect =
    Written bytes | ShutdownWrite
  | ConnectionCb StateE | CloseCallback
  | QueueWriteComplete | QueueSend bytes | QueueShutdown | QueueHandleClose

record TcpConnection =
  tc_state :: StateE
  tc_channel :: Channel
  tc_epoll :: epoll_set
  tc_connectionCallback :: bool
  tc_messageCallback :: bool
  tc_writeCompleteCallback :: bool
  tc_closeCallback :: bool
  tc_inputBuffer :: buffer
  tc_outputBuffer :: buffer
  tc_idleTimeoutSeconds :: int
  tc_lastActiveTimeMs :: int
  tc_effects :: "effect list"

definition emit :: "effect \<Rightarrow> TcpConnection \<Rightarrow> TcpConnection" where
  "emit e t = t\<lparr>tc_effects := tc_effects t @ [e]\<rparr>"

definition emit_if :: "bool \<Rightarrow> effect \<Rightarrow> TcpConnection \<Rightarrow> TcpConnection" where
  "emit_if b e t = (if b then emit e t else t)"

definition updateActiveTime :: "int \<Rightarrow> TcpConnection \<Rightarrow> TcpConnection" where
  "updateActiveTime nowMs t = t\<lparr>tc_lastActiveTimeMs := nowMs\<rparr>"

definition new_TcpConnection :: "nat \<Rightarrow> int \<Rightarrow> epoll_set \<Rightarrow> int \<Rightarrow> TcpConnection" where
  "new_TcpConnection i sockfd ep nowMs =
     updateActiveTime nowMs \<lparr>tc_state = kConnecting,
       tc_channel = (new_Channel i sockfd)\<lparr>cn_readCallback := True, cn_writeCallback := True,
         cn_closeCallback := True, cn_errorCallback := True\<rparr>,
       tc_epoll = ep, tc_connectionCallback = False, tc_messageCallback = False,
       tc_writeCompleteCallback = False, tc_closeCallback = False, tc_inputBuffer = new_buffer,
       tc_outputBuffer = new_buffer, tc_idleTimeoutSeconds = 0, tc_lastActiveTimeMs = 0,
       tc_effects = []\<rparr>"

definition connected :: "TcpConnection \<Rightarrow> bool" where
  "connected t \<longleftrightarrow> tc_state t = kConnected"

text \<open>An operation of the channel, on the connection that owns it.\<close>

definition on_channel ::
    "(Channel \<Rightarrow> epoll_set \<Rightarrow> (Channel \<times> epoll_set) option) \<Rightarrow> TcpConnection \<Rightarrow> TcpConnection option" where
  "on_channel f t =
     map_option (\<lambda>(c, ep). t\<lparr>tc_channel := c, tc_epoll := ep\<rparr>) (f (tc_channel t) (tc_epoll t))"

section \<open>Opening and closing\<close>

definition connectEstablished :: "bool \<Rightarrow> TcpConnection \<Rightarrow> TcpConnection option" where
  "connectEstablished inLoop t =
     (if \<not> inLoop \<or> tc_state t \<noteq> kConnecting then None
      else let t = t\<lparr>tc_state := kConnected, tc_channel := (tc_channel t)\<lparr>cn_tieSet := True\<rparr>\<rparr>
           in map_option (\<lambda>t. emit_if (tc_connectionCallback t) (ConnectionCb (tc_state t)) t)
                (on_channel (enableReading inLoop) t))"

definition connectDestroyed :: "bool \<Rightarrow> TcpConnection \<Rightarrow> TcpConnection option" where
  "connectDestroyed inLoop t =
     (if \<not> inLoop then None
      else Option.bind
        (if tc_state t = kConnected
         then map_option (\<lambda>t. emit_if (tc_connectionCallback t) (ConnectionCb (tc_state t)) t)
                (on_channel (disableAll inLoop) (t\<lparr>tc_state := kDisconnected\<rparr>))
         else Some t)
        (on_channel (removeChannel inLoop)))"

definition handleClose :: "bool \<Rightarrow> TcpConnection \<Rightarrow> TcpConnection option" where
  "handleClose inLoop t =
     (if \<not> inLoop then None
      else if tc_state t = kDisconnected then Some t
      else if \<not> (tc_state t = kConnected \<or> tc_state t = kDisconnecting) then None
      else map_option
        (\<lambda>t. emit_if (tc_closeCallback t) CloseCallback
               (emit_if (tc_connectionCallback t) (ConnectionCb (tc_state t)) t))
        (on_channel (disableAll inLoop) (t\<lparr>tc_state := kDisconnected\<rparr>)))"

text \<open>\<open>Inl\<close> is the errno of a failing \<^verbatim>\<open>getsockopt\<close>, \<open>Inr\<close> the pending error it reports.\<close>

definition handleError :: "bool \<Rightarrow> so_error \<Rightarrow> TcpConnection \<Rightarrow> TcpConnection option" where
  "handleError inLoop so t =
     (let err = (case so of Inl e \<Rightarrow> e | Inr optval \<Rightarrow> optval)
      in if err \<noteq> 0 then handleClose inLoop t else Some t)"

definition forceClose :: "bool \<Rightarrow> TcpConnection \<Rightarrow> TcpConnection option" where
  "forceClose inLoop t =
     (if tc_state t = kConnected then
        let t = t\<lparr>tc_state := kDisconnecting\<rparr>
        in if inLoop then handleClose inLoop t else Some (emit QueueHandleClose t)
      else Some t)"

definition setIdleTimeout :: "int \<Rightarrow> int \<Rightarrow> TcpConnection \<Rightarrow> TcpConnection" where
  "setIdleTimeout seconds nowMs t = updateActiveTime nowMs (t\<lparr>tc_idleTimeoutSeconds := seconds\<rparr>)"

text \<open>The C++ division truncates; the steady clock makes the difference non-negative.\<close>

definition checkIdleTimeout :: "bool \<Rightarrow> int \<Rightarrow> TcpConnection \<Rightarrow> (bool \<times> TcpConnection) option" where
  "checkIdleTimeout inLoop nowMs t =
     (if tc_idleTimeoutSeconds t \<le> 0 then Some (False, t)
      else let elapsed = (nowMs - tc_lastActiveTimeMs t) div 1000
           in if elapsed \<ge> tc_idleTimeoutSeconds t then map_option (Pair True) (forceClose inLoop t)
              else Some (False, t))"

section \<open>Writing\<close>

text \<open>The tail of \<^verbatim>\<open>sendInLoop\<close>: what the kernel did not take is buffered.\<close>

definition buffer_rest :: "bool \<Rightarrow> bytes \<Rightarrow> TcpConnection \<Rightarrow> TcpConnection option" where
  "buffer_rest inLoop rest t =
     (if rest \<noteq> [] then
        let t = t\<lparr>tc_outputBuffer := append_bytes (tc_outputBuffer t) rest\<rparr>
        in if \<not> isWriting (tc_channel t) then on_channel (enableWriting inLoop) t else Some t
      else Some t)"

definition sendInLoop :: "bool \<Rightarrow> bytes \<Rightarrow> write_answer \<Rightarrow> so_error \<Rightarrow> TcpConnection \<Rightarrow> TcpConnection option" where
  "sendInLoop inLoop message ans so t =
     (if \<not> inLoop then None
      else if tc_state t = kDisconnected then Some t
      else if \<not> isWriting (tc_channel t) \<and> readableBytes (tc_outputBuffer t) = 0 then
        (case ans of
           Wrote nwrote \<Rightarrow>
             buffer_rest inLoop (drop nwrote message)
               (emit_if (length message - nwrote = 0 \<and> tc_writeCompleteCallback t) QueueWriteComplete
                 (emit (Written (take nwrote message)) t))
         | WriteError errno \<Rightarrow>
             if errno \<noteq> EAGAIN \<and> (errno = EPIPE \<or> errno = ECONNRESET) then handleError inLoop so t
             else buffer_rest inLoop message t)
      else buffer_rest inLoop message t)"

definition send :: "bool \<Rightarrow> bytes \<Rightarrow> write_answer \<Rightarrow> so_error \<Rightarrow> TcpConnection \<Rightarrow> TcpConnection option" where
  "send inLoop message ans so t =
     (if tc_state t \<noteq> kConnected then Some t
      else if inLoop then sendInLoop inLoop message ans so t
      else Some (emit (QueueSend message) t))"

text \<open>The functor that \<^verbatim>\<open>send\<close> queues from another thread.\<close>

definition queued_send :: "bool \<Rightarrow> bytes \<Rightarrow> write_answer \<Rightarrow> so_error \<Rightarrow> TcpConnection \<Rightarrow> TcpConnection option" where
  "queued_send inLoop message ans so t =
     (if tc_state t = kConnected then sendInLoop inLoop message ans so t else Some t)"

definition send_buffer ::
    "bool \<Rightarrow> buffer \<Rightarrow> write_answer \<Rightarrow> so_error \<Rightarrow> TcpConnection \<Rightarrow> (buffer \<times> TcpConnection) option" where
  "send_buffer inLoop buf ans so t =
     (if tc_state t \<noteq> kConnected then Some (buf, t)
      else if inLoop then
        (let (message, buf) = retrieveAllAsString buf
         in map_option (Pair buf) (sendInLoop inLoop message ans so t))
      else Some (retrieveAll buf, emit (QueueSend (take (readableBytes buf) (peek buf))) t))"

definition shutdownInLoop :: "bool \<Rightarrow> TcpConnection \<Rightarrow> TcpConnection option" where
  "shutdownInLoop inLoop t =
     (if \<not> inLoop then None
      else Some (emit_if (\<not> isWriting (tc_channel t)) ShutdownWrite t))"

definition shutdown :: "bool \<Rightarrow> TcpConnection \<Rightarrow> TcpConnection option" where
  "shutdown inLoop t =
     (if tc_state t = kConnected then
        let t = t\<lparr>tc_state := kDisconnecting\<rparr>
        in if inLoop then shutdownInLoop inLoop t else Some (emit QueueShutdown t)
      else Some t)"

definition handleWrite :: "bool \<Rightarrow> write_answer \<Rightarrow> so_error \<Rightarrow> int \<Rightarrow> TcpConnection \<Rightarrow> TcpConnection option" where
  "handleWrite inLoop ans so nowMs t =
     (if \<not> inLoop then None
      else let t = updateActiveTime nowMs t in
        if \<not> isWriting (tc_channel t) then Some t
        else case ans of
          WriteError errno \<Rightarrow> if errno \<noteq> EAGAIN then handleError inLoop so t else Some t
        | Wrote n \<Rightarrow>
            if n = 0 then handleError inLoop so t
            else
              let t = emit (Written (take n (take (readableBytes (tc_outputBuffer t)) (peek (tc_outputBuffer t))))) t;
                  t = t\<lparr>tc_outputBuffer := retrieve (tc_outputBuffer t) n\<rparr>
              in if readableBytes (tc_outputBuffer t) = 0 then
                   Option.bind (on_channel (disableWriting inLoop) t)
                     (\<lambda>t. let t = emit_if (tc_writeCompleteCallback t) QueueWriteComplete t
                          in if tc_state t = kDisconnecting then shutdownInLoop inLoop t else Some t)
                 else Some t)"

section \<open>Reading\<close>

text \<open>
  \<open>onMessage\<close> is the message callback; it may consume from the input buffer and send.  The
  result is also \<open>None\<close> while \<^verbatim>\<open>readv\<close>, interrupted, has not answered yet.
\<close>

definition handleRead ::
    "bool \<Rightarrow> (TcpConnection \<Rightarrow> TcpConnection option) \<Rightarrow> readv_answer list \<Rightarrow> so_error \<Rightarrow> int
      \<Rightarrow> TcpConnection \<Rightarrow> TcpConnection option" where
  "handleRead inLoop onMessage answers so nowMs t =
     (if \<not> inLoop then None
      else let t = updateActiveTime nowMs t in
        case readFd (tc_inputBuffer t) answers of
          None \<Rightarrow> None
        | Some (n, savedErrno, buf, _) \<Rightarrow>
            let t = t\<lparr>tc_inputBuffer := buf\<rparr> in
            if n > 0 then
              (if tc_messageCallback t then onMessage t
               else Some (t\<lparr>tc_inputBuffer := retrieveAll (tc_inputBuffer t)\<rparr>))
            else if n = 0 then handleClose inLoop t
            else handleError inLoop so t)"

section \<open>What happens to a connection\<close>

text \<open>
  The operations in the loop's thread, each with the kernel's answers, and the two of other
  threads that change the state.  A queued send is \<open>OpSend\<close>; a message callback consumes some
  of the input, and what it sends follows as \<open>OpSend\<close>, since \<^verbatim>\<open>handleRead\<close> ends with the callback.
\<close>

datatype conn_op =
    OpSend bytes write_answer so_error
  | OpWritable write_answer so_error int
  | OpReadable "readv_answer list" nat so_error int
  | OpClose | OpError so_error
  | OpShutdown | OpForceClose | OpDestroyed
  | OpForeignShutdown | OpQueuedShutdown | OpForeignForceClose

definition consume :: "nat \<Rightarrow> TcpConnection \<Rightarrow> TcpConnection option" where
  "consume k t = Some (t\<lparr>tc_inputBuffer := retrieve (tc_inputBuffer t) k\<rparr>)"

definition conn_op :: "conn_op \<Rightarrow> TcpConnection \<Rightarrow> TcpConnection option" where
  "conn_op oper = (case oper of
     OpSend m ans so \<Rightarrow> send True m ans so
   | OpWritable ans so now \<Rightarrow> handleWrite True ans so now
   | OpReadable answers k so now \<Rightarrow> handleRead True (consume k) answers so now
   | OpClose \<Rightarrow> handleClose True | OpError so \<Rightarrow> handleError True so
   | OpShutdown \<Rightarrow> shutdown True | OpForceClose \<Rightarrow> forceClose True | OpDestroyed \<Rightarrow> connectDestroyed True
   | OpForeignShutdown \<Rightarrow> shutdown False | OpQueuedShutdown \<Rightarrow> shutdownInLoop True
   | OpForeignForceClose \<Rightarrow> forceClose False)"

text \<open>
  An operation that can occur: \<^verbatim>\<open>readv\<close> answers, a queued functor was queued, and a broken
  connection is reported by \<^verbatim>\<open>getsockopt\<close> too.
\<close>

definition op_ok :: "conn_op \<Rightarrow> TcpConnection \<Rightarrow> bool" where
  "op_ok oper t = (case oper of
     OpSend m ans so \<Rightarrow> ans \<in> {WriteError EPIPE, WriteError ECONNRESET} \<longrightarrow> so \<noteq> Inl 0 \<and> so \<noteq> Inr 0
   | OpReadable answers k so now \<Rightarrow> readFd (tc_inputBuffer t) answers \<noteq> None
   | OpQueuedShutdown \<Rightarrow> QueueShutdown \<in> set (tc_effects t)
   | _ \<Rightarrow> True)"

text \<open>The bytes the connection took for sending.\<close>

definition accepted :: "conn_op \<Rightarrow> TcpConnection \<Rightarrow> bytes" where
  "accepted oper t = (case oper of OpSend m _ _ \<Rightarrow> if tc_state t = kConnected then m else [] | _ \<Rightarrow> [])"

fun conn_run :: "conn_op list \<Rightarrow> bytes \<times> TcpConnection \<Rightarrow> (bytes \<times> TcpConnection) option" where
  "conn_run [] (ms, t) = Some (ms, t)"
| "conn_run (oper # opers) (ms, t) =
     (case conn_op oper t of None \<Rightarrow> None | Some t' \<Rightarrow> conn_run opers (ms @ accepted oper t, t'))"

fun ops_ok :: "conn_op list \<Rightarrow> TcpConnection \<Rightarrow> bool" where
  "ops_ok [] t = True"
| "ops_ok (oper # opers) t \<longleftrightarrow> op_ok oper t \<and>
     (case conn_op oper t of None \<Rightarrow> True | Some t' \<Rightarrow> ops_ok opers t')"

definition sent :: "TcpConnection \<Rightarrow> bytes" where
  "sent t = concat (map (\<lambda>e. case e of Written b \<Rightarrow> b | _ \<Rightarrow> []) (tc_effects t))"

fun is_callback :: "effect \<Rightarrow> bool" where
  "is_callback (ConnectionCb _) = True"
| "is_callback CloseCallback = True"
| "is_callback _ = False"

definition callbacks :: "TcpConnection \<Rightarrow> effect list" where
  "callbacks t = filter is_callback (tc_effects t)"

section \<open>The invariant\<close>

text \<open>\<open>ms\<close> is what was accepted so far.\<close>

definition conn_inv :: "bytes \<Rightarrow> TcpConnection \<Rightarrow> bool" where
  "conn_inv ms t \<longleftrightarrow> buf_inv (tc_inputBuffer t) \<and> buf_inv (tc_outputBuffer t)
     \<and> registered (tc_channel t) (tc_epoll t) \<and> tc_connectionCallback t \<and> tc_closeCallback t
     \<and> (QueueShutdown \<in> set (tc_effects t) \<longrightarrow> tc_state t \<noteq> kConnected)
     \<and> (case tc_state t of
          kConnecting \<Rightarrow> False
        | kDisconnected \<Rightarrow> \<not> isWriting (tc_channel t) \<and> prefix (sent t) ms
            \<and> callbacks t \<in> {[ConnectionCb kConnected, ConnectionCb kDisconnected, CloseCallback],
                             [ConnectionCb kConnected, ConnectionCb kDisconnected]}
        | _ \<Rightarrow> sent t @ content (tc_outputBuffer t) = ms
            \<and> (isWriting (tc_channel t) \<longleftrightarrow> content (tc_outputBuffer t) \<noteq> [])
            \<and> callbacks t = [ConnectionCb kConnected]
            \<and> (ShutdownWrite \<in> set (tc_effects t) \<longrightarrow> tc_state t = kDisconnecting \<and> sent t = ms))"

lemma emit_simps [simp]:
  "tc_state (emit e t) = tc_state t" "tc_channel (emit e t) = tc_channel t"
  "tc_epoll (emit e t) = tc_epoll t" "tc_inputBuffer (emit e t) = tc_inputBuffer t"
  "tc_outputBuffer (emit e t) = tc_outputBuffer t" "tc_effects (emit e t) = tc_effects t @ [e]"
  "tc_connectionCallback (emit e t) = tc_connectionCallback t"
  "tc_writeCompleteCallback (emit e t) = tc_writeCompleteCallback t"
  "tc_closeCallback (emit e t) = tc_closeCallback t"
  "tc_messageCallback (emit e t) = tc_messageCallback t"
  by (simp_all add: emit_def)

lemma write_bits [simp]:
  "(ev OR kWriteEvent) AND kWriteEvent \<noteq> 0" "(ev AND NOT kWriteEvent) AND kWriteEvent = 0"
  "kNoneEvent AND kWriteEvent = 0"
  by (simp_all add: epoll_defs bit.conj_disj_distrib2 and.assoc)

lemma on_channel_update:
  assumes "registered (tc_channel t) (tc_epoll t)"
  shows "\<exists>c ep. on_channel (\<lambda>c. updateChannel True (c\<lparr>cn_events := g c\<rparr>)) t
      = Some (t\<lparr>tc_channel := c, tc_epoll := ep\<rparr>)
    \<and> registered c ep \<and> cn_events c = g (tc_channel t)"
  using updateChannel_registered [OF assms, of "g (tc_channel t)"] by (auto simp: on_channel_def)

lemma on_channel_enableWriting:
  assumes "registered (tc_channel t) (tc_epoll t)"
  shows "\<exists>c ep. on_channel (enableWriting True) t = Some (t\<lparr>tc_channel := c, tc_epoll := ep\<rparr>)
    \<and> registered c ep \<and> isWriting c"
  using on_channel_update [OF assms, of "\<lambda>c. cn_events c OR kWriteEvent"]
  unfolding enableWriting_def [abs_def] isWriting_def by (metis write_bits(1))

lemma on_channel_disableWriting:
  assumes "registered (tc_channel t) (tc_epoll t)"
  shows "\<exists>c ep. on_channel (disableWriting True) t = Some (t\<lparr>tc_channel := c, tc_epoll := ep\<rparr>)
    \<and> registered c ep \<and> \<not> isWriting c"
  using on_channel_update [OF assms, of "\<lambda>c. cn_events c AND NOT kWriteEvent"]
  unfolding disableWriting_def [abs_def] isWriting_def by (metis write_bits(2))

lemma on_channel_disableAll:
  assumes "registered (tc_channel t) (tc_epoll t)"
  shows "\<exists>c ep. on_channel (disableAll True) t = Some (t\<lparr>tc_channel := c, tc_epoll := ep\<rparr>)
    \<and> registered c ep \<and> \<not> isWriting c"
  using on_channel_update [OF assms, of "\<lambda>c. kNoneEvent"]
  unfolding disableAll_def [abs_def] isWriting_def by (metis write_bits(3))

lemma on_channel_remove:
  assumes "registered (tc_channel t) (tc_epoll t)"
  shows "\<exists>c ep. on_channel (removeChannel True) t = Some (t\<lparr>tc_channel := c, tc_epoll := ep\<rparr>)
    \<and> registered c ep \<and> (isWriting c \<longleftrightarrow> isWriting (tc_channel t))"
proof -
  have "cn_events c' = cn_events (tc_channel t)"
    if "removeChannel True (tc_channel t) (tc_epoll t) = Some (c', ep')" for c' ep'
    using that by (auto simp: removeChannel_def)
  then show ?thesis
    using removeChannel_registered [OF assms] by (fastforce simp: on_channel_def isWriting_def)
qed

lemmas view_defs = sent_def callbacks_def emit_if_def

lemma handleClose_inv:
  assumes "conn_inv ms t"
  shows "\<exists>t'. handleClose True t = Some t' \<and> conn_inv ms t' \<and> tc_state t' = kDisconnected"
proof -
  have reg: "registered (tc_channel (t\<lparr>tc_state := kDisconnected\<rparr>)) (tc_epoll (t\<lparr>tc_state := kDisconnected\<rparr>))"
    using assms by (simp add: conn_inv_def)
  obtain c ep where "on_channel (disableAll True) (t\<lparr>tc_state := kDisconnected\<rparr>)
      = Some (t\<lparr>tc_state := kDisconnected, tc_channel := c, tc_epoll := ep\<rparr>)"
    "registered c ep" "\<not> isWriting c"
    using on_channel_disableAll [OF reg] by auto
  moreover from this(2,3) assms have "conn_inv ms (emit CloseCallback (emit (ConnectionCb kDisconnected)
      (t\<lparr>tc_state := kDisconnected, tc_channel := c, tc_epoll := ep\<rparr>)))" if "tc_state t \<noteq> kDisconnected"
    using that by (cases "tc_state t") (auto simp: conn_inv_def view_defs prefix_def)
  ultimately show ?thesis
    using assms by (cases "tc_state t") (simp_all add: handleClose_def emit_if_def conn_inv_def)
qed

lemma handleClose_callbacks:
  assumes "conn_inv ms t" and "tc_state t = kConnected" and "handleClose True t = Some t'"
  shows "callbacks t' = [ConnectionCb kConnected, ConnectionCb kDisconnected, CloseCallback]"
proof -
  have reg: "registered (tc_channel (t\<lparr>tc_state := kDisconnected\<rparr>)) (tc_epoll (t\<lparr>tc_state := kDisconnected\<rparr>))"
    and flags: "tc_connectionCallback t" "tc_closeCallback t" "callbacks t = [ConnectionCb kConnected]"
    using assms(1,2) by (simp_all add: conn_inv_def)
  obtain c ep where "on_channel (disableAll True) (t\<lparr>tc_state := kDisconnected\<rparr>)
      = Some (t\<lparr>tc_state := kDisconnected, tc_channel := c, tc_epoll := ep\<rparr>)"
    using on_channel_disableAll [OF reg] by auto
  with flags assms(2,3) show ?thesis by (auto simp: handleClose_def view_defs)
qed

lemma handleError_inv: "conn_inv ms t \<Longrightarrow> \<exists>t'. handleError True so t = Some t' \<and> conn_inv ms t'"
  using handleClose_inv by (auto simp: handleError_def)

lemma closed_accepts:
  "conn_inv ms t \<Longrightarrow> tc_state t = kDisconnected \<Longrightarrow> conn_inv (ms @ m) t"
  by (simp add: conn_inv_def)

lemma handleError_closes:
  assumes "conn_inv ms t" and "so \<noteq> Inl 0" and "so \<noteq> Inr 0"
  shows "\<exists>t'. handleError True so t = Some t' \<and> conn_inv (ms @ m) t'"
proof -
  have "(case so of Inl e \<Rightarrow> e | Inr optval \<Rightarrow> optval) \<noteq> 0"
    using assms(2,3) by (cases so) auto
  then show ?thesis
    using handleClose_inv [OF assms(1)] closed_accepts [of ms _ m] by (auto simp: handleError_def)
qed

text \<open>A connection that is open in at least one direction.\<close>

lemma conn_inv_open:
  assumes "tc_state t = kConnected \<or> tc_state t = kDisconnecting"
  shows "conn_inv ms t \<longleftrightarrow> buf_inv (tc_inputBuffer t) \<and> buf_inv (tc_outputBuffer t)
     \<and> registered (tc_channel t) (tc_epoll t) \<and> tc_connectionCallback t \<and> tc_closeCallback t
     \<and> (QueueShutdown \<in> set (tc_effects t) \<longrightarrow> tc_state t \<noteq> kConnected)
     \<and> sent t @ content (tc_outputBuffer t) = ms
     \<and> (isWriting (tc_channel t) \<longleftrightarrow> content (tc_outputBuffer t) \<noteq> [])
     \<and> callbacks t = [ConnectionCb kConnected]
     \<and> (ShutdownWrite \<in> set (tc_effects t) \<longrightarrow> tc_state t = kDisconnecting \<and> sent t = ms)"
  using assms by (auto simp: conn_inv_def)

text \<open>\<open>rest\<close> is buffered behind what is already there.\<close>

lemma buffer_rest_inv:
  assumes "buf_inv (tc_inputBuffer t)" "buf_inv (tc_outputBuffer t)"
    and "registered (tc_channel t) (tc_epoll t)" "tc_connectionCallback t" "tc_closeCallback t"
    and "tc_state t = kConnected" "QueueShutdown \<notin> set (tc_effects t)" "ShutdownWrite \<notin> set (tc_effects t)"
    and "sent t @ content (tc_outputBuffer t) @ rest = ms"
    and "isWriting (tc_channel t) \<longleftrightarrow> content (tc_outputBuffer t) \<noteq> []"
    and "callbacks t = [ConnectionCb kConnected]"
  shows "\<exists>t'. buffer_rest True rest t = Some t' \<and> conn_inv ms t'"
proof (cases "rest = []")
  case True
  with assms show ?thesis by (simp add: buffer_rest_def conn_inv_open)
next
  case False
  let ?t = "t\<lparr>tc_outputBuffer := append_bytes (tc_outputBuffer t) rest\<rparr>"
  have out: "buf_inv (tc_outputBuffer ?t)" "content (tc_outputBuffer ?t) = content (tc_outputBuffer t) @ rest"
    using append_bytes_spec [OF assms(2), of rest] by simp_all
  have inv: "conn_inv ms (?t\<lparr>tc_channel := c, tc_epoll := ep\<rparr>)" if "registered c ep" "isWriting c" for c ep
    using assms out that False by (simp add: conn_inv_open view_defs)
  show ?thesis
  proof (cases "isWriting (tc_channel t)")
    case True
    with inv [of "tc_channel t" "tc_epoll t"] assms(3) False show ?thesis by (simp add: buffer_rest_def)
  next
    case notW: False
    have "registered (tc_channel ?t) (tc_epoll ?t)" using assms(3) by simp
    from on_channel_enableWriting [OF this] obtain c ep where
      "on_channel (enableWriting True) ?t = Some (?t\<lparr>tc_channel := c, tc_epoll := ep\<rparr>)"
      "registered c ep" "isWriting c" by blast
    with inv [of c ep] False notW show ?thesis by (simp add: buffer_rest_def)
  qed
qed

lemma sendInLoop_inv:
  assumes inv: "conn_inv ms t" and "tc_state t = kConnected" and ok: "op_ok (OpSend m ans so) t"
  shows "\<exists>t'. sendInLoop True m ans so t = Some t' \<and> conn_inv (ms @ m) t'"
proof -
  have parts: "buf_inv (tc_inputBuffer t)" "buf_inv (tc_outputBuffer t)"
    "registered (tc_channel t) (tc_epoll t)" "tc_connectionCallback t" "tc_closeCallback t"
    "QueueShutdown \<notin> set (tc_effects t)" "ShutdownWrite \<notin> set (tc_effects t)"
    "sent t @ content (tc_outputBuffer t) = ms"
    "isWriting (tc_channel t) \<longleftrightarrow> content (tc_outputBuffer t) \<noteq> []" "callbacks t = [ConnectionCb kConnected]"
    using inv assms(2) by (auto simp: conn_inv_open)
  have buffer: "\<exists>t'. buffer_rest True m t = Some t' \<and> conn_inv (ms @ m) t'"
    using parts assms(2) by (intro buffer_rest_inv) auto
  show ?thesis
  proof (cases "\<not> isWriting (tc_channel t) \<and> readableBytes (tc_outputBuffer t) = 0")
    case direct: True
    then have empty: "content (tc_outputBuffer t) = []" using parts(9) by blast
    show ?thesis
    proof (cases ans)
      case (Wrote n)
      let ?t = "emit_if (length m - n = 0 \<and> tc_writeCompleteCallback t) QueueWriteComplete
          (emit (Written (take n m)) t)"
      have "\<exists>t'. buffer_rest True (drop n m) ?t = Some t' \<and> conn_inv (ms @ m) t'"
        using parts assms(2) empty direct by (intro buffer_rest_inv) (auto simp: view_defs)
      with Wrote direct assms(2) show ?thesis by (simp add: sendInLoop_def)
    next
      case (WriteError e)
      with buffer handleError_closes [OF inv, of so m] direct assms(2) ok show ?thesis
        by (auto simp: sendInLoop_def op_ok_def errno_defs)
    qed
  next
    case False
    with buffer assms(2) show ?thesis by (auto simp: sendInLoop_def)
  qed
qed

lemma updateActiveTime_inv [simp]: "conn_inv ms (updateActiveTime now t) = conn_inv ms t"
  by (simp add: conn_inv_def updateActiveTime_def view_defs split: StateE.split)

lemma inputBuffer_inv [simp]:
  "buf_inv b \<Longrightarrow> conn_inv ms t \<Longrightarrow> conn_inv ms (t\<lparr>tc_inputBuffer := b\<rparr>)"
  by (cases "tc_state t") (simp_all add: conn_inv_def view_defs)

lemma handleWrite_inv:
  assumes inv: "conn_inv ms t"
  shows "\<exists>t'. handleWrite True ans so now t = Some t' \<and> conn_inv ms t'"
proof (cases "isWriting (tc_channel t)")
  case False
  then show ?thesis using inv by (simp add: handleWrite_def Let_def) (simp add: updateActiveTime_def)
next
  case True
  define u where "u = updateActiveTime now t"
  have W: "isWriting (tc_channel u)" and uinv: "conn_inv ms u"
    using True inv by (simp_all add: u_def) (simp add: updateActiveTime_def)
  then have st: "tc_state u = kConnected \<or> tc_state u = kDisconnecting"
    by (auto simp: conn_inv_def split: StateE.splits)
  note parts = uinv [unfolded conn_inv_open [OF st]]
  show ?thesis
  proof (cases "\<exists>n. ans = Wrote n \<and> n \<noteq> 0")
    case False
    then show ?thesis
      using handleError_inv [OF uinv, of so] uinv W
      by (cases ans) (auto simp: handleWrite_def Let_def u_def [symmetric])
  next
    case True
    then obtain n where n: "ans = Wrote n" "n \<noteq> 0" by blast
    define v where "v = (emit (Written (take n (content (tc_outputBuffer u)))) u)
      \<lparr>tc_outputBuffer := retrieve (tc_outputBuffer u) n\<rparr>"
    have out: "buf_inv (tc_outputBuffer v)" "content (tc_outputBuffer v) = drop n (content (tc_outputBuffer u))"
      using retrieve_spec [of "tc_outputBuffer u" n] parts by (simp_all add: v_def)
    have same: "tc_state v = tc_state u" "tc_channel v = tc_channel u" "tc_epoll v = tc_epoll u"
      by (simp_all add: v_def)
    have vsent: "sent v @ drop n (content (tc_outputBuffer u)) = ms"
      using parts by (simp add: v_def view_defs)
    have noFin: "ShutdownWrite \<notin> set (tc_effects u)"
      using parts W by auto
    show ?thesis
    proof (cases "readableBytes (tc_outputBuffer v) = 0")
      case False
      then have "content (tc_outputBuffer v) \<noteq> []"
        using length_content [OF out(1)] by auto
      then have "conn_inv ms v"
        using parts W st out vsent noFin unfolding same [symmetric] conn_inv_open [of v, unfolded same, OF st]
        by (auto simp: v_def view_defs)
      with False n W show ?thesis
        by (simp add: handleWrite_def Let_def u_def [symmetric] v_def content_def)
    next
      case empty: True
      have "registered (tc_channel v) (tc_epoll v)" using parts by (simp add: same)
      from on_channel_disableWriting [OF this] obtain c ep where
        off: "on_channel (disableWriting True) v = Some (v\<lparr>tc_channel := c, tc_epoll := ep\<rparr>)"
        "registered c ep" "\<not> isWriting c" by blast
      let ?w = "emit_if (tc_writeCompleteCallback u) QueueWriteComplete (v\<lparr>tc_channel := c, tc_epoll := ep\<rparr>)"
      let ?x = "if tc_state u = kDisconnecting then emit ShutdownWrite ?w else ?w"
      have "content (tc_outputBuffer v) = []" using length_content [OF out(1)] empty by simp
      then have "conn_inv ms ?x"
        using parts off out vsent noFin st
        by (auto simp: conn_inv_open v_def view_defs)
      moreover have "handleWrite True ans so now t = Some ?x"
        using empty n W off
        by (simp add: handleWrite_def Let_def u_def [symmetric] v_def content_def shutdownInLoop_def emit_if_def)
      ultimately show ?thesis by blast
    qed
  qed
qed

lemma readFd_inv:
  "readFd b answers = Some (n, e, b', rest) \<Longrightarrow> buf_inv b \<Longrightarrow> buf_inv b'"
  by (induction b answers rule: readFd.induct)
     (auto simp: Let_def readFd_store_spec split: if_splits)

lemma handleRead_inv:
  assumes inv: "conn_inv ms t" and "readFd (tc_inputBuffer t) answers \<noteq> None"
  shows "\<exists>t'. handleRead True (consume k) answers so now t = Some t' \<and> conn_inv ms t'"
proof -
  obtain n e b rest where r: "readFd (tc_inputBuffer t) answers = Some (n, e, b, rest)"
    using assms(2) by auto
  have b: "buf_inv b" using readFd_inv [OF r] inv by (simp add: conn_inv_def)
  define u where "u = (updateActiveTime now t)\<lparr>tc_inputBuffer := b\<rparr>"
  have u: "conn_inv ms u" using inv b by (simp add: u_def)
  have b': "buf_inv (retrieve b k)" "buf_inv (retrieveAll b)"
    using retrieve_spec [OF b] retrieveAll_spec [OF b] by simp_all
  have "handleRead True (consume k) answers so now t =
     (if n > 0 then if tc_messageCallback u then consume k u else Some (u\<lparr>tc_inputBuffer := retrieveAll b\<rparr>)
      else if n = 0 then handleClose True u else handleError True so u)"
    using r by (simp add: handleRead_def Let_def u_def updateActiveTime_def)
  moreover have "tc_inputBuffer u = b" by (simp add: u_def)
  ultimately show ?thesis
    using u b' handleClose_inv [OF u] handleError_inv [OF u, of so] by (auto simp: consume_def)
qed

lemma connectDestroyed_inv:
  assumes inv: "conn_inv ms t"
  shows "\<exists>t'. connectDestroyed True t = Some t' \<and> conn_inv ms t'"
proof -
  have remove: "\<exists>t'. on_channel (removeChannel True) u = Some t' \<and> conn_inv ms t'" if "conn_inv ms u" for u
  proof -
    have "registered (tc_channel u) (tc_epoll u)" using that by (simp add: conn_inv_def)
    from on_channel_remove [OF this] obtain c ep where
      "on_channel (removeChannel True) u = Some (u\<lparr>tc_channel := c, tc_epoll := ep\<rparr>)"
      "registered c ep" "isWriting c = isWriting (tc_channel u)" by blast
    with that show ?thesis by (cases "tc_state u") (simp_all add: conn_inv_def view_defs)
  qed
  show ?thesis
  proof (cases "tc_state t = kConnected")
    case True
    have "registered (tc_channel (t\<lparr>tc_state := kDisconnected\<rparr>)) (tc_epoll (t\<lparr>tc_state := kDisconnected\<rparr>))"
      using inv by (simp add: conn_inv_def)
    from on_channel_disableAll [OF this] obtain c ep where off:
      "on_channel (disableAll True) (t\<lparr>tc_state := kDisconnected\<rparr>)
        = Some (t\<lparr>tc_state := kDisconnected, tc_channel := c, tc_epoll := ep\<rparr>)"
      "registered c ep" "\<not> isWriting c" by auto
    let ?u = "emit (ConnectionCb kDisconnected) (t\<lparr>tc_state := kDisconnected, tc_channel := c, tc_epoll := ep\<rparr>)"
    have "conn_inv ms ?u" and "tc_connectionCallback t"
      using inv off True by (auto simp: conn_inv_def view_defs prefix_def)
    with remove [of ?u] off True show ?thesis by (simp add: connectDestroyed_def emit_if_def)
  qed (use remove [OF inv] in \<open>simp add: connectDestroyed_def\<close>)
qed

lemma shutdown_inv:
  assumes "conn_inv ms t"
  shows "\<exists>t'. shutdown inLoop t = Some t' \<and> conn_inv ms t'"
proof (cases "tc_state t = kConnected")
  case True
  with assms show ?thesis
    by (cases "isWriting (tc_channel t)"; cases inLoop)
       (auto simp: shutdown_def Let_def shutdownInLoop_def conn_inv_def view_defs)
qed (simp add: shutdown_def assms)

lemma shutdownInLoop_inv:
  assumes "conn_inv ms t" and "QueueShutdown \<in> set (tc_effects t)"
  shows "\<exists>t'. shutdownInLoop True t = Some t' \<and> conn_inv ms t'"
  using assms
  by (cases "tc_state t"; cases "isWriting (tc_channel t)") (auto simp: shutdownInLoop_def conn_inv_def view_defs)

lemma forceClose_inv:
  assumes "conn_inv ms t"
  shows "\<exists>t'. forceClose inLoop t = Some t' \<and> conn_inv ms t'"
proof (cases "tc_state t = kConnected")
  case True
  let ?u = "t\<lparr>tc_state := kDisconnecting\<rparr>"
  have "conn_inv ms ?u" and "conn_inv ms (emit QueueHandleClose ?u)"
    using assms True by (auto simp: conn_inv_def view_defs)
  with handleClose_inv [of ms ?u] True show ?thesis
    by (cases inLoop) (auto simp: forceClose_def Let_def)
qed (simp add: forceClose_def assms)

lemma conn_op_inv:
  assumes inv: "conn_inv ms t" and ok: "op_ok oper t"
  shows "\<exists>t'. conn_op oper t = Some t' \<and> conn_inv (ms @ accepted oper t) t'"
proof (cases oper)
  case (OpSend m ans so)
  then show ?thesis
    using sendInLoop_inv [OF inv, of m ans so] inv ok
    by (cases "tc_state t = kConnected") (simp_all add: conn_op_def accepted_def send_def)
next
  case (OpReadable answers k so now)
  then show ?thesis
    using handleRead_inv [OF inv, of answers k so now] ok by (simp add: conn_op_def accepted_def op_ok_def)
next
  case OpQueuedShutdown
  then show ?thesis
    using shutdownInLoop_inv [OF inv] ok by (simp add: conn_op_def accepted_def op_ok_def)
next
  case OpClose
  then show ?thesis using handleClose_inv [OF inv] by (auto simp: conn_op_def accepted_def)
qed (simp_all add: conn_op_def accepted_def handleWrite_inv [OF inv] handleError_inv [OF inv]
      shutdown_inv [OF inv] forceClose_inv [OF inv] connectDestroyed_inv [OF inv])

lemma conn_run_inv:
  assumes "conn_inv ms t" and "ops_ok opers t"
  shows "\<exists>ms' t'. conn_run opers (ms, t) = Some (ms', t') \<and> conn_inv ms' t'"
  using assms
proof (induction opers arbitrary: ms t)
  case (Cons oper opers)
  then show ?case using conn_op_inv [of ms t oper] by fastforce
qed simp

text \<open>A connection as the server and the client set it up, before it is established.\<close>

definition set_up :: "nat \<Rightarrow> int \<Rightarrow> epoll_set \<Rightarrow> int \<Rightarrow> bool \<Rightarrow> bool \<Rightarrow> TcpConnection" where
  "set_up i fd ep now msg wc = (new_TcpConnection i fd ep now)\<lparr>tc_connectionCallback := True,
     tc_messageCallback := msg, tc_writeCompleteCallback := wc, tc_closeCallback := True\<rparr>"

lemma established_inv:
  assumes "map_of ep fd = None" and "connectEstablished True (set_up i fd ep now msg wc) = Some t"
  shows "conn_inv [] t"
proof -
  define u where "u = (set_up i fd ep now msg wc)\<lparr>tc_state := kConnected,
    tc_channel := (tc_channel (set_up i fd ep now msg wc))\<lparr>cn_tieSet := True\<rparr>\<rparr>"
  have "registered (tc_channel u) (tc_epoll u)"
    using assms(1)
    by (simp add: u_def set_up_def new_TcpConnection_def updateActiveTime_def registered_def new_Channel_def)
  from on_channel_update [OF this, of "\<lambda>c. cn_events c OR kReadEvent"] obtain c ep' where
    c: "on_channel (enableReading True) u = Some (u\<lparr>tc_channel := c, tc_epoll := ep'\<rparr>)"
    "registered c ep'" "cn_events c = cn_events (tc_channel u) OR kReadEvent"
    unfolding enableReading_def [abs_def] by blast
  have "cn_events (tc_channel u) = 0"
    by (simp add: u_def set_up_def new_TcpConnection_def updateActiveTime_def new_Channel_def)
  then have "\<not> isWriting c"
    using c(3) by (simp add: isWriting_def epoll_defs)
  moreover have "t = emit (ConnectionCb kConnected) (u\<lparr>tc_channel := c, tc_epoll := ep'\<rparr>)"
    using assms(2) c(1)
    by (auto simp: connectEstablished_def u_def [symmetric] Let_def emit_if_def split: if_splits)
       (simp_all add: u_def set_up_def)
  ultimately show ?thesis
    using c(2)
    by (simp add: conn_inv_open u_def set_up_def new_TcpConnection_def updateActiveTime_def view_defs emit_def)
qed

text \<open>A concrete connection.\<close>

definition sample_conn :: TcpConnection where
  "sample_conn = the (connectEstablished True (set_up 1 7 [] 0 False True))"

lemmas sample_defs = sample_conn_def connectEstablished_def set_up_def new_TcpConnection_def
  updateActiveTime_def new_Channel_def on_channel_def enableReading_def updateChannel_def epoll_ctl_def
  emit_if_def emit_def isNoneEvent_def

lemma sample_established: "connectEstablished True (set_up 1 7 [] 0 False True) = Some sample_conn"
  by (simp add: sample_defs)

lemma sample_simps:
  "tc_state sample_conn = kConnected" "isWriting (tc_channel sample_conn) = False"
  "tc_effects sample_conn = [ConnectionCb kConnected]" "tc_outputBuffer sample_conn = new_buffer"
  "tc_inputBuffer sample_conn = new_buffer" "tc_writeCompleteCallback sample_conn"
  by (simp_all add: sample_defs isWriting_def epoll_defs)

section \<open>Properties\<close>







section \<open>Where data is lost\<close>

text \<open>A message sent from another thread is dropped if a shutdown follows before the loop runs.\<close>

lemma foreign_send_then_shutdown:
  assumes "tc_state t = kConnected"
  shows "\<exists>u. send False m ans so t = Some u \<and>
    (\<exists>v. shutdown False u = Some v \<and> tc_effects v = tc_effects t @ [QueueSend m, QueueShutdown]
       \<and> queued_send True m ans' so' v = Some v)"
  using assms by (simp add: send_def shutdown_def queued_send_def emit_def)

text \<open>
  A write that fails with a broken pipe drops the message and leaves the connection open when
  no error is pending on the socket any more.
\<close>

lemma silent_fault_drops:
  assumes "tc_state t = kConnected" and "\<not> isWriting (tc_channel t)" and "readableBytes (tc_outputBuffer t) = 0"
  shows "sendInLoop True m (WriteError EPIPE) (Inr 0) t = Some t"
  using assms by (simp add: sendInLoop_def handleError_def errno_defs)

end
