(* ===== verification/TcpServer.thy ===== *)
theory TcpServer
  imports TcpConnection
begin

text \<open>
  The server side of connections: the acceptor (\<^verbatim>\<open>src/src/network/acceptor.cc\<close>), the pool of
  loops (\<^verbatim>\<open>event_loop_thread_pool.cc\<close>) and the table of connections (\<^verbatim>\<open>tcp_server.cc\<close>).  A
  loop is a number; what is run in or queued for a loop is the list \<open>ts_tasks\<close>, in order.  Each
  new loop has its own, empty epoll set.  The connection counter is unbounded here and an \<^verbatim>\<open>int\<close> in
  the code.  \<open>None\<close> is a failed assertion.
\<close>

section \<open>Acceptor\<close>

record Acceptor =
  ac_socket :: Socket
  ac_channel :: Channel
  ac_epoll :: epoll_set
  ac_newConnectionCallback :: bool
  ac_listening :: bool

text \<open>\<open>fd\<close> is the descriptor of the new socket and \<open>bound\<close> what \<^verbatim>\<open>bind\<close> returns.\<close>

definition new_Acceptor :: "nat \<Rightarrow> int \<Rightarrow> sockaddr_in \<Rightarrow> int \<Rightarrow> epoll_set \<Rightarrow> Acceptor" where
  "new_Acceptor ch fd listenAddr bound ep =
     (let listenSocket = new_Socket fd;
          listenSocket = setReuseAddr True listenSocket;
          listenSocket = setReusePort True listenSocket;
          listenSocket = bindAddress listenAddr bound listenSocket
      in \<lparr>ac_socket = listenSocket, ac_channel = (new_Channel ch fd)\<lparr>cn_readCallback := True\<rparr>, ac_epoll = ep,
          ac_newConnectionCallback = False, ac_listening = False\<rparr>)"

text \<open>\<open>ret\<close> is what the system call \<^verbatim>\<open>listen\<close> returns.\<close>

definition listen :: "bool \<Rightarrow> int \<Rightarrow> Acceptor \<Rightarrow> Acceptor option" where
  "listen inLoop ret a =
     (if \<not> inLoop then None
      else
        let a = a\<lparr>ac_listening := True, ac_socket := socket_listen ret (ac_socket a)\<rparr>
        in map_option (\<lambda>(c, ep). a\<lparr>ac_channel := c, ac_epoll := ep\<rparr>)
             (enableReading inLoop (ac_channel a) (ac_epoll a)))"

text \<open>The destructor, with that of the socket it owns.\<close>

definition destroy_Acceptor :: "bool \<Rightarrow> Acceptor \<Rightarrow> Acceptor option" where
  "destroy_Acceptor inLoop a =
     Option.bind (disableAll inLoop (ac_channel a) (ac_epoll a))
       (\<lambda>(c, ep). map_option
          (\<lambda>(c, ep). a\<lparr>ac_channel := c, ac_epoll := ep, ac_socket := destroy_Socket (ac_socket a)\<rparr>)
          (removeChannel inLoop c ep))"

text \<open>One connection per readability event: \<open>ans\<close> is what \<^verbatim>\<open>accept4\<close> answers.\<close>

datatype accepted = Accepted int sockaddr_in | ClosedUnused int | NothingAccepted

definition acceptor_handleRead :: "bool \<Rightarrow> accept_answer \<Rightarrow> Acceptor \<Rightarrow> (accepted \<times> Acceptor) option" where
  "acceptor_handleRead inLoop ans a =
     (if \<not> inLoop then None
      else
        let (connfd, peerAddr, errno, listenSocket) = socket_accept ans zero_addr 0 (ac_socket a);
            a = a\<lparr>ac_socket := listenSocket\<rparr>
        in Some (if connfd \<ge> 0
          then if ac_newConnectionCallback a then Accepted connfd peerAddr else ClosedUnused connfd
          else NothingAccepted, a))"

section \<open>Pool of loops\<close>

record EventLoopThreadPool =
  tp_baseLoop :: nat
  tp_started :: bool
  tp_numThreads :: int
  tp_next :: nat
  tp_loops :: "nat list"

definition new_ThreadPool :: "nat \<Rightarrow> EventLoopThreadPool" where
  "new_ThreadPool base = \<lparr>tp_baseLoop = base, tp_started = False, tp_numThreads = 0, tp_next = 0, tp_loops = []\<rparr>"

definition setThreadNum :: "int \<Rightarrow> EventLoopThreadPool \<Rightarrow> EventLoopThreadPool" where
  "setThreadNum n p = p\<lparr>tp_numThreads := n\<rparr>"

text \<open>\<open>startLoop i\<close> is the loop of the \<open>i\<close>-th thread started.\<close>

definition pool_start :: "(nat \<Rightarrow> nat) \<Rightarrow> EventLoopThreadPool \<Rightarrow> EventLoopThreadPool" where
  "pool_start startLoop p =
     p\<lparr>tp_started := True, tp_loops := tp_loops p @ map startLoop [0..<nat (tp_numThreads p)]\<rparr>"

definition getNextLoop :: "bool \<Rightarrow> EventLoopThreadPool \<Rightarrow> (nat \<times> EventLoopThreadPool) option" where
  "getNextLoop inLoop p =
     (if \<not> inLoop then None
      else if tp_loops p \<noteq> [] then
        let next = tp_next p + 1
        in Some (tp_loops p ! tp_next p, p\<lparr>tp_next := if next \<ge> length (tp_loops p) then 0 else next\<rparr>)
      else Some (tp_baseLoop p, p))"

definition getLoopForHash :: "bool \<Rightarrow> nat \<Rightarrow> EventLoopThreadPool \<Rightarrow> nat option" where
  "getLoopForHash inLoop hashCode p =
     (if \<not> inLoop then None
      else Some (if tp_loops p \<noteq> [] then tp_loops p ! (hashCode mod length (tp_loops p)) else tp_baseLoop p))"

section \<open>Server\<close>

datatype task = EstablishConn bytes | DestroyConn bytes

fun task_conn :: "task \<Rightarrow> bytes" where
  "task_conn (EstablishConn n) = n"
| "task_conn (DestroyConn n) = n"

record TcpServer =
  ts_name :: bytes
  ts_acceptor :: Acceptor
  ts_threadPool :: EventLoopThreadPool
  ts_callbacks :: "bool \<times> bool \<times> bool"
  ts_started :: bool
  ts_nextConnId :: nat
  ts_connections :: "(bytes \<times> nat \<times> TcpConnection) list"
  ts_idleTimeoutSeconds :: int
  ts_idleTimerId :: u64
  ts_tasks :: "(nat \<times> task) list"

text \<open>\<open>name\<close> is the text \<^verbatim>\<open>inet_ntop\<close> makes of the address.\<close>

definition new_TcpServer :: "nat \<Rightarrow> bytes \<Rightarrow> nat \<Rightarrow> int \<Rightarrow> sockaddr_in \<Rightarrow> int \<Rightarrow> epoll_set \<Rightarrow> TcpServer" where
  "new_TcpServer base name ch fd listenAddr bound ep = \<lparr>ts_name = name,
     ts_acceptor = (new_Acceptor ch fd listenAddr bound ep)\<lparr>ac_newConnectionCallback := True\<rparr>,
     ts_threadPool = new_ThreadPool base, ts_callbacks = (False, False, False), ts_started = False,
     ts_nextConnId = 1, ts_connections = [], ts_idleTimeoutSeconds = 0, ts_idleTimerId = 0, ts_tasks = []\<rparr>"

text \<open>
  The name: the address of the server twice and the number.  An IPv4 address has at most 15
  characters, so the 32 bytes of the buffer hold the second part.
\<close>

definition connName :: "bytes \<Rightarrow> nat \<Rightarrow> bytes" where
  "connName name i = name @ str ''-'' @ name @ str ''#'' @ to_string i"

text \<open>\<open>timerId\<close> is what \<^verbatim>\<open>runEvery\<close> returns and \<open>ret\<close> what the system call \<^verbatim>\<open>listen\<close> returns.\<close>

definition server_start :: "bool \<Rightarrow> (nat \<Rightarrow> nat) \<Rightarrow> u64 \<Rightarrow> int \<Rightarrow> TcpServer \<Rightarrow> TcpServer option" where
  "server_start inLoop startLoop timerId ret s =
     (if ts_started s then Some s
      else
        let s = s\<lparr>ts_started := True, ts_threadPool := pool_start startLoop (ts_threadPool s)\<rparr>;
            s = (if ts_idleTimeoutSeconds s > 0 then s\<lparr>ts_idleTimerId := timerId\<rparr> else s)
        in map_option (\<lambda>a. s\<lparr>ts_acceptor := a\<rparr>) (listen inLoop ret (ts_acceptor s)))"

text \<open>\<open>ch\<close> identifies the channel and \<open>ep\<close> is the epoll set of the loop chosen.\<close>

definition server_newConnection ::
    "bool \<Rightarrow> nat \<Rightarrow> epoll_set \<Rightarrow> int \<Rightarrow> int \<Rightarrow> TcpServer \<Rightarrow> TcpServer option" where
  "server_newConnection inLoop ch ep nowMs sockfd s =
     (if \<not> inLoop then None
      else
        let name = connName (ts_name s) (ts_nextConnId s);
            s = s\<lparr>ts_nextConnId := ts_nextConnId s + 1\<rparr>
        in map_option
             (\<lambda>(ioLoop, pool).
                let conn = new_TcpConnection ch sockfd ep nowMs;
                    conn = (if ts_idleTimeoutSeconds s > 0
                            then setIdleTimeout (ts_idleTimeoutSeconds s) nowMs conn else conn);
                    (connectionCb, messageCb, writeCompleteCb) = ts_callbacks s;
                    conn = conn\<lparr>tc_connectionCallback := connectionCb, tc_messageCallback := messageCb,
                      tc_writeCompleteCallback := writeCompleteCb, tc_closeCallback := True\<rparr>
                in s\<lparr>ts_threadPool := pool,
                     ts_connections := AList.update name (ioLoop, conn) (ts_connections s),
                     ts_tasks := ts_tasks s @ [(ioLoop, EstablishConn name)]\<rparr>)
             (getNextLoop inLoop (ts_threadPool s)))"

text \<open>The listening socket is readable: the acceptor's callback is \<^verbatim>\<open>newConnection\<close>.\<close>

definition server_readable ::
    "bool \<Rightarrow> nat \<Rightarrow> epoll_set \<Rightarrow> int \<Rightarrow> accept_answer \<Rightarrow> TcpServer \<Rightarrow> TcpServer option" where
  "server_readable inLoop ch ep nowMs ans s =
     (case acceptor_handleRead inLoop ans (ts_acceptor s) of
        None \<Rightarrow> None
      | Some (Accepted connfd peerAddr, a) \<Rightarrow> server_newConnection inLoop ch ep nowMs connfd (s\<lparr>ts_acceptor := a\<rparr>)
      | Some (_, a) \<Rightarrow> Some (s\<lparr>ts_acceptor := a\<rparr>))"

text \<open>\<open>ioLoop\<close> is the loop of the connection that closed.\<close>

definition removeConnectionInLoop :: "bool \<Rightarrow> bytes \<Rightarrow> nat \<Rightarrow> TcpServer \<Rightarrow> TcpServer option" where
  "removeConnectionInLoop inLoop name ioLoop s =
     (if \<not> inLoop then None
      else if map_of (ts_connections s) name = None then Some s
      else Some (s\<lparr>ts_connections := AList.delete name (ts_connections s),
             ts_tasks := ts_tasks s @ [(ioLoop, DestroyConn name)]\<rparr>))"

text \<open>The callback of the idle timer: the base loop checks every connection of the table.\<close>

definition check_idle :: "int \<Rightarrow> TcpServer \<Rightarrow> TcpServer option" where
  "check_idle nowMs s =
     (let checked = map (\<lambda>(name, loop, conn).
            map_option (\<lambda>(closed, conn). (name, loop, conn))
              (checkIdleTimeout (loop = tp_baseLoop (ts_threadPool s)) nowMs conn)) (ts_connections s)
      in if None \<in> set checked then None
         else Some (s\<lparr>ts_connections := map the checked\<rparr>))"

text \<open>The destructor: the timer it cancels, if any, and the server with the tasks it gives to the loops.\<close>

definition destroy_TcpServer :: "bool \<Rightarrow> TcpServer \<Rightarrow> (u64 option \<times> TcpServer) option" where
  "destroy_TcpServer inLoop s =
     (if \<not> inLoop then None
      else Some (if ts_idleTimerId s \<noteq> 0 then Some (ts_idleTimerId s) else None,
        s\<lparr>ts_tasks := ts_tasks s
          @ map (\<lambda>(name, loop, conn). (loop, DestroyConn name)) (ts_connections s)\<rparr>))"

section \<open>Accepting and closing\<close>

datatype server_op = SvAccept nat epoll_set int accept_answer | SvClose nat

text \<open>
  \<open>SvClose i\<close> is the close callback of the \<open>i\<close>-th connection accepted, in the base loop; it may come
  more than once.
\<close>

definition conn_loop :: "bytes \<Rightarrow> TcpServer \<Rightarrow> nat" where
  "conn_loop name s = (case filter (\<lambda>(l, t). t = EstablishConn name) (ts_tasks s) of
     [] \<Rightarrow> tp_baseLoop (ts_threadPool s) | (l, _) # _ \<Rightarrow> l)"

definition server_op :: "server_op \<Rightarrow> TcpServer \<Rightarrow> TcpServer option" where
  "server_op oper s = (case oper of
     SvAccept ch ep now ans \<Rightarrow> server_readable True ch ep now ans s
   | SvClose i \<Rightarrow> removeConnectionInLoop True (connName (ts_name s) i) (conn_loop (connName (ts_name s) i) s) s)"

fun server_run :: "server_op list \<Rightarrow> TcpServer \<Rightarrow> TcpServer option" where
  "server_run [] s = Some s"
| "server_run (oper # opers) s = (case server_op oper s of None \<Rightarrow> None | Some s' \<Rightarrow> server_run opers s')"

text \<open>The tasks of one connection, in order.\<close>

definition conn_tasks :: "bytes \<Rightarrow> TcpServer \<Rightarrow> (nat \<times> task) list" where
  "conn_tasks name s = filter (\<lambda>(l, t). task_conn t = name) (ts_tasks s)"

text \<open>The loops of the accepted connections, in the order of accepting.\<close>

definition established :: "TcpServer \<Rightarrow> nat list" where
  "established s = map fst (filter (\<lambda>(l, t). \<exists>n. t = EstablishConn n) (ts_tasks s))"

section \<open>The invariant\<close>

lemma connName_inject [simp]: "connName n i = connName n j \<longleftrightarrow> i = j"
  by (simp add: connName_def)

text \<open>The state of the \<open>i\<close>-th connection: never accepted, open, or closed.\<close>

fun history_ok :: "bytes \<Rightarrow> (nat \<times> TcpConnection) option \<Rightarrow> (nat \<times> task) list \<Rightarrow> bool" where
  "history_ok n None ts \<longleftrightarrow> (\<exists>l. ts = [(l, EstablishConn n), (l, DestroyConn n)])"
| "history_ok n (Some (l, conn)) ts \<longleftrightarrow> ts = [(l, EstablishConn n)]"

definition conn_state :: "nat \<Rightarrow> TcpServer \<Rightarrow> bool" where
  "conn_state i s \<longleftrightarrow> (let n = connName (ts_name s) i in
     if 1 \<le> i \<and> i < ts_nextConnId s
     then history_ok n (map_of (ts_connections s) n) (conn_tasks n s)
     else conn_tasks n s = [] \<and> map_of (ts_connections s) n = None)"

definition pool_inv :: "EventLoopThreadPool \<Rightarrow> bool" where
  "pool_inv p \<longleftrightarrow> tp_loops p = [] \<or> tp_next p < length (tp_loops p)"

definition sv_inv :: "TcpServer \<Rightarrow> bool" where
  "sv_inv s \<longleftrightarrow> 1 \<le> ts_nextConnId s \<and> distinct (map fst (ts_connections s))
     \<and> (\<forall>i. conn_state i s) \<and> pool_inv (ts_threadPool s)"

lemma newConnection_shape:
  assumes "pool_inv (ts_threadPool s)"
  shows "\<exists>l p conn. getNextLoop True (ts_threadPool s) = Some (l, p) \<and> pool_inv p
    \<and> server_newConnection True ch ep now fd s = Some (s\<lparr>ts_nextConnId := ts_nextConnId s + 1,
        ts_threadPool := p,
        ts_connections := AList.update (connName (ts_name s) (ts_nextConnId s)) (l, conn) (ts_connections s),
        ts_tasks := ts_tasks s @ [(l, EstablishConn (connName (ts_name s) (ts_nextConnId s)))]\<rparr>)"
proof -
  obtain l p where lp: "getNextLoop True (ts_threadPool s) = Some (l, p)"
    by (cases "tp_loops (ts_threadPool s) = []") (simp_all add: getNextLoop_def Let_def)
  then have "pool_inv p"
    using assms by (auto simp: getNextLoop_def pool_inv_def Let_def split: if_splits)
  with lp show ?thesis
    by (simp add: server_newConnection_def Let_def split: prod.split) blast
qed

lemma accept_inv:
  assumes "sv_inv s"
  shows "\<exists>s'. server_newConnection True ch ep now fd s = Some s' \<and> sv_inv s'"
proof -
  obtain l p conn where shape: "pool_inv p"
    "server_newConnection True ch ep now fd s = Some (s\<lparr>ts_nextConnId := ts_nextConnId s + 1, ts_threadPool := p,
        ts_connections := AList.update (connName (ts_name s) (ts_nextConnId s)) (l, conn) (ts_connections s),
        ts_tasks := ts_tasks s @ [(l, EstablishConn (connName (ts_name s) (ts_nextConnId s)))]\<rparr>)"
    (is "_ = Some ?s")
    using newConnection_shape [of s ch ep now fd] assms by (auto simp: sv_inv_def)
  have old: "conn_state i s" for i using assms by (simp add: sv_inv_def)
  have "conn_state i ?s" for i
  proof (cases "i = ts_nextConnId s")
    case True
    with old [of i] assms show ?thesis
      by (simp add: conn_state_def conn_tasks_def Let_def map_of_AList_update sv_inv_def)
  next
    case False
    with old [of i] show ?thesis
      by (auto simp: conn_state_def conn_tasks_def Let_def map_of_AList_update less_Suc_eq)
  qed
  with shape assms show ?thesis by (auto simp: sv_inv_def distinct_update)
qed

lemma inv_acceptor [simp]: "sv_inv (s\<lparr>ts_acceptor := a\<rparr>) \<longleftrightarrow> sv_inv s"
  by (simp add: sv_inv_def conn_state_def conn_tasks_def Let_def)

lemma readable_cases:
  "(\<exists>fd a. server_readable True ch ep now ans s = server_newConnection True ch ep now fd (s\<lparr>ts_acceptor := a\<rparr>))
    \<or> (\<exists>a. server_readable True ch ep now ans s = Some (s\<lparr>ts_acceptor := a\<rparr>))"
  by (cases "socket_accept ans zero_addr 0 (ac_socket (ts_acceptor s))")
    (auto simp: server_readable_def acceptor_handleRead_def Let_def)

lemma readable_inv:
  assumes "sv_inv s"
  shows "\<exists>s'. server_readable True ch ep now ans s = Some s' \<and> sv_inv s'"
  using readable_cases [of ch ep now ans s] accept_inv [of "s\<lparr>ts_acceptor := a\<rparr>" for a] assms by fastforce

lemma conn_loop_established:
  assumes "conn_state i s" and "map_of (ts_connections s) (connName (ts_name s) i) \<noteq> None"
  shows "conn_tasks (connName (ts_name s) i) s
    = [(conn_loop (connName (ts_name s) i) s, EstablishConn (connName (ts_name s) i))]"
proof -
  let ?n = "connName (ts_name s) i"
  obtain l where l: "conn_tasks ?n s = [(l, EstablishConn ?n)]"
    using assms by (auto simp: conn_state_def Let_def split: if_splits)
  have "filter (\<lambda>(l, t). t = EstablishConn ?n) (ts_tasks s)
      = filter (\<lambda>(l, t). t = EstablishConn ?n) (conn_tasks ?n s)"
    by (auto simp: conn_tasks_def intro!: filter_cong)
  with l show ?thesis by (simp add: conn_loop_def)
qed

lemma close_server_inv:
  assumes "sv_inv s"
  shows "\<exists>s'. server_op (SvClose i) s = Some s' \<and> sv_inv s'"
proof (cases "map_of (ts_connections s) (connName (ts_name s) i)")
  case None
  with assms show ?thesis by (simp add: server_op_def removeConnectionInLoop_def)
next
  case (Some c)
  let ?n = "connName (ts_name s) i"
  let ?s = "s\<lparr>ts_connections := AList.delete ?n (ts_connections s),
    ts_tasks := ts_tasks s @ [(conn_loop ?n s, DestroyConn ?n)]\<rparr>"
  have old: "conn_state j s" for j using assms by (simp add: sv_inv_def)
  have "conn_state j ?s" for j
  proof (cases "j = i")
    case True
    with old [of i] conn_loop_established [OF old, of i] Some show ?thesis
      by (auto simp: conn_state_def conn_tasks_def Let_def delete_conv' split: if_splits)
  next
    case False
    with old [of j] show ?thesis
      by (auto simp: conn_state_def conn_tasks_def Let_def delete_conv' split: if_splits)
  qed
  with assms Some show ?thesis
    by (auto simp: server_op_def removeConnectionInLoop_def sv_inv_def distinct_delete)
qed

lemma server_run_inv:
  assumes "sv_inv s"
  shows "\<exists>s'. server_run opers s = Some s' \<and> sv_inv s'"
  using assms
proof (induction opers arbitrary: s)
  case (Cons oper opers)
  have "\<exists>s'. server_op oper s = Some s' \<and> sv_inv s'"
    using readable_inv [OF Cons.prems] close_server_inv [OF Cons.prems] by (cases oper) (simp_all add: server_op_def)
  with Cons.IH show ?case by fastforce
qed simp

text \<open>The destructor closes the history of the connections that are still open.\<close>

lemma conn_tasks_destroyed:
  assumes "distinct (map fst cs)"
  shows "filter (\<lambda>(l, t). task_conn t = n) (map (\<lambda>(name, l, conn). (l, DestroyConn name)) cs)
    = (case map_of cs n of None \<Rightarrow> [] | Some (l, conn) \<Rightarrow> [(l, DestroyConn n)])"
  using assms
proof (induction cs)
  case (Cons c cs)
  obtain name l conn where c: "c = (name, l, conn)" by (cases c) auto
  have "map_of cs n = None" if "name = n"
    using Cons.prems that by (simp add: c map_of_eq_None_iff)
  with Cons show ?case by (auto simp: c split: option.splits)
qed simp

lemma destroyed_conn:
  assumes "sv_inv s" and "destroy_TcpServer True s = Some (t, s')" and "1 \<le> i" and "i < ts_nextConnId s"
  shows "\<exists>l. conn_tasks (connName (ts_name s) i) s'
    = [(l, EstablishConn (connName (ts_name s) i)), (l, DestroyConn (connName (ts_name s) i))]"
proof -
  have "conn_state i s" "distinct (map fst (ts_connections s))" using assms(1) by (simp_all add: sv_inv_def)
  with assms(2-4) conn_tasks_destroyed [of "ts_connections s" "connName (ts_name s) i"] show ?thesis
    by (auto simp: conn_state_def conn_tasks_def Let_def destroy_TcpServer_def split: option.splits)
qed

text \<open>Round robin: the position after \<open>m\<close> connections.\<close>

lemma nth_mod_Suc:
  "0 < n \<Longrightarrow> (if Suc (m mod n) \<ge> n then 0 else Suc (m mod n)) = Suc m mod n"
  using mod_less_divisor [of n m] by (simp add: mod_Suc del: mod_less_divisor)

definition turn_inv :: "nat list \<Rightarrow> TcpServer \<Rightarrow> bool" where
  "turn_inv ls s \<longleftrightarrow> 1 \<le> ts_nextConnId s \<and> tp_loops (ts_threadPool s) = ls
     \<and> tp_next (ts_threadPool s) = (ts_nextConnId s - 1) mod length ls
     \<and> established s = map (\<lambda>j. ls ! (j mod length ls)) [0..<ts_nextConnId s - 1]"

lemma turn_accept:
  assumes "turn_inv ls s" and "ls \<noteq> []" and "server_newConnection True ch ep now fd s = Some s'"
  shows "turn_inv ls s'"
proof -
  obtain m where n: "ts_nextConnId s = Suc m"
    using assms(1) by (cases "ts_nextConnId s") (auto simp: turn_inv_def)
  then have pool: "tp_loops (ts_threadPool s) = ls" "tp_next (ts_threadPool s) = m mod length ls"
    and old: "established s = map (\<lambda>j. ls ! (j mod length ls)) [0..<m]"
    using assms(1) by (simp_all add: turn_inv_def)
  have turn: "getNextLoop True (ts_threadPool s)
      = Some (ls ! (m mod length ls), (ts_threadPool s)\<lparr>tp_next := Suc m mod length ls\<rparr>)"
    using assms(2) by (simp add: getNextLoop_def pool Let_def nth_mod_Suc [symmetric])
  have "pool_inv (ts_threadPool s)" using assms(2) by (simp add: pool_inv_def pool)
  from newConnection_shape [OF this, of ch ep now fd] turn assms(3) n pool old show ?thesis
    by (auto simp: turn_inv_def established_def)
qed

lemma turn_step:
  assumes "turn_inv ls s" and "ls \<noteq> []" and "server_op oper s = Some s'"
  shows "turn_inv ls s'"
proof (cases oper)
  case (SvAccept ch ep now ans)
  have keep: "turn_inv ls (s\<lparr>ts_acceptor := a\<rparr>)" for a
    using assms(1) by (simp add: turn_inv_def established_def)
  with turn_accept [OF keep assms(2)] readable_cases [of ch ep now ans s] assms(3) SvAccept show ?thesis
    by (auto simp: server_op_def)
next
  case (SvClose i)
  with assms show ?thesis
    by (auto simp: server_op_def removeConnectionInLoop_def turn_inv_def established_def split: if_splits)
qed

lemma turn_run:
  "turn_inv ls s \<Longrightarrow> ls \<noteq> [] \<Longrightarrow> server_run opers s = Some s' \<Longrightarrow> turn_inv ls s'"
  by (induction opers arbitrary: s) (auto intro: turn_step split: option.splits)

text \<open>A server that has just been started with \<open>ls\<close> as its loops.\<close>

definition fresh_server :: "nat list \<Rightarrow> TcpServer \<Rightarrow> bool" where
  "fresh_server ls s \<longleftrightarrow> ts_nextConnId s = 1 \<and> ts_connections s = [] \<and> ts_tasks s = []
     \<and> tp_loops (ts_threadPool s) = ls \<and> tp_next (ts_threadPool s) = 0"

definition two_loops :: TcpServer where
  "two_loops = (let s = new_TcpServer 0 (str ''10.0.0.1'') 1 3 zero_addr 0 []
     in s\<lparr>ts_started := True, ts_threadPool := pool_start Suc (setThreadNum 2 (ts_threadPool s))\<rparr>)"

lemma fresh_server_inv: "fresh_server ls s \<Longrightarrow> sv_inv s"
  by (auto simp: sv_inv_def fresh_server_def conn_state_def conn_tasks_def pool_inv_def Let_def)

lemma two_loops_fresh: "fresh_server [1, 2] two_loops"
  by (simp add: fresh_server_def two_loops_def new_TcpServer_def Let_def pool_start_def setThreadNum_def
      new_ThreadPool_def numeral_2_eq_2)

section \<open>Properties\<close>



text \<open>New connections go to the I/O loops in turn: the \<open>j\<close>-th of them, counted from 0, to loop
  \<open>j\<close> modulo their number, whatever is closed in between.
\<close>

theorem server_round_robin:
  assumes "fresh_server ls s" and "ls \<noteq> []" and "server_run opers s = Some s'"
  shows "established s' = map (\<lambda>j. ls ! (j mod length ls)) [0..<ts_nextConnId s' - 1]"
proof -
  have "turn_inv ls s"
    using assms(1) by (simp add: turn_inv_def fresh_server_def established_def)
  from turn_run [OF this assms(2,3)] show ?thesis by (simp add: turn_inv_def)
qed

theorem server_round_robin_witness:
  "\<exists>s'. server_run [SvAccept 5 [] 0 (Inr (7, zero_addr)), SvAccept 6 [] 0 (Inr (8, zero_addr)), SvAccept 7 [] 0 (Inr (9, zero_addr))] two_loops = Some s'
    \<and> established s' = map (\<lambda>j. [1, 2] ! (j mod length [1, 2 :: nat])) [0..<ts_nextConnId s' - 1]"
proof -
  have "sv_inv two_loops"
    using two_loops_fresh by (rule fresh_server_inv)
  from server_run_inv [OF this] obtain s' where
    run: "server_run [SvAccept 5 [] 0 (Inr (7, zero_addr)), SvAccept 6 [] 0 (Inr (8, zero_addr)), SvAccept 7 [] 0 (Inr (9, zero_addr))] two_loops = Some s'" by blast
  with server_round_robin [OF two_loops_fresh _ run] show ?thesis by simp
qed

text \<open>The idle check of one connection of another loop: it closes exactly the connections idle too long.\<close>

lemma idle_check_exact:
  assumes "tc_state conn = kConnected" and "0 < tc_idleTimeoutSeconds conn"
  shows "checkIdleTimeout False now conn = Some
    (if tc_lastActiveTimeMs conn + 1000 * tc_idleTimeoutSeconds conn \<le> now
     then (True, emit QueueHandleClose (conn\<lparr>tc_state := kDisconnecting\<rparr>)) else (False, conn))"
proof -
  have "tc_idleTimeoutSeconds conn \<le> (now - tc_lastActiveTimeMs conn) div 1000
      \<longleftrightarrow> tc_lastActiveTimeMs conn + 1000 * tc_idleTimeoutSeconds conn \<le> now"
    by linarith
  with assms show ?thesis by (simp add: checkIdleTimeout_def forceClose_def)
qed

text \<open>The listening descriptor is closed exactly once, by the destructor of the acceptor.\<close>

lemma acceptor_closes_once:
  assumes "closes (ac_socket a) = 0" and "destroy_Acceptor True a = Some a'"
  shows "closes (ac_socket a') = 1"
  using assms by (auto simp: destroy_Acceptor_def bind_eq_Some_conv)

text \<open>Out of descriptors: nothing is accepted, and the channel is still registered for reading, so the
  readiness that has not been consumed is reported again at once.\<close>

lemma accept_out_of_descriptors:
  "acceptor_handleRead True (Inl e) a
    = Some (NothingAccepted, a\<lparr>ac_socket := sys SysAccept4 (ac_socket a)\<rparr>)"
  by (simp add: acceptor_handleRead_def accept_reports)

text \<open>A failing \<^verbatim>\<open>bind\<close> or \<^verbatim>\<open>listen\<close> goes unnoticed: the server starts in the same state.\<close>

lemma listen_failure_ignored:
  "server_start inLoop sl timer (- 1) (new_TcpServer base name ch fd addr (- 1) ep)
    = server_start inLoop sl timer 0 (new_TcpServer base name ch fd addr 0 ep)"
  by (simp add: server_start_def new_TcpServer_def new_Acceptor_def listen_def bindAddress_def socket_listen_def Let_def)

end
