(* ===== verification/ServerStack.thy ===== *)
theory ServerStack
  imports EndToEnd TcpServer
begin

text \<open>
  The RPC server on the network: \<open>RpcServer\<close> with the \<open>TcpServer\<close> it owns (\<^verbatim>\<open>src/src/server/rpc_server.cc\<close>),
  and one of its connections with everything on it: \<^verbatim>\<open>onMessage\<close> as the message
  callback of a \<open>TcpConnection\<close>, fed by \<^verbatim>\<open>handleRead\<close> from the kernel and answering through
  \<^verbatim>\<open>send\<close> and \<^verbatim>\<open>handleWrite\<close>.  The events are the kernel's and the timer's: bytes arrive, in pieces of
  any size, the socket becomes writable, breaks or idles out; the kernel takes as much of each write as it likes.
\<close>

section \<open>The server and its listener\<close>

record 's rpc_app =
  ap_server :: TcpServer
  ap_rpc :: "'s RpcServer"

text \<open>The constructor sets two of the three callbacks.\<close>

definition new_RpcServer :: "nat \<Rightarrow> bytes \<Rightarrow> nat \<Rightarrow> int \<Rightarrow> sockaddr_in \<Rightarrow> int \<Rightarrow> epoll_set \<Rightarrow> 's rpc_app" where
  "new_RpcServer base name ch fd listenAddr bound ep =
     \<lparr>ap_server = (new_TcpServer base name ch fd listenAddr bound ep)\<lparr>ts_callbacks := (True, True, False)\<rparr>,
      ap_rpc = \<lparr>rs_services = []\<rparr>\<rparr>"

definition rpc_registerService :: "(bytes \<times> 's RpcService) option \<Rightarrow> 's rpc_app \<Rightarrow> 's rpc_app" where
  "rpc_registerService service app = app\<lparr>ap_rpc := server_registerService service (ap_rpc app)\<rparr>"

definition server_setThreadNum :: "int \<Rightarrow> TcpServer \<Rightarrow> TcpServer" where
  "server_setThreadNum n s = s\<lparr>ts_threadPool := setThreadNum n (ts_threadPool s)\<rparr>"

definition server_setIdleTimeout :: "int \<Rightarrow> TcpServer \<Rightarrow> TcpServer" where
  "server_setIdleTimeout seconds s = s\<lparr>ts_idleTimeoutSeconds := seconds\<rparr>"

definition rpc_setThreadNum :: "int \<Rightarrow> 's rpc_app \<Rightarrow> 's rpc_app" where
  "rpc_setThreadNum n app = app\<lparr>ap_server := server_setThreadNum n (ap_server app)\<rparr>"

definition rpc_setIdleTimeout :: "int \<Rightarrow> 's rpc_app \<Rightarrow> 's rpc_app" where
  "rpc_setIdleTimeout seconds app = app\<lparr>ap_server := server_setIdleTimeout seconds (ap_server app)\<rparr>"

definition rpc_start :: "bool \<Rightarrow> (nat \<Rightarrow> nat) \<Rightarrow> u64 \<Rightarrow> int \<Rightarrow> 's rpc_app \<Rightarrow> 's rpc_app option" where
  "rpc_start inLoop startLoop timerId ret app =
     map_option (\<lambda>s. app\<lparr>ap_server := s\<rparr>) (server_start inLoop startLoop timerId ret (ap_server app))"

section \<open>The server's callback on a connection\<close>

text \<open>\<open>ans k\<close> is what the kernel answers to the \<open>k\<close>-th \<^verbatim>\<open>send\<close> of a callback, if it is asked.\<close>

fun send_all :: "(nat \<Rightarrow> write_answer \<times> so_error) \<Rightarrow> nat \<Rightarrow> bytes list \<Rightarrow> TcpConnection \<Rightarrow> TcpConnection option" where
  "send_all ans k [] t = Some t"
| "send_all ans k (packet # packets) t =
     (case send True packet (fst (ans k)) (snd (ans k)) t of
        None \<Rightarrow> None
      | Some t' \<Rightarrow> send_all ans (Suc k) packets t')"

text \<open>
  The callback.  Its loop sends each reply as soon as it has it; sending leaves the input buffer and
  the state of the handlers alone (\<open>send_keeps\<close>), so the sends are listed after the decoding here.
\<close>

definition rpc_onMessage :: "pb_runtime \<Rightarrow> (nat \<Rightarrow> int) \<Rightarrow> MsgType \<Rightarrow> u64 \<Rightarrow> 's RpcServer
    \<Rightarrow> (nat \<Rightarrow> write_answer \<times> so_error) \<Rightarrow> 's \<Rightarrow> TcpConnection \<Rightarrow> TcpConnection option" where
  "rpc_onMessage rt time ty i srv ans s t =
     (case onMessage rt time ty i srv (tc_inputBuffer t) s of
        (packets, buf, s') \<Rightarrow> send_all ans 0 packets (t\<lparr>tc_inputBuffer := buf\<rparr>))"

text \<open>The state of the handlers after \<^verbatim>\<open>handleRead\<close> has run the callback, or has not.\<close>

definition rpc_state :: "pb_runtime \<Rightarrow> (nat \<Rightarrow> int) \<Rightarrow> MsgType \<Rightarrow> u64 \<Rightarrow> 's RpcServer
    \<Rightarrow> readv_answer list \<Rightarrow> 's \<Rightarrow> TcpConnection \<Rightarrow> 's" where
  "rpc_state rt time ty i srv answers s t =
     (case readFd (tc_inputBuffer t) answers of
        None \<Rightarrow> s
      | Some (n, savedErrno, buf, rest) \<Rightarrow>
          if n > 0 \<and> tc_messageCallback t then snd (snd (onMessage rt time ty i srv buf s)) else s)"

section \<open>Events\<close>

text \<open>\<open>Closes\<close> is \<^verbatim>\<open>handleClose\<close>, called for a peer that closed or queued by \<^verbatim>\<open>forceClose\<close>.  The idle
  check runs in the base loop, which may be the connection's own or not.\<close>

datatype server_event =
    Arrive bytes "nat \<Rightarrow> int" MsgType u64 "nat \<Rightarrow> write_answer \<times> so_error" int
  | CanWrite write_answer so_error int
  | Closes
  | Fault so_error
  | IdleCheck bool int

fun server_conn_step ::
    "pb_runtime \<Rightarrow> 's RpcServer \<Rightarrow> server_event \<Rightarrow> 's \<times> TcpConnection \<Rightarrow> ('s \<times> TcpConnection) option" where
  "server_conn_step rt srv (Arrive x time ty i ans now) (s, t) =
     map_option (Pair (rpc_state rt time ty i srv [ReadvData x] s t))
       (handleRead True (rpc_onMessage rt time ty i srv ans s) [ReadvData x] (Inr 0) now t)"
| "server_conn_step rt srv (CanWrite ans so now) (s, t) = map_option (Pair s) (handleWrite True ans so now t)"
| "server_conn_step rt srv Closes (s, t) = map_option (Pair s) (handleClose True t)"
| "server_conn_step rt srv (Fault so) (s, t) = map_option (Pair s) (handleError True so t)"
| "server_conn_step rt srv (IdleCheck inLoop now) (s, t) =
     map_option (\<lambda>r. (s, snd r)) (checkIdleTimeout inLoop now t)"

fun server_conn_run ::
    "pb_runtime \<Rightarrow> 's RpcServer \<Rightarrow> server_event list \<Rightarrow> 's \<times> TcpConnection \<Rightarrow> ('s \<times> TcpConnection) option" where
  "server_conn_run rt srv [] st = Some st"
| "server_conn_run rt srv (ev # evs) st =
     (case server_conn_step rt srv ev st of None \<Rightarrow> None | Some st' \<Rightarrow> server_conn_run rt srv evs st')"

fun arrives :: "server_event \<Rightarrow> bytes" where
  "arrives (Arrive x time ty i ans now) = x"
| "arrives _ = []"

text \<open>What the kernel can do: a read returns something, at most what the second block of \<^verbatim>\<open>readv\<close>
  holds, and a connection that is broken when written to is reported by \<^verbatim>\<open>getsockopt\<close> too.\<close>

definition write_ok :: "write_answer \<times> so_error \<Rightarrow> bool" where
  "write_ok a \<longleftrightarrow> (fst a \<in> {WriteError EPIPE, WriteError ECONNRESET} \<longrightarrow> snd a \<noteq> Inl 0 \<and> snd a \<noteq> Inr 0)"

fun event_ok :: "server_event \<Rightarrow> bool" where
  "event_ok (Arrive x time ty i ans now) \<longleftrightarrow> x \<noteq> [] \<and> length x \<le> extrabuf_size \<and> (\<forall>k. write_ok (ans k))"
| "event_ok _ \<longleftrightarrow> True"

section \<open>What sending leaves alone\<close>

definition keeps :: "TcpConnection \<Rightarrow> TcpConnection \<Rightarrow> bool" where
  "keeps t t' \<longleftrightarrow> tc_inputBuffer t' = tc_inputBuffer t \<and> tc_messageCallback t' = tc_messageCallback t
     \<and> (tc_state t' = kConnected \<longrightarrow> tc_state t = kConnected)"

lemma keeps_trans: "keeps t u \<Longrightarrow> keeps u v \<Longrightarrow> keeps t v"
  by (auto simp: keeps_def)

lemma keeps_refl [simp]: "keeps t t" by (simp add: keeps_def)

lemma on_channel_keeps:
  assumes "on_channel f t = Some t'"
  shows "tc_inputBuffer t' = tc_inputBuffer t \<and> tc_messageCallback t' = tc_messageCallback t \<and> tc_state t' = tc_state t"
  using assms by (auto simp: on_channel_def)

lemma emit_if_keeps [simp]:
  "tc_inputBuffer (emit_if b e t) = tc_inputBuffer t" "tc_messageCallback (emit_if b e t) = tc_messageCallback t"
  "tc_state (emit_if b e t) = tc_state t"
  by (simp_all add: emit_if_def)

lemma handleClose_keeps:
  assumes "handleClose True t = Some t'"
  shows "keeps t t'"
proof (cases "tc_state t = kDisconnected")
  case False
  then obtain u where u: "on_channel (disableAll True) (t\<lparr>tc_state := kDisconnected\<rparr>) = Some u"
    and t': "t' = emit_if (tc_closeCallback u) CloseCallback (emit_if (tc_connectionCallback u) (ConnectionCb (tc_state u)) u)"
    using assms unfolding handleClose_def by (simp split: if_split_asm) blast
  from on_channel_keeps [OF u] show ?thesis by (simp add: keeps_def t')
qed (use assms in \<open>simp add: handleClose_def\<close>)

lemma handleError_keeps: "handleError True so t = Some t' \<Longrightarrow> keeps t t'"
  using handleClose_keeps by (force simp: handleError_def Let_def split: if_split_asm)

lemma buffer_rest_keeps: "buffer_rest True rest t = Some t' \<Longrightarrow> keeps t t'"
  by (auto simp: buffer_rest_def on_channel_def Let_def keeps_def split: if_splits)

lemma send_keeps:
  assumes "send True m ans so t = Some t'"
  shows "keeps t t'"
proof -
  have "keeps t t'" if "buffer_rest True r (emit_if b QueueWriteComplete (emit (Written w) t)) = Some t'" for b w r
    using buffer_rest_keeps [OF that] by (simp add: keeps_def)
  with assms buffer_rest_keeps handleError_keeps show ?thesis
    unfolding send_def sendInLoop_def
    by (cases ans) (auto split: if_split_asm)
qed

text \<open>What is left to \<^verbatim>\<open>handleWrite\<close> once the kernel took something.\<close>

lemma written_keeps:
  assumes "Option.bind (on_channel (disableWriting True) u)
      (\<lambda>t. let t = emit_if (tc_writeCompleteCallback t) QueueWriteComplete t
           in if tc_state t = kDisconnecting then shutdownInLoop True t else Some t) = Some t'"
  shows "keeps u t'"
proof -
  obtain v where v: "on_channel (disableWriting True) u = Some v"
    and t': "(let t = emit_if (tc_writeCompleteCallback v) QueueWriteComplete v
      in if tc_state t = kDisconnecting then shutdownInLoop True t else Some t) = Some t'"
    using assms by (auto simp: bind_eq_Some_conv)
  then have "keeps v t'"
    by (auto simp: keeps_def shutdownInLoop_def Let_def split: if_split_asm)
  with on_channel_keeps [OF v] show ?thesis by (simp add: keeps_def)
qed

lemma handleWrite_keeps:
  assumes "handleWrite True ans so now t = Some t'"
  shows "keeps t t'"
proof -
  define u where "u = updateActiveTime now t"
  have "keeps t t'" if "keeps u t'"
    using that by (simp add: keeps_def u_def updateActiveTime_def)
  moreover have "keeps u t'"
  proof (cases ans)
    case (Wrote n)
    define v where "v = (emit (Written (take n (take (readableBytes (tc_outputBuffer u)) (peek (tc_outputBuffer u))))) u)
      \<lparr>tc_outputBuffer := retrieve (tc_outputBuffer u) n\<rparr>"
    have "keeps u t'" if "keeps v t'" using that by (simp add: keeps_def v_def)
    with Wrote assms handleError_keeps written_keeps [of v] show ?thesis
      by (auto simp: handleWrite_def u_def [symmetric] Let_def v_def split: if_split_asm)
  qed (use assms handleError_keeps in \<open>auto simp: handleWrite_def u_def [symmetric] Let_def split: if_split_asm\<close>)
  ultimately show ?thesis by blast
qed

lemma checkIdleTimeout_keeps:
  assumes "checkIdleTimeout inLoop now t = Some (b, t')"
  shows "keeps t t'"
proof -
  have "keeps t t'" if "handleClose True (t\<lparr>tc_state := kDisconnecting\<rparr>) = Some t'"
    using handleClose_keeps [OF that] by (simp add: keeps_def)
  moreover have "keeps t (emit QueueHandleClose (t\<lparr>tc_state := kDisconnecting\<rparr>))"
    by (simp add: keeps_def)
  ultimately show ?thesis
    using assms by (auto simp: checkIdleTimeout_def forceClose_def Let_def split: if_split_asm)
qed

lemma checkIdleTimeout_inv:
  "conn_inv out t \<Longrightarrow> \<exists>b t'. checkIdleTimeout inLoop now t = Some (b, t') \<and> conn_inv out t'"
  using forceClose_inv [of out t inLoop] by (auto simp: checkIdleTimeout_def Let_def)

text \<open>A connection that took \<open>out\<close> for sending, or a prefix of it and is no longer open.\<close>

definition live :: "bytes \<Rightarrow> TcpConnection \<Rightarrow> bool" where
  "live out t \<longleftrightarrow> tc_messageCallback t
     \<and> (\<exists>out'. prefix out' out \<and> conn_inv out' t \<and> (tc_state t = kConnected \<longrightarrow> out' = out))"

lemma live_keeps:
  assumes "live out t" and "\<And>out. conn_inv out t \<Longrightarrow> \<exists>t'. f t = Some t' \<and> conn_inv out t'"
    and "\<And>t'. f t = Some t' \<Longrightarrow> keeps t t'"
  shows "\<exists>t'. f t = Some t' \<and> live out t' \<and> tc_inputBuffer t' = tc_inputBuffer t"
proof -
  obtain out' where out': "prefix out' out" "conn_inv out' t" "tc_state t = kConnected \<longrightarrow> out' = out"
    using assms(1) by (auto simp: live_def)
  with assms(2) obtain t' where t': "f t = Some t'" "conn_inv out' t'" by blast
  with assms(3) have "keeps t t'" by blast
  with out' t' assms(1) show ?thesis by (auto simp: live_def keeps_def)
qed

lemma send_live:
  assumes "live out t" and "write_ok a"
  shows "\<exists>t'. send True m (fst a) (snd a) t = Some t' \<and> live (out @ m) t' \<and> keeps t t'"
proof (cases "tc_state t = kConnected")
  case True
  have "op_ok (OpSend m (fst a) (snd a)) t" using assms(2) by (simp add: op_ok_def write_ok_def)
  with True assms(1) obtain t' where t': "send True m (fst a) (snd a) t = Some t'" "conn_inv (out @ m) t'"
    using sendInLoop_inv [of out t m "fst a" "snd a"] by (auto simp: send_def live_def)
  with send_keeps [OF t'(1)] assms(1) show ?thesis by (auto simp: live_def keeps_def)
next
  case False
  with assms(1) show ?thesis by (auto simp: live_def send_def intro: prefix_prefix)
qed

lemma send_all_live:
  assumes "live out t" and "\<forall>k. write_ok (ans k)"
  shows "\<exists>t'. send_all ans k packets t = Some t' \<and> live (out @ concat packets) t' \<and> keeps t t'"
  using assms(1)
proof (induction packets arbitrary: k t out)
  case (Cons p ps)
  obtain u where u: "send True p (fst (ans k)) (snd (ans k)) t = Some u" "live (out @ p) u" "keeps t u"
    using send_live [OF Cons.prems] assms(2) by blast
  from Cons.IH [OF this(2), of "Suc k"] u(1,3) show ?case
    by (auto intro: keeps_trans)
qed simp

section \<open>Reads, calls and replies\<close>

lemma serve_calls_append:
  "serve_calls srv (cs @ ds) s =
     (case serve_calls srv cs s of (rs, s') \<Rightarrow> case serve_calls srv ds s' of (rs', s'') \<Rightarrow> (rs @ rs', s''))"
  by (induction srv cs s rule: serve_calls.induct) (auto split: prod.split)

lemma readFd_all:
  assumes "buf_inv b" and "length x \<le> extrabuf_size"
  shows "\<exists>b'. readFd b [ReadvData x] = Some (int (length x), None, b', []) \<and> buf_inv b' \<and> content b' = content b @ x"
proof -
  have "length x \<le> iov_capacity b" using assms(2) by (simp add: iov_capacity_def)
  then show ?thesis using readFd_store_spec [OF assms(1), of x] by simp
qed

definition request_msg :: "remote_call \<Rightarrow> message" where
  "request_msg = (\<lambda>(i, service, method, req). RequestMsg i service method req)"

definition replies :: "pb_runtime \<Rightarrow> 's RpcServer \<Rightarrow> remote_call list \<Rightarrow> 's \<Rightarrow> bytes" where
  "replies rt srv cs s = concat (map (reply_packet rt) (fst (serve_calls srv cs s)))"

text \<open>The packets that one read completes are served and answered, and the rest stays in the buffer.\<close>

lemma arrive_live:
  assumes "live out t" and ok: "event_ok (Arrive x time ty i ans now)"
    and "list_all (wire_ok rt) ds" and "list_all (wire_ok rt) later" and msgs: "map (wire_msg rt) ds = map request_msg cs"
    and "content (tc_inputBuffer t) @ x = concat (map wire ds) @ part" and "unfinished wire later part rest"
    and "length (content (tc_inputBuffer t) @ x) \<le> kMaxBufferSize"
  shows "\<exists>t'. server_conn_step rt srv (Arrive x time ty i ans now) (s, t) = Some (snd (serve_calls srv cs s), t')
    \<and> live (out @ replies rt srv cs s) t' \<and> content (tc_inputBuffer t') = part"
proof -
  define u where "u = updateActiveTime now t"
  have u: "live out u" "tc_inputBuffer u = tc_inputBuffer t" "tc_messageCallback u" "tc_messageCallback t"
    using assms(1) by (simp_all add: u_def live_def) (simp_all add: updateActiveTime_def)
  have "buf_inv (tc_inputBuffer t)" using assms(1) by (auto simp: live_def conn_inv_def)
  with ok obtain b where b: "readFd (tc_inputBuffer t) [ReadvData x] = Some (int (length x), None, b, [])" "buf_inv b"
      "content b = content (tc_inputBuffer t) @ x"
    using readFd_all [of "tc_inputBuffer t" x] by auto
  have "\<exists>b'. decode_loop rt (new_packet ty i) b = (map (wire_msg rt) ds, b') \<and> buf_inv b' \<and> content b' = part"
    by (rule decode_loop_stream [where later = later and rest = rest]) (use assms b in simp_all)
  then obtain b' where b': "decode_loop rt (new_packet ty i) b = (map (wire_msg rt) ds, b')" "buf_inv b'" "content b' = part"
    by blast
  have m: "onMessage rt time ty i srv b s
      = (map (reply_packet rt) (fst (serve_calls srv cs s)), b', snd (serve_calls srv cs s))"
    using b'(1) serve_all_calls [of rt time srv 0 cs s]
    by (simp add: onMessage_serves msgs request_msg_def split: prod.split)
  have "live out (u\<lparr>tc_inputBuffer := b'\<rparr>)"
    using u(1) b'(2) by (auto simp: live_def)
  from send_all_live [OF this, of ans 0 "map (reply_packet rt) (fst (serve_calls srv cs s))"] ok
  obtain t' where t': "send_all ans 0 (map (reply_packet rt) (fst (serve_calls srv cs s))) (u\<lparr>tc_inputBuffer := b'\<rparr>) = Some t'"
      "live (out @ replies rt srv cs s) t'" "keeps (u\<lparr>tc_inputBuffer := b'\<rparr>) t'"
    by (auto simp: replies_def)
  then have "content (tc_inputBuffer t') = part" using b'(3) by (simp add: keeps_def)
  moreover have "handleRead True (rpc_onMessage rt time ty i srv ans s) [ReadvData x] (Inr 0) now t = Some t'"
    using ok b(1) m t'(1) u unfolding handleRead_def u_def [symmetric] by (simp add: Let_def rpc_onMessage_def del: readFd.simps)
  moreover have "rpc_state rt time ty i srv [ReadvData x] s t = snd (serve_calls srv cs s)"
    using ok b(1) m u(4) by (simp add: rpc_state_def del: readFd.simps)
  ultimately show ?thesis using t'(2) by simp
qed

text \<open>The other events leave what was sent and the input alone.\<close>

lemma other_live:
  assumes "live out t" and "\<And>x time ty i ans now. ev \<noteq> Arrive x time ty i ans now"
  shows "\<exists>t'. server_conn_step rt srv ev (s, t) = Some (s, t') \<and> live out t' \<and> tc_inputBuffer t' = tc_inputBuffer t"
proof (cases ev)
  case (CanWrite ans so now)
  with live_keeps [OF assms(1) handleWrite_inv handleWrite_keeps] show ?thesis by fastforce
next
  case Closes
  with live_keeps [OF assms(1), of "handleClose True"] handleClose_inv handleClose_keeps show ?thesis by fastforce
next
  case (Fault so)
  with live_keeps [OF assms(1) handleError_inv handleError_keeps] show ?thesis by fastforce
next
  case (IdleCheck inLoop now)
  let ?f = "\<lambda>t. map_option snd (checkIdleTimeout inLoop now t)"
  have "\<exists>t'. ?f t = Some t' \<and> live out t' \<and> tc_inputBuffer t' = tc_inputBuffer t"
    by (rule live_keeps [OF assms(1)]) (use checkIdleTimeout_inv checkIdleTimeout_keeps in fastforce)+
  with IdleCheck show ?thesis by auto
qed (use assms(2) in blast)

lemma conn_run_live:
  assumes "live out t" and "list_all event_ok evs" and "list_all (wire_ok rt) ks"
    and "map (wire_msg rt) ks = map request_msg cs"
    and "unfinished wire ks (content (tc_inputBuffer t)) (concat (map arrives evs))"
    and "\<forall>k \<in> set ks. length (wire k) + extrabuf_size \<le> kMaxBufferSize"
  shows "\<exists>t'. server_conn_run rt srv evs (s, t) = Some (snd (serve_calls srv cs s), t')
    \<and> live (out @ replies rt srv cs s) t' \<and> content (tc_inputBuffer t') = []"
  using assms
proof (induction evs arbitrary: out s t ks cs)
  case Nil
  then have "ks = []"
    using codec_stream.w_nonempty by (cases ks) (auto simp: unfinished_def)
  with Nil show ?case by (simp add: unfinished_def replies_def)
next
  case (Cons ev evs)
  show ?case
  proof (cases "\<exists>x time ty i ans now. ev = Arrive x time ty i ans now")
    case False
    then obtain t' where t': "server_conn_step rt srv ev (s, t) = Some (s, t')" "live out t'"
        "tc_inputBuffer t' = tc_inputBuffer t"
      using other_live [OF Cons.prems(1), of ev rt srv s] by blast
    have "arrives ev = []" using False by (cases ev) auto
    then have "unfinished wire ks (content (tc_inputBuffer t')) (concat (map arrives evs))"
      using Cons.prems(5) t'(3) by simp
    with Cons.IH [OF t'(2), of ks cs s] Cons.prems t'(1) show ?thesis by simp
  next
    case True
    then obtain x time ty i ans now where ev: "ev = Arrive x time ty i ans now" by blast
    have "(content (tc_inputBuffer t) @ x) @ concat (map arrives evs) = concat (map wire ks)"
      using Cons.prems(5) by (simp add: unfinished_def ev)
    from codec_stream.split_packets [OF this] obtain ds later part where ks: "ks = ds @ later"
      and px: "content (tc_inputBuffer t) @ x = concat (map wire ds) @ part"
      and part: "unfinished wire later part (concat (map arrives evs))" by blast
    obtain cs1 cs2 where cs: "cs = cs1 @ cs2" "map (wire_msg rt) ds = map request_msg cs1"
        "map (wire_msg rt) later = map request_msg cs2"
      using Cons.prems(4) unfolding ks by (auto simp: append_eq_map_conv map_eq_append_conv)
    have len: "length (content (tc_inputBuffer t) @ x) \<le> kMaxBufferSize"
      using Cons.prems(2,5,6) ev by (cases ks) (auto simp: unfinished_def kMaxBufferSize_def extrabuf_size_def)
    obtain t' where t': "server_conn_step rt srv ev (s, t) = Some (snd (serve_calls srv cs1 s), t')"
        "live (out @ replies rt srv cs1 s) t'" "content (tc_inputBuffer t') = part"
      using arrive_live [OF Cons.prems(1) _ _ _ cs(2) px part len, of time ty i ans now srv s] Cons.prems(2,3) ev ks by auto
    with Cons.IH [OF t'(2), of later cs2 "snd (serve_calls srv cs1 s)"] Cons.prems ks cs part show ?thesis
      by (auto simp: serve_calls_append replies_def split: prod.splits)
  qed
qed

lemma live_output:
  assumes "live out t"
  shows "prefix (sent t) out \<and> (tc_state t = kConnected \<longrightarrow> sent t @ content (tc_outputBuffer t) = out)"
proof -
  obtain out' where out': "prefix out' out" "conn_inv out' t" "tc_state t = kConnected \<longrightarrow> out' = out"
    using assms by (auto simp: live_def)
  then have "prefix (sent t) out'"
    by (cases "tc_state t") (auto simp: conn_inv_def)
  with out' show ?thesis by (auto simp: conn_inv_def intro: prefix_order.trans)
qed

section \<open>Accepting a connection\<close>

text \<open>A server on its way to \<^verbatim>\<open>start\<close>.\<close>

inductive configured :: "'s rpc_app \<Rightarrow> bool" where
  conf_new: "configured (new_RpcServer base name ch fd listenAddr bound ep)"
| conf_service: "configured app \<Longrightarrow> configured (rpc_registerService service app)"
| conf_threads: "configured app \<Longrightarrow> configured (rpc_setThreadNum n app)"
| conf_idle: "configured app \<Longrightarrow> configured (rpc_setIdleTimeout seconds app)"

definition idle_listener :: "TcpServer \<Rightarrow> bool" where
  "idle_listener s \<longleftrightarrow> ts_callbacks s = (True, True, False) \<and> ac_newConnectionCallback (ts_acceptor s)"

lemma configured_server:
  "configured app \<Longrightarrow> fresh_server [] (ap_server app) \<and> idle_listener (ap_server app)"
  by (induction rule: configured.induct)
    (simp_all add: new_RpcServer_def new_TcpServer_def new_Acceptor_def new_ThreadPool_def rpc_registerService_def
      rpc_setThreadNum_def rpc_setIdleTimeout_def server_setThreadNum_def server_setIdleTimeout_def setThreadNum_def
      fresh_server_def idle_listener_def Let_def)

lemma started_server:
  assumes "configured app0" and "rpc_start True startLoop timerId ret app0 = Some app"
  shows "sv_inv (ap_server app) \<and> idle_listener (ap_server app) \<and> ap_rpc app = ap_rpc app0"
proof -
  obtain s where s: "server_start True startLoop timerId ret (ap_server app0) = Some s" "app = app0\<lparr>ap_server := s\<rparr>"
    using assms(2) by (auto simp: rpc_start_def)
  have "\<exists>ls. fresh_server ls s \<and> idle_listener s"
    using s(1) configured_server [OF assms(1)]
    by (auto simp: server_start_def listen_def fresh_server_def idle_listener_def pool_start_def Let_def split: if_split_asm)
  with s(2) fresh_server_inv show ?thesis by auto
qed

lemma run_listens:
  assumes "server_run opers s = Some s'" and "idle_listener s"
  shows "idle_listener s'"
  using assms
proof (induction opers arbitrary: s)
  case (Cons oper opers)
  then obtain s1 where s1: "server_op oper s = Some s1" "server_run opers s1 = Some s'"
    by (auto split: option.splits)
  have "idle_listener s1"
  proof (cases oper)
    case (SvAccept ch ep now ans)
    obtain fd addr e sock where "socket_accept ans zero_addr 0 (ac_socket (ts_acceptor s)) = (fd, addr, e, sock)"
      by (cases "socket_accept ans zero_addr 0 (ac_socket (ts_acceptor s))")
    with SvAccept s1(1) Cons.prems(2) show ?thesis
      by (auto simp: server_op_def server_readable_def acceptor_handleRead_def server_newConnection_def idle_listener_def
          Let_def split: if_split_asm)
  next
    case (SvClose i)
    with s1(1) Cons.prems(2) show ?thesis
      by (auto simp: server_op_def removeConnectionInLoop_def idle_listener_def split: if_split_asm)
  qed
  with Cons.IH [OF s1(2)] show ?case by blast
qed simp

text \<open>The connection the listener makes of an accepted descriptor.\<close>

definition accepted_conn :: "nat \<Rightarrow> epoll_set \<Rightarrow> int \<Rightarrow> int \<Rightarrow> TcpServer \<Rightarrow> TcpConnection" where
  "accepted_conn ch ep now fd s =
     (set_up ch fd ep now True False)\<lparr>tc_idleTimeoutSeconds := max 0 (ts_idleTimeoutSeconds s)\<rparr>"

lemma readable_accepts:
  assumes "sv_inv s" and "idle_listener s" and "0 \<le> fd"
  shows "\<exists>s' l. server_readable True ch ep now (Inr (fd, peer)) s = Some s'
    \<and> map_of (ts_connections s') (connName (ts_name s) (ts_nextConnId s)) = Some (l, accepted_conn ch ep now fd s)"
proof -
  obtain l p where "getNextLoop True (ts_threadPool s) = Some (l, p)"
    by (cases "tp_loops (ts_threadPool s) = []") (simp_all add: getNextLoop_def Let_def)
  with assms show ?thesis
    by (auto simp: server_readable_def acceptor_handleRead_def socket_accept_def idle_listener_def server_newConnection_def
        Let_def map_of_AList_update accepted_conn_def set_up_def setIdleTimeout_def updateActiveTime_def
        new_TcpConnection_def max_def)
qed

lemma established_idle:
  "connectEstablished True (c\<lparr>tc_idleTimeoutSeconds := k\<rparr>)
    = map_option (\<lambda>t. t\<lparr>tc_idleTimeoutSeconds := k\<rparr>) (connectEstablished True c)"
  by (cases "enableReading True ((tc_channel c)\<lparr>cn_tieSet := True\<rparr>) (tc_epoll c)")
    (simp_all add: connectEstablished_def on_channel_def Let_def emit_if_def emit_def split: prod.split)

lemma established_live:
  assumes "map_of ep fd = None"
  shows "\<exists>t. connectEstablished True (accepted_conn ch ep now fd s) = Some t \<and> live [] t \<and> tc_state t = kConnected
    \<and> content (tc_inputBuffer t) = []"
proof -
  define k where "k = max 0 (ts_idleTimeoutSeconds s)"
  let ?c = "set_up ch fd ep now True False"
  let ?u = "?c\<lparr>tc_state := kConnected, tc_channel := (tc_channel ?c)\<lparr>cn_tieSet := True\<rparr>\<rparr>"
  have "registered (tc_channel ?u) (tc_epoll ?u)"
    using assms by (simp add: set_up_def new_TcpConnection_def updateActiveTime_def registered_def new_Channel_def)
  from on_channel_update [OF this, of "\<lambda>c. cn_events c OR kReadEvent"] obtain c ep' where
    v: "on_channel (enableReading True) ?u = Some (?u\<lparr>tc_channel := c, tc_epoll := ep'\<rparr>)"
    unfolding enableReading_def [abs_def] by blast
  define t where "t = emit (ConnectionCb kConnected) (?u\<lparr>tc_channel := c, tc_epoll := ep'\<rparr>)"
  have t: "connectEstablished True ?c = Some t"
    using v by (simp add: connectEstablished_def Let_def emit_if_def t_def set_up_def new_TcpConnection_def updateActiveTime_def)
  have "connectEstablished True (?c\<lparr>tc_idleTimeoutSeconds := k\<rparr>) = Some (t\<lparr>tc_idleTimeoutSeconds := k\<rparr>)"
    using t by (simp add: established_idle)
  moreover have "conn_inv [] (t\<lparr>tc_idleTimeoutSeconds := k\<rparr>)"
    using established_inv [OF assms t] by (cases "tc_state t") (simp_all add: conn_inv_def view_defs)
  ultimately show ?thesis
    by (auto simp: accepted_conn_def k_def [symmetric] live_def t_def set_up_def new_TcpConnection_def updateActiveTime_def)
qed

lemma accepted_serves:
  assumes "wire_runtime rt" and "list_all (call_ok rt) calls"
    and "list_all (\<lambda>c. length (call_packet rt c) + extrabuf_size \<le> kMaxBufferSize) calls"
    and "configured app0" and "rpc_start True startLoop timerId ret app0 = Some app"
    and "server_run opers (ap_server app) = Some s0" and "0 \<le> fd" and "map_of ep fd = None"
  shows "\<exists>s1 l conn t. server_readable True ch ep now (Inr (fd, peer)) s0 = Some s1
    \<and> map_of (ts_connections s1) (connName (ts_name s0) (ts_nextConnId s0)) = Some (l, conn)
    \<and> connectEstablished True conn = Some t
    \<and> (\<forall>evs. list_all event_ok evs \<and> concat (map arrives evs) = concat (map (call_packet rt) calls) \<longrightarrow>
        (\<exists>calls' t'. list_all2 same_call calls' calls
          \<and> server_conn_run rt (ap_rpc app) evs (s, t) = Some (snd (serve_calls (ap_rpc app) calls' s), t')
          \<and> content (tc_inputBuffer t') = [] \<and> prefix (sent t') (replies rt (ap_rpc app) calls' s)
          \<and> (tc_state t' = kConnected \<longrightarrow>
              sent t' @ content (tc_outputBuffer t') = replies rt (ap_rpc app) calls' s)))"
proof -
  have "sv_inv s0" "idle_listener s0"
    using started_server [OF assms(4,5)] server_run_inv [of "ap_server app" opers] run_listens [OF assms(6)] assms(6) by auto
  from readable_accepts [OF this assms(7), of ch ep now peer] established_live [OF assms(8), of ch now s0]
  obtain s1 l conn t where conn: "server_readable True ch ep now (Inr (fd, peer)) s0 = Some s1"
      "map_of (ts_connections s1) (connName (ts_name s0) (ts_nextConnId s0)) = Some (l, conn)"
      "connectEstablished True conn = Some t"
    and t: "live [] t" "content (tc_inputBuffer t) = []" by blast
  have "list_all (\<lambda>c. length (call_packet rt c) \<le> kMaxBufferSize) calls"
    using assms(3) by (rule list.pred_mono_strong) simp
  from calls_on_wire [OF assms(1,2) this] obtain ks calls' where
    packets: "map (call_packet rt) calls = map wire ks" and ks: "list_all (wire_ok rt) ks"
      "map (wire_msg rt) ks = map request_msg calls'" and same: "list_all2 same_call calls' calls"
    unfolding request_msg_def by blast
  have short: "\<forall>k \<in> set ks. length (wire k) + extrabuf_size \<le> kMaxBufferSize"
    using assms(3) arg_cong [OF packets, of set] by (force simp: list_all_iff)
  have "\<exists>t'. server_conn_run rt (ap_rpc app) evs (s, t) = Some (snd (serve_calls (ap_rpc app) calls' s), t')
      \<and> live (replies rt (ap_rpc app) calls' s) t' \<and> content (tc_inputBuffer t') = []"
    if "list_all event_ok evs" "concat (map arrives evs) = concat (map (call_packet rt) calls)" for evs
  proof -
    have "unfinished wire ks (content (tc_inputBuffer t)) (concat (map arrives evs))"
      using t(2) that(2) packets codec_stream.w_nonempty by (simp add: unfinished_def)
    from conn_run_live [OF t(1) that(1) ks this short] show ?thesis by auto
  qed
  with conn same live_output show ?thesis by blast
qed

section \<open>Properties\<close>


text \<open>A server with four threads and an idle time-out of a minute; a request that arrives in two pieces, is answered
  with a write that takes five bytes, and idles out afterwards.\<close>

definition sample_app :: "unit rpc_app" where
  "sample_app = rpc_setIdleTimeout 60 (rpc_setThreadNum 4 (rpc_registerService (Some ([69],
     snd (hd (rs_services echo_server)))) (new_RpcServer 0 (str ''0.0.0.0'') 1 3 zero_addr 0 [])))"

definition sample_events :: "server_event list" where
  "sample_events =
     (let packet = call_packet reference_runtime sample_call; answers = (\<lambda>k. (Wrote 5, Inr 0))
      in [Arrive (take 10 packet) (\<lambda>k. 0) REQUEST 0 answers 1, Arrive (drop 10 packet) (\<lambda>k. 0) REQUEST 0 answers 2,
          CanWrite (Wrote 3) (Inr 0) 3, IdleCheck False 90000, Closes])"

lemma sample_app: "configured sample_app" "ap_rpc sample_app = echo_server"
  unfolding sample_app_def
  by (auto intro: configured.intros)
    (simp add: rpc_setIdleTimeout_def rpc_setThreadNum_def rpc_registerService_def server_registerService_def
      new_RpcServer_def echo_server_def)


end
