(* ===== verification/InlineClients.thy ===== *)
theory InlineClients
  imports AsyncClient
begin

text \<open>
  The three thin clients: \<^verbatim>\<open>src/src/client/inline_sync_client.cc\<close> and
  \<^verbatim>\<open>inline_pipeline_client.cc\<close>, whose caller drives the event loop itself, and
  \<^verbatim>\<open>rpc_sync_client.cc\<close>, which wraps the asynchronous client.  Times are in nanoseconds.
  One \<^verbatim>\<open>loopOnce\<close> is the list of the callbacks it makes: the connection callback with the state of
  the connection, and the message callback with the input buffer; the buffer of the connection
  is the one of \<^verbatim>\<open>TcpConnection\<close>.
\<close>

section \<open>Waiting\<close>

definition msUntil :: "int \<Rightarrow> int \<Rightarrow> int" where
  "msUntil deadline now =
     (let remain = (deadline - now) div 1000000
      in if remain \<le> 0 then 0 else if remain > 3600 * 1000 then 3600 * 1000 else remain)"

text \<open>Flooring and truncating agree wherever the result is not clamped to 0.\<close>

lemma msUntil_bounds: "0 \<le> msUntil deadline now" "msUntil deadline now \<le> 3600000"
  by (simp_all add: msUntil_def Let_def)

lemma msUntil_early: "msUntil deadline now * 1000000 \<le> max 0 (deadline - now)"
proof -
  have "(deadline - now) div 1000000 * 1000000 \<le> deadline - now"
    using div_mult_mod_eq [of "deadline - now" 1000000] pos_mod_sign [of 1000000 "deadline - now"] by linarith
  then show ?thesis by (auto simp: msUntil_def Let_def)
qed

lemma msUntil_zero: "msUntil deadline now \<le> 0 \<longleftrightarrow> deadline - now < 1000000"
  by (auto simp: msUntil_def Let_def)

definition deadline_after :: "int \<Rightarrow> int \<Rightarrow> int" where
  "deadline_after now timeoutMs = now + timeoutMs * 1000000"

datatype loop_callback = OnConnection bool | OnMessage MsgType u64 buffer

section \<open>InlineSyncClient\<close>

record InlineSyncClient =
  is_valid :: bool
  is_nextId :: u64
  is_pendingId :: u64
  is_done :: bool
  is_result :: RpcResponse
  is_connectDone :: bool
  is_connectOk :: bool
  is_connecting :: bool
  is_sent :: "bytes list"

text \<open>\<open>parsed\<close> is the result of \<^verbatim>\<open>inet_pton\<close>; \<open>is_connecting\<close> records \<^verbatim>\<open>client_->connect()\<close>.\<close>

definition new_InlineSyncClient :: "bool \<Rightarrow> InlineSyncClient" where
  "new_InlineSyncClient parsed = \<lparr>is_valid = parsed, is_nextId = 1, is_pendingId = 0, is_done = False,
     is_result = RpcResponse_new, is_connectDone = False, is_connectOk = False, is_connecting = False, is_sent = []\<rparr>"

definition sync_onConnection :: "bool \<Rightarrow> InlineSyncClient \<Rightarrow> InlineSyncClient" where
  "sync_onConnection up c =
     (let c = c\<lparr>is_connectDone := True, is_connectOk := up\<rparr>
      in if \<not> up \<and> is_pendingId c \<noteq> 0 \<and> \<not> is_done c
         then c\<lparr>is_result := error_response (str ''connection closed''), is_done := True\<rparr>
         else c)"

definition sync_packet :: "DecodedPacket \<Rightarrow> InlineSyncClient \<Rightarrow> InlineSyncClient" where
  "sync_packet packet c =
     (if pk_msg_type packet \<noteq> RESPONSE then c
      else if pk_req_id packet \<noteq> is_pendingId c \<or> is_done c then c
      else c\<lparr>is_result := pk_rpc_response packet, is_done := True\<rparr>)"

definition packets_in :: "pb_runtime \<Rightarrow> MsgType \<Rightarrow> u64 \<Rightarrow> buffer \<Rightarrow> DecodedPacket list" where
  "packets_in rt t i buf = fst (decode_all rt buf (new_packet t i))"

definition sync_callback :: "pb_runtime \<Rightarrow> loop_callback \<Rightarrow> InlineSyncClient \<Rightarrow> InlineSyncClient" where
  "sync_callback rt cb c =
     (case cb of OnConnection up \<Rightarrow> sync_onConnection up c
      | OnMessage t i buf \<Rightarrow> fold sync_packet (packets_in rt t i buf) c)"

text \<open>
  A run of the waiting loops is the list of its rounds: the clock where \<^verbatim>\<open>msUntil\<close> reads it and the
  callbacks of the round.  \<open>None\<close> means that the rounds are used up while the caller still waits.
\<close>

fun connect_wait :: "pb_runtime \<Rightarrow> int \<Rightarrow> (int \<times> loop_callback list) list \<Rightarrow> InlineSyncClient \<Rightarrow> InlineSyncClient option" where
  "connect_wait rt deadline rounds c =
     (if is_connectDone c then Some c
      else case rounds of
        [] \<Rightarrow> None
      | (now, cbs) # rounds \<Rightarrow>
          if msUntil deadline now \<le> 0 then Some c
          else connect_wait rt deadline rounds (fold (sync_callback rt) cbs c))"

definition sync_connect ::
    "pb_runtime \<Rightarrow> int \<Rightarrow> (int \<times> loop_callback list) list \<Rightarrow> int \<Rightarrow> InlineSyncClient \<Rightarrow> (bool \<times> InlineSyncClient) option" where
  "sync_connect rt now rounds timeoutMs c =
     (if \<not> is_valid c then Some (False, c)
      else map_option (\<lambda>c. (is_connectOk c, c))
        (connect_wait rt (deadline_after now timeoutMs) rounds
          (c\<lparr>is_connectDone := False, is_connectOk := False, is_connecting := True\<rparr>)))"

fun call_wait ::
    "pb_runtime \<Rightarrow> int \<Rightarrow> (int \<times> loop_callback list) list \<Rightarrow> InlineSyncClient \<Rightarrow> (RpcResponse \<times> InlineSyncClient) option" where
  "call_wait rt deadline rounds c =
     (if is_done c then Some (is_result c, c\<lparr>is_pendingId := 0, is_result := RpcResponse_new\<rparr>)
      else case rounds of
        [] \<Rightarrow> None
      | (now, cbs) # rounds \<Rightarrow>
          if msUntil deadline now \<le> 0
          then Some (error_response (str ''request timeout''), c\<lparr>is_pendingId := 0\<rparr>)
          else call_wait rt deadline rounds (fold (sync_callback rt) cbs c))"

declare connect_wait.simps [simp del] call_wait.simps [simp del]

text \<open>
  \<open>up\<close> tells whether the client has a connection that is connected; \<open>during\<close> are the callbacks made
  within \<^verbatim>\<open>send\<close>, when the connection turns out to be broken.
\<close>

definition start_call :: "InlineSyncClient \<Rightarrow> InlineSyncClient" where
  "start_call c = c\<lparr>is_pendingId := is_nextId c, is_nextId := is_nextId c + 1, is_done := False,
     is_result := RpcResponse_new\<rparr>"

definition sync_call ::
    "pb_runtime \<Rightarrow> bool \<Rightarrow> loop_callback list \<Rightarrow> int \<Rightarrow> (int \<times> loop_callback list) list \<Rightarrow> bytes \<Rightarrow> bytes
      \<Rightarrow> RpcRequest \<Rightarrow> int \<Rightarrow> InlineSyncClient \<Rightarrow> (RpcResponse \<times> InlineSyncClient) option" where
  "sync_call rt up during now rounds service method request timeoutMs c =
     (if \<not> is_valid c \<or> \<not> up then Some (error_response (str ''not connected''), c)
      else
        let c = start_call c;
            packet = encodeRequest rt request (is_pendingId c) service method
        in if packet = [] then Some (error_response (str ''encode failed''), c\<lparr>is_pendingId := 0\<rparr>)
           else call_wait rt (deadline_after now timeoutMs) rounds
                  (fold (sync_callback rt) during (c\<lparr>is_sent := is_sent c @ [packet]\<rparr>)))"

section \<open>InlinePipelineClient\<close>

text \<open>
  \<open>pl_pending\<close> is the table in the order in which the container iterates.  \<open>pl_log\<close> lists the
  callbacks made: id, response and latency in nanoseconds.
\<close>

record Pending =
  pp_sentAt :: int
  pp_deadline :: int

record InlinePipelineClient =
  pl_valid :: bool
  pl_pending :: "(u64 \<times> Pending) list"
  pl_nextId :: u64
  pl_completions :: nat
  pl_log :: "(u64 \<times> RpcResponse \<times> int) list"
  pl_sent :: "bytes list"

definition new_InlinePipelineClient :: "bool \<Rightarrow> InlinePipelineClient" where
  "new_InlinePipelineClient parsed = \<lparr>pl_valid = parsed, pl_pending = [], pl_nextId = 1, pl_completions = 0,
     pl_log = [], pl_sent = []\<rparr>"

definition makeTimeoutResponse :: RpcResponse where
  "makeTimeoutResponse = error_response (str ''request timeout'')"

text \<open>Erase the entry, call its callback, count it; nothing if the id is not pending.\<close>

definition pl_finish :: "u64 \<Rightarrow> RpcResponse \<times> int \<Rightarrow> InlinePipelineClient \<Rightarrow> InlinePipelineClient" where
  "pl_finish i rt c =
     (case map_of (pl_pending c) i of
        None \<Rightarrow> c
      | Some p \<Rightarrow> c\<lparr>pl_pending := AList.delete i (pl_pending c),
           pl_log := pl_log c @ [(i, fst rt, snd rt - pp_sentAt p)],
           pl_completions := pl_completions c + 1\<rparr>)"

definition pipeline_packet :: "int \<Rightarrow> DecodedPacket \<Rightarrow> InlinePipelineClient \<Rightarrow> InlinePipelineClient" where
  "pipeline_packet now packet c =
     (if pk_msg_type packet \<noteq> RESPONSE then c
      else pl_finish (pk_req_id packet) (pk_rpc_response packet, now) c)"

text \<open>The clock is read for every packet.\<close>

definition pipeline_onMessage ::
    "pb_runtime \<Rightarrow> (nat \<Rightarrow> int) \<Rightarrow> MsgType \<Rightarrow> u64 \<Rightarrow> buffer \<Rightarrow> InlinePipelineClient \<Rightarrow> InlinePipelineClient" where
  "pipeline_onMessage rt clock t i buf c =
     fold (\<lambda>(k, p). pipeline_packet (clock k) p) (enumerate 0 (packets_in rt t i buf)) c"

definition submit ::
    "pb_runtime \<Rightarrow> bool \<Rightarrow> int \<Rightarrow> bytes \<Rightarrow> bytes \<Rightarrow> RpcRequest \<Rightarrow> int \<Rightarrow> InlinePipelineClient \<Rightarrow> bool \<times> InlinePipelineClient" where
  "submit rt up now service method request timeoutMs c =
     (if \<not> pl_valid c \<or> \<not> up then (False, c)
      else
        let i = pl_nextId c;
            c = c\<lparr>pl_nextId := i + 1\<rparr>;
            packet = encodeRequest rt request i service method
        in if packet = [] then (False, c)
           else
             let p = \<lparr>pp_sentAt = now, pp_deadline = deadline_after now (if timeoutMs > 0 then timeoutMs else 3000)\<rparr>
             in (True, c\<lparr>pl_pending := (if i \<in> fst ` set (pl_pending c) then pl_pending c else (i, p) # pl_pending c),
                         pl_sent := pl_sent c @ [packet]\<rparr>))"

definition nextWaitMs :: "int \<Rightarrow> InlinePipelineClient \<Rightarrow> int" where
  "nextWaitMs now c =
     (if pl_pending c = [] then 1000
      else msUntil (fold (\<lambda>kv earliest. min (pp_deadline (snd kv)) earliest) (tl (pl_pending c))
                      (pp_deadline (snd (hd (pl_pending c))))) now)"

definition expired_requests :: "int \<Rightarrow> InlinePipelineClient \<Rightarrow> (u64 \<times> Pending) list" where
  "expired_requests now c = filter (\<lambda>kv. pp_deadline (snd kv) \<le> now) (pl_pending c)"

definition sweepTimeouts :: "int \<Rightarrow> InlinePipelineClient \<Rightarrow> nat \<times> InlinePipelineClient" where
  "sweepTimeouts now c =
     (let es = expired_requests now c
      in (length es,
          c\<lparr>pl_pending := filter (\<lambda>kv. \<not> pp_deadline (snd kv) \<le> now) (pl_pending c),
            pl_log := pl_log c @ map (\<lambda>(i, p). (i, makeTimeoutResponse, now - pp_sentAt p)) es,
            pl_completions := pl_completions c + length es\<rparr>))"

text \<open>One round: the message callbacks that \<^verbatim>\<open>loopOnce\<close> makes, each with its clock, then the sweep at \<open>now\<close>.\<close>

definition pumpOnce ::
    "pb_runtime \<Rightarrow> ((nat \<Rightarrow> int) \<times> MsgType \<times> u64 \<times> buffer) list \<Rightarrow> int \<Rightarrow> InlinePipelineClient
      \<Rightarrow> nat \<times> InlinePipelineClient" where
  "pumpOnce rt msgs now c =
     (let c = fold (\<lambda>(clock, t, i, buf). pipeline_onMessage rt clock t i buf) msgs (c\<lparr>pl_completions := 0\<rparr>);
          c = snd (sweepTimeouts now c)
      in (pl_completions c, c\<lparr>pl_completions := 0\<rparr>))"

text \<open>
  Connecting: each turn of the loop sees whether the client has a connection that is up, and the
  clock; \<open>None\<close> means that the turns are used up.
\<close>

fun pipeline_connect_wait :: "int \<Rightarrow> (bool \<times> int) list \<Rightarrow> bool option" where
  "pipeline_connect_wait deadline [] = None"
| "pipeline_connect_wait deadline ((up, now) # turns) =
     (if up then Some True else if msUntil deadline now \<le> 0 then Some False
      else pipeline_connect_wait deadline turns)"

definition pipeline_connect :: "int \<Rightarrow> (bool \<times> int) list \<Rightarrow> int \<Rightarrow> InlinePipelineClient \<Rightarrow> bool option" where
  "pipeline_connect now turns timeoutMs c =
     (if \<not> pl_valid c then Some False else pipeline_connect_wait (deadline_after now timeoutMs) turns)"

section \<open>RpcSyncClient\<close>

text \<open>The synchronous client owns an asynchronous one, made for a host and a port, and forwards to it.\<close>

definition new_RpcSyncClient :: "call_env \<Rightarrow> AsyncClient" where
  "new_RpcSyncClient e = new_AsyncClient e"

definition RpcSyncClient_connect ::
    "(bytes \<Rightarrow> u32) \<Rightarrow> (bytes \<Rightarrow> bool) \<Rightarrow> (nat \<Rightarrow> bool) \<Rightarrow> (nat \<Rightarrow> nat) \<Rightarrow> bool \<Rightarrow> bool option \<Rightarrow> AsyncClient
      \<Rightarrow> bool \<times> AsyncClient" where
  "RpcSyncClient_connect hf inet_pton outcome transport validIP up c =
     async_connect hf inet_pton outcome transport None validIP up c"

definition RpcSyncClient_disconnect :: "AsyncClient \<Rightarrow> transport_action list \<times> AsyncClient" where
  "RpcSyncClient_disconnect c = disconnect c"

definition RpcSyncClient_connected :: "(nat \<Rightarrow> bool) \<Rightarrow> AsyncClient \<Rightarrow> bool" where
  "RpcSyncClient_connected linked c = async_connected linked c"

definition destroy_RpcSyncClient :: "AsyncClient \<Rightarrow> transport_action list \<times> AsyncClient" where
  "destroy_RpcSyncClient c =
     (let (actions, c) = RpcSyncClient_disconnect c; (actions', c) = destroy_AsyncClient c in (actions @ actions', c))"

text \<open>\<open>Inl\<close> is a thrown \<^verbatim>\<open>std::runtime_error\<close>; the future of \<^const>\<open>asyncCall\<close> has its value when it is returned.\<close>

definition RpcSyncClient_call ::
    "pb_runtime \<Rightarrow> (bytes \<Rightarrow> u32) \<Rightarrow> (nat \<Rightarrow> bool) \<Rightarrow> (AsyncClient \<Rightarrow> AsyncClient) \<Rightarrow> bytes \<Rightarrow> bytes \<Rightarrow> RpcRequest
      \<Rightarrow> int \<Rightarrow> AsyncClient \<Rightarrow> (bytes + RpcResponse \<times> AsyncClient) option" where
  "RpcSyncClient_call rt hf linked io service method request timeout_ms c =
     (if \<not> async_connected linked c then Some (Inl (str ''not connected''))
      else map_option Inr (asyncCall rt hf linked io service method request timeout_ms c))"

section \<open>The synchronous call returns its own response\<close>

text \<open>
  The specification of a call: the callbacks are a sequence of events, and the first event that
  concerns the call decides.  A response to an earlier call that timed out does not.
\<close>

type_synonym sync_event = "bool + DecodedPacket"

definition events_of :: "pb_runtime \<Rightarrow> loop_callback \<Rightarrow> sync_event list" where
  "events_of rt cb = (case cb of OnConnection up \<Rightarrow> [Inl up] | OnMessage t i buf \<Rightarrow> map Inr (packets_in rt t i buf))"

fun answer :: "u64 \<Rightarrow> sync_event list \<Rightarrow> RpcResponse option" where
  "answer i [] = None"
| "answer i (Inl up # es) = (if up then answer i es else Some (error_response (str ''connection closed'')))"
| "answer i (Inr p # es) =
     (if pk_msg_type p = RESPONSE \<and> pk_req_id p = i then Some (pk_rpc_response p) else answer i es)"

definition sync_event :: "sync_event \<Rightarrow> InlineSyncClient \<Rightarrow> InlineSyncClient" where
  "sync_event e = case_sum sync_onConnection sync_packet e"

lemma sync_callback_events: "sync_callback rt cb c = fold sync_event (events_of rt cb) c"
  by (cases cb) (simp_all add: sync_callback_def events_of_def sync_event_def fold_map comp_def)

lemma callbacks_events: "fold (sync_callback rt) cbs c = fold sync_event (concat (map (events_of rt) cbs)) c"
  by (induction cbs arbitrary: c) (simp_all add: sync_callback_events)

lemma sync_event_done: "is_done c \<Longrightarrow> is_done (sync_event e c) \<and> is_result (sync_event e c) = is_result c"
  by (cases e) (simp_all add: sync_event_def sync_onConnection_def sync_packet_def Let_def)

lemma sync_event_pending [simp]: "is_pendingId (sync_event e c) = is_pendingId c"
  by (cases e) (simp_all add: sync_event_def sync_onConnection_def sync_packet_def Let_def)

lemma sync_events_pending [simp]: "is_pendingId (fold sync_event es c) = is_pendingId c"
  by (induction es arbitrary: c) simp_all

lemma sync_events_done: "is_done c \<Longrightarrow> is_done (fold sync_event es c) \<and> is_result (fold sync_event es c) = is_result c"
proof (induction es arbitrary: c)
  case (Cons e es)
  from sync_event_done [OF Cons.prems, of e] Cons.IH [of "sync_event e c"] show ?case by simp
qed simp

lemma sync_events_answer:
  "is_pendingId c = i \<Longrightarrow> i \<noteq> 0 \<Longrightarrow> \<not> is_done c \<Longrightarrow>
    (case answer i es of
       None \<Rightarrow> \<not> is_done (fold sync_event es c)
     | Some r \<Rightarrow> is_done (fold sync_event es c) \<and> is_result (fold sync_event es c) = r)"
proof (induction es arbitrary: c)
  case (Cons e es)
  have step: "\<not> is_done (sync_event e c) \<Longrightarrow> answer i (e # es) = answer i es"
    using Cons.prems by (cases e) (auto simp: sync_event_def sync_onConnection_def sync_packet_def Let_def)
  have hit: "is_done (sync_event e c) \<Longrightarrow> answer i (e # es) = Some (is_result (sync_event e c))"
    using Cons.prems
    by (cases e) (auto simp: sync_event_def sync_onConnection_def sync_packet_def Let_def split: if_splits)
  show ?case
    using step hit Cons.IH [of "sync_event e c"] Cons.prems sync_events_done [of "sync_event e c" es]
    by (cases "is_done (sync_event e c)") (simp_all split: option.splits)
qed simp

lemma answer_append: "answer i (es @ fs) = (case answer i es of None \<Rightarrow> answer i fs | Some r \<Rightarrow> Some r)"
  by (induction i es rule: answer.induct) simp_all

text \<open>The rounds in which the deadline was at least a millisecond away.\<close>

definition in_time :: "int \<Rightarrow> (int \<times> loop_callback list) list \<Rightarrow> (int \<times> loop_callback list) list" where
  "in_time deadline = takeWhile (\<lambda>(now, _). 0 < msUntil deadline now)"

definition round_events :: "pb_runtime \<Rightarrow> (int \<times> loop_callback list) list \<Rightarrow> sync_event list" where
  "round_events rt rounds = concat (map (events_of rt) (concat (map snd rounds)))"

lemma call_wait_answer:
  assumes "is_pendingId c = i" and "i \<noteq> 0" and "\<not> is_done c"
  shows "map_option fst (call_wait rt deadline rounds c) =
    (case answer i (round_events rt (in_time deadline rounds)) of
       Some r \<Rightarrow> Some r
     | None \<Rightarrow> if length (in_time deadline rounds) < length rounds
               then Some (error_response (str ''request timeout'')) else None)"
  using assms
proof (induction rounds arbitrary: c)
  case Nil
  then show ?case by (simp add: call_wait.simps [of rt deadline "[]"] in_time_def round_events_def)
next
  case (Cons round rounds)
  obtain now cbs where r: "round = (now, cbs)" by (cases round)
  show ?case
  proof (cases "msUntil deadline now \<le> 0")
    case True
    with Cons.prems show ?thesis
      by (simp add: call_wait.simps [of rt deadline "(now, cbs) # rounds"] r in_time_def round_events_def)
  next
    case False
    let ?es = "concat (map (events_of rt) cbs)"
    let ?c = "fold sync_event ?es c"
    have eq: "call_wait rt deadline (round # rounds) c = call_wait rt deadline rounds ?c"
      using False Cons.prems by (simp add: call_wait.simps [of rt deadline "(now, cbs) # rounds"] r callbacks_events)
    have es: "round_events rt (in_time deadline (round # rounds)) = ?es @ round_events rt (in_time deadline rounds)"
      and len: "length (in_time deadline (round # rounds)) = Suc (length (in_time deadline rounds))"
      using False by (simp_all add: in_time_def round_events_def r)
    show ?thesis
    proof (cases "answer i ?es")
      case None
      with sync_events_answer [OF Cons.prems, of ?es] Cons.IH [of ?c] Cons.prems show ?thesis
        by (simp add: eq es len answer_append)
    next
      case (Some a)
      with sync_events_answer [OF Cons.prems, of ?es] show ?thesis
        by (simp add: eq es answer_append call_wait.simps [of rt deadline rounds])
    qed
  qed
qed

text \<open>C20: The synchronous call of the inline client returns the response whose id is the one of this
  call, or the error for a closed connection, whichever comes first among the packets and
  connection callbacks of the rounds that begin before the deadline; without either it returns
  the time-out as soon as a round begins less than a millisecond before the deadline, and it
  waits only while no such round has begun.
\<close>

theorem sync_call_answer:
  assumes "is_valid c" and "is_nextId c \<noteq> 0" and "encodeRequest rt request (is_nextId c) service method \<noteq> []"
  shows "map_option fst (sync_call rt True during now rounds service method request timeoutMs c) =
    (case answer (is_nextId c) (concat (map (events_of rt) during)
                                 @ round_events rt (in_time (deadline_after now timeoutMs) rounds)) of
       Some r \<Rightarrow> Some r
     | None \<Rightarrow> if length (in_time (deadline_after now timeoutMs) rounds) < length rounds
               then Some (error_response (str ''request timeout'')) else None)"
proof -
  let ?es = "concat (map (events_of rt) during)"
  let ?p = "encodeRequest rt request (is_nextId c) service method"
  let ?s = "(start_call c)\<lparr>is_sent := is_sent (start_call c) @ [?p]\<rparr>"
  let ?d = "deadline_after now timeoutMs"
  have s: "is_pendingId ?s = is_nextId c" "\<not> is_done ?s" by (simp_all add: start_call_def)
  have "is_pendingId (start_call c) = is_nextId c" by (simp add: start_call_def)
  with assms have eq: "sync_call rt True during now rounds service method request timeoutMs c
      = call_wait rt ?d rounds (fold sync_event ?es ?s)"
    unfolding sync_call_def Let_def callbacks_events by simp
  show ?thesis
  proof (cases "answer (is_nextId c) ?es")
    case None
    with sync_events_answer [OF s(1) assms(2) s(2), of ?es] show ?thesis
      using call_wait_answer [of "fold sync_event ?es ?s" "is_nextId c" rt ?d rounds] s(1) assms(2)
      unfolding eq answer_append by simp
  next
    case (Some a)
    with sync_events_answer [OF s(1) assms(2) s(2), of ?es] show ?thesis
      unfolding eq answer_append by (simp add: call_wait.simps [of rt ?d rounds])
  qed
qed

lemma sample_request_encodes: "encodeRequest reference_runtime RpcRequest_new 1 [115] [109] \<noteq> []"
  using encodeRequestBody_fields [OF _ _ empty_request_serializes, of "[115]" "[109]"]
  by (simp add: encodeRequest_def length_0_conv [symmetric] del: length_0_conv)

theorem sync_call_answer_witness:
  "map_option fst (sync_call reference_runtime True [] 0 [(0, [OnConnection False])] [115] [109] RpcRequest_new 5
      (new_InlineSyncClient True)) = Some (error_response (str ''connection closed''))
   \<and> map_option fst (sync_call reference_runtime True [] 0 [(0, []), (5000000, [])] [115] [109] RpcRequest_new 5
      (new_InlineSyncClient True)) = Some (error_response (str ''request timeout''))"
  using sync_call_answer [of "new_InlineSyncClient True" reference_runtime RpcRequest_new "[115]" "[109]" "[]" 0]
    sample_request_encodes
  by (simp add: new_InlineSyncClient_def in_time_def deadline_after_def msUntil_def round_events_def events_of_def)

section \<open>The pipelining client completes every request once\<close>

lemma pl_finish_other: "i \<notin> fst ` set (pl_pending c) \<Longrightarrow> pl_finish i r c = c"
  by (simp add: pl_finish_def map_of_eq_None_iff [THEN iffD2])

lemma delete_filter: "AList.delete i xs = filter (\<lambda>kv. fst kv \<noteq> i) xs"
  by (induction xs) auto

lemma pl_finish_pending:
  assumes "(i, p) \<in> set (pl_pending c)" and "distinct (map fst (pl_pending c))"
  shows "pl_finish i r c = c\<lparr>pl_pending := filter (\<lambda>kv. fst kv \<noteq> i) (pl_pending c),
    pl_log := pl_log c @ [(i, fst r, snd r - pp_sentAt p)], pl_completions := pl_completions c + 1\<rparr>"
  using map_of_is_SomeI [OF assms(2,1)] by (simp add: pl_finish_def delete_filter)

interpretation pipeline: request_table "\<lambda>c :: InlinePipelineClient. map fst (pl_pending c)"
  "\<lambda>c. map fst (pl_log c)" pl_finish
proof
  fix c :: InlinePipelineClient and i and r :: "RpcResponse \<times> int"
  assume d: "distinct (map fst (pl_pending c))" and "i \<in> set (map fst (pl_pending c))"
  then obtain p where "(i, p) \<in> set (pl_pending c)" by auto
  from pl_finish_pending [OF this d, of r] d
  show "distinct (map fst (pl_pending (pl_finish i r c)))
      \<and> set (map fst (pl_pending (pl_finish i r c))) = set (map fst (pl_pending c)) - {i}
      \<and> map fst (pl_log (pl_finish i r c)) = map fst (pl_log c) @ [i]"
    by (auto simp: distinct_map_filter)
qed (simp add: pl_finish_other)

text \<open>The sweep, which erases first and calls the callbacks afterwards, is the completion of the expired ids one by one.\<close>

lemma finish_all_entries:
  assumes "distinct (map fst (pl_pending c))" and "set es \<subseteq> set (pl_pending c)" and "distinct (map fst es)"
  shows "pipeline.finish_all (map (\<lambda>(i, p). (i, r, now)) es) c
    = c\<lparr>pl_pending := filter (\<lambda>kv. fst kv \<notin> fst ` set es) (pl_pending c),
        pl_log := pl_log c @ map (\<lambda>(i, p). (i, r, now - pp_sentAt p)) es,
        pl_completions := pl_completions c + length es\<rparr>"
  using assms
proof (induction es arbitrary: c)
  case (Cons e es)
  obtain i p where e: "e = (i, p)" by (cases e)
  let ?c = "pl_finish i (r, now) c"
  have c: "?c = c\<lparr>pl_pending := filter (\<lambda>kv. fst kv \<noteq> i) (pl_pending c),
      pl_log := pl_log c @ [(i, r, now - pp_sentAt p)], pl_completions := pl_completions c + 1\<rparr>"
    using pl_finish_pending [of i p c "(r, now)"] Cons.prems e by simp
  have "set es \<subseteq> set (pl_pending ?c)" using Cons.prems(2,3) e by (force simp: c)
  moreover have "distinct (map fst (pl_pending ?c))" using Cons.prems(1) by (simp add: c distinct_map_filter)
  ultimately have "pipeline.finish_all (map (\<lambda>(i, p). (i, r, now)) es) ?c
      = ?c\<lparr>pl_pending := filter (\<lambda>kv. fst kv \<notin> fst ` set es) (pl_pending ?c),
        pl_log := pl_log ?c @ map (\<lambda>(i, p). (i, r, now - pp_sentAt p)) es,
        pl_completions := pl_completions ?c + length es\<rparr>"
    using Cons.IH [of ?c] Cons.prems(3) by simp
  then show ?case by (simp add: pipeline.finish_all_def e) (simp add: c)
qed (simp add: pipeline.finish_all_def)

lemma sweep_is_finish_all:
  assumes "distinct (map fst (pl_pending c))"
  shows "snd (sweepTimeouts now c)
    = pipeline.finish_all (map (\<lambda>(i, p). (i, makeTimeoutResponse, now)) (expired_requests now c)) c"
proof -
  let ?es = "expired_requests now c"
  have "fst kv \<in> fst ` set ?es \<longleftrightarrow> pp_deadline (snd kv) \<le> now" if "kv \<in> set (pl_pending c)" for kv
  proof
    assume "fst kv \<in> fst ` set ?es"
    then obtain p where p: "(fst kv, p) \<in> set ?es" by auto
    then have "p = snd kv" using that eq_key_imp_eq_value [OF assms, of "fst kv" p "snd kv"]
      by (simp add: expired_requests_def)
    with p show "pp_deadline (snd kv) \<le> now" by (simp add: expired_requests_def)
  qed (use that in \<open>simp add: expired_requests_def\<close>)
  then have "filter (\<lambda>kv. fst kv \<notin> fst ` set ?es) (pl_pending c)
      = filter (\<lambda>kv. \<not> pp_deadline (snd kv) \<le> now) (pl_pending c)"
    by (intro filter_cong) simp_all
  moreover have "set ?es \<subseteq> set (pl_pending c)" "distinct (map fst ?es)"
    using assms by (auto simp: expired_requests_def distinct_map_filter)
  ultimately show ?thesis
    by (simp add: finish_all_entries [OF assms] sweepTimeouts_def Let_def)
qed

text \<open>What a round does to the table, and that the counter counts it.\<close>

definition pl_keeps :: "InlinePipelineClient \<Rightarrow> InlinePipelineClient \<Rightarrow> bool" where
  "pl_keeps c d \<longleftrightarrow> pipeline.once d \<and> pipeline.known d = pipeline.known c \<and> pl_nextId d = pl_nextId c
     \<and> length (pl_log d) + pl_completions c = length (pl_log c) + pl_completions d"

lemma pl_keeps_refl: "pipeline.once c \<Longrightarrow> pl_keeps c c"
  by (simp add: pl_keeps_def)

lemma pl_keeps_trans: "pl_keeps c d \<Longrightarrow> pl_keeps d e \<Longrightarrow> pl_keeps c e"
  by (simp add: pl_keeps_def)

lemma pl_keeps_fold:
  assumes "\<And>x c. pipeline.once c \<Longrightarrow> pl_keeps c (f x c)" and "pipeline.once c"
  shows "pl_keeps c (fold f xs c)"
  using assms(2)
proof (induction xs arbitrary: c)
  case (Cons x xs)
  have "pl_keeps c (f x c)" by (rule assms(1) [OF Cons.prems])
  moreover from this have "pl_keeps (f x c) (fold f xs (f x c))" by (intro Cons.IH) (simp add: pl_keeps_def)
  ultimately show ?case by (auto intro: pl_keeps_trans)
qed (simp add: pl_keeps_refl)

lemma pl_finish_keeps: "pipeline.once c \<Longrightarrow> pl_keeps c (pl_finish i r c)"
  using pipeline.finish_once [of c i r] by (simp add: pl_keeps_def pl_finish_def split: option.split)

lemma pipeline_onMessage_keeps: "pipeline.once c \<Longrightarrow> pl_keeps c (pipeline_onMessage rt clock t i buf c)"
  unfolding pipeline_onMessage_def
  by (rule pl_keeps_fold) (auto simp: pipeline_packet_def pl_finish_keeps pl_keeps_refl)

lemma sweepTimeouts_keeps: "pipeline.once c \<Longrightarrow> pl_keeps c (snd (sweepTimeouts now c))"
proof -
  assume once: "pipeline.once c"
  have "pl_keeps c (pipeline.finish_all irs c)" for irs
    unfolding pipeline.finish_all_def by (rule pl_keeps_fold [OF _ once]) (auto simp: pl_finish_keeps)
  with once sweep_is_finish_all [of c now] show ?thesis by (simp add: pipeline.once_def)
qed

lemma pumpOnce_keeps:
  assumes "pipeline.once c" and "pumpOnce rt msgs now c = (n, d)"
  shows "pipeline.once d \<and> pipeline.known d = pipeline.known c \<and> pl_nextId d = pl_nextId c
    \<and> length (pl_log d) = length (pl_log c) + n"
proof -
  let ?c = "c\<lparr>pl_completions := 0\<rparr>"
  let ?m = "fold (\<lambda>(clock, t, i, buf). pipeline_onMessage rt clock t i buf) msgs ?c"
  have c: "pipeline.once ?c" using assms(1) by (simp add: pipeline.once_def)
  have m: "pl_keeps ?c ?m"
    by (rule pl_keeps_fold [OF _ c]) (auto simp: pipeline_onMessage_keeps)
  then have "pl_keeps ?m (snd (sweepTimeouts now ?m))"
    by (intro sweepTimeouts_keeps) (simp add: pl_keeps_def)
  with m have "pl_keeps ?c (snd (sweepTimeouts now ?m))" by (rule pl_keeps_trans)
  moreover have "n = pl_completions (snd (sweepTimeouts now ?m))" "d = (snd (sweepTimeouts now ?m))\<lparr>pl_completions := 0\<rparr>"
    using assms(2) by (simp_all add: pumpOnce_def Let_def)
  ultimately show ?thesis by (simp add: pl_keeps_def pipeline.once_def pipeline.known_def)
qed

text \<open>Runs of the client: what the caller does, with the ids accepted and the number of completions reported so far.\<close>

datatype pipeline_op =
    Submit bool int bytes bytes RpcRequest int
  | Pump "((nat \<Rightarrow> int) \<times> MsgType \<times> u64 \<times> buffer) list" int

definition pipeline_op ::
    "pb_runtime \<Rightarrow> pipeline_op \<Rightarrow> u64 list \<times> nat \<times> InlinePipelineClient \<Rightarrow> u64 list \<times> nat \<times> InlinePipelineClient" where
  "pipeline_op rt p = (\<lambda>(acc, n, c).
     case p of
       Submit up now service method request timeoutMs \<Rightarrow>
         (let (ok, d) = submit rt up now service method request timeoutMs c
          in (if ok then acc @ [pl_nextId c] else acc, n, d))
     | Pump msgs now \<Rightarrow> (let (k, d) = pumpOnce rt msgs now c in (acc, n + k, d)))"

definition pl_inv :: "u64 list \<times> nat \<times> InlinePipelineClient \<Rightarrow> bool" where
  "pl_inv = (\<lambda>(acc, n, c). pipeline.once c \<and> set acc = pipeline.known c \<and> n = length (pl_log c)
     \<and> (\<forall>i \<in> set acc. i < pl_nextId c))"

lemma submit_inv:
  assumes "pl_inv (acc, n, c)" and "pl_nextId c + 1 \<noteq> 0"
    and "submit rt up now service method request timeoutMs c = (ok, d)"
  shows "pl_inv (if ok then acc @ [pl_nextId c] else acc, n, d) \<and> pl_nextId d \<in> {pl_nextId c, pl_nextId c + 1}"
proof -
  have new: "pl_nextId c \<notin> pipeline.known c" using assms(1) by (auto simp: pl_inv_def)
  have lt: "\<forall>i \<in> set acc. i < pl_nextId c + 1" "pl_nextId c < pl_nextId c + 1"
    using assms(1,2) word_less_next by (auto simp: pl_inv_def)
  let ?e = "c\<lparr>pl_nextId := pl_nextId c + 1\<rparr>"
  let ?packet = "encodeRequest rt request (pl_nextId c) service method"
  let ?p = "\<lparr>pp_sentAt = now, pp_deadline = deadline_after now (if timeoutMs > 0 then timeoutMs else 3000)\<rparr>"
  have keep: "pl_inv (acc, n, ?e)"
    using assms(1) lt(1) by (simp add: pl_inv_def pipeline.once_def pipeline.known_def)
  have add: "pl_inv (acc @ [pl_nextId c], n, ?e\<lparr>pl_pending := (pl_nextId c, ?p) # pl_pending c, pl_sent := sent\<rparr>)" for sent
    using assms(1) new lt by (simp add: pl_inv_def pipeline.once_def pipeline.known_def)
  have absent: "pl_nextId c \<notin> fst ` set (pl_pending c)" using new by (simp add: pipeline.known_def)
  consider "\<not> pl_valid c \<or> \<not> up" | "pl_valid c" "up" "?packet = []" | "pl_valid c" "up" "?packet \<noteq> []" by blast
  then show ?thesis
  proof cases
    case 1
    with assms(1,3) show ?thesis by (simp add: submit_def)
  next
    case 2
    with assms(3) keep show ?thesis by (auto simp: submit_def)
  next
    case 3
    with assms(3) absent have "ok" "d = ?e\<lparr>pl_pending := (pl_nextId c, ?p) # pl_pending c, pl_sent := pl_sent c @ [?packet]\<rparr>"
      by (simp_all add: submit_def Let_def)
    with add show ?thesis by simp
  qed
qed

lemma pipeline_op_inv:
  assumes "pl_inv (acc, n, c)" and "unat (pl_nextId c) + 1 < 2 ^ 64" and "pipeline_op rt p (acc, n, c) = (acc', n', d)"
  shows "pl_inv (acc', n', d) \<and> unat (pl_nextId d) \<le> unat (pl_nextId c) + 1"
proof (cases p)
  case (Submit up now service meth request timeoutMs)
  have nz: "pl_nextId c + 1 \<noteq> 0" using assms(2) unat_word_ariths(1) [of "pl_nextId c" 1] by auto
  obtain ok e where s: "submit rt up now service meth request timeoutMs c = (ok, e)" by fastforce
  then have "acc' = (if ok then acc @ [pl_nextId c] else acc)" "n' = n" "d = e"
    using assms(3) by (simp_all add: pipeline_op_def Submit)
  with submit_inv [OF assms(1) nz s] show ?thesis by (auto simp: unat_word_ariths(1))
next
  case (Pump msgs now)
  obtain k e where "pumpOnce rt msgs now c = (k, e)" by fastforce
  with pumpOnce_keeps [of c rt msgs now k e] assms(1,3) show ?thesis
    by (auto simp: pipeline_op_def Pump pl_inv_def)
qed

lemma pipeline_ops_inv:
  "pl_inv s \<Longrightarrow> unat (pl_nextId (snd (snd s))) + length ops < 2 ^ 64 \<Longrightarrow> pl_inv (fold (pipeline_op rt) ops s)"
proof (induction ops arbitrary: s)
  case (Cons p ops)
  obtain acc n c where s: "s = (acc, n, c)" by (cases s)
  obtain acc' n' d where t: "pipeline_op rt p s = (acc', n', d)" by (cases "pipeline_op rt p s")
  from pipeline_op_inv [of acc n c rt p acc' n' d] Cons.prems s t
  have "pl_inv (acc', n', d)" "unat (pl_nextId d) \<le> unat (pl_nextId c) + 1" by simp_all
  with Cons.IH [of "(acc', n', d)"] Cons.prems s t show ?case by simp
qed simp

text \<open>C21: Whatever the caller submits and pumps, every accepted request of the pipelining client is
  either pending or has had its callback exactly once, and the numbers that \<^verbatim>\<open>pumpOnce\<close> has
  returned add up to the number of callbacks made.
\<close>

theorem pipeline_completes_once:
  assumes "length ops < 2 ^ 64 - 1"
    and "fold (pipeline_op rt) ops ([], 0, new_InlinePipelineClient True) = (acc, n, c)"
  shows "distinct (map fst (pl_pending c) @ map fst (pl_log c))
    \<and> set acc = set (map fst (pl_pending c)) \<union> set (map fst (pl_log c)) \<and> n = length (pl_log c)"
proof -
  have "pl_inv ([], 0, new_InlinePipelineClient True)"
    by (simp add: pl_inv_def pipeline.once_def pipeline.known_def new_InlinePipelineClient_def)
  moreover have "unat (pl_nextId (new_InlinePipelineClient True)) + length ops < 2 ^ 64"
    using assms(1) by (simp add: new_InlinePipelineClient_def)
  ultimately have "pl_inv (acc, n, c)"
    using pipeline_ops_inv [of "([], 0, new_InlinePipelineClient True)" ops rt] assms(2) by simp
  then show ?thesis by (simp add: pl_inv_def pipeline.once_def pipeline.known_def)
qed

theorem pipeline_completes_once_witness:
  "\<exists>acc n c. fold (pipeline_op reference_runtime) [Submit True 0 [115] [109] RpcRequest_new 5, Pump [] 5000000]
      ([], 0, new_InlinePipelineClient True) = (acc, n, c)
    \<and> n = 1 \<and> acc = [1] \<and> map fst (pl_log c) = [1] \<and> pl_pending c = []"
proof -
  let ?ops = "[Submit True 0 [115] [109] RpcRequest_new 5, Pump [] 5000000]"
  obtain acc n c where f: "fold (pipeline_op reference_runtime) ?ops ([], 0, new_InlinePipelineClient True) = (acc, n, c)"
    by (metis prod_cases3)
  then have "map fst (pl_log c) = [1] \<and> acc = [1] \<and> pl_pending c = []"
    using sample_request_encodes
    by (auto simp: pipeline_op_def submit_def pumpOnce_def sweepTimeouts_def expired_requests_def
        deadline_after_def new_InlinePipelineClient_def)
  with pipeline_completes_once [OF _ f] f show ?thesis by (auto dest: arg_cong [of _ _ length])
qed


text \<open>The wait never lasts past a deadline, and connecting ends at the latest with the first turn at the deadline.\<close>

lemma nextWaitMs_in_time:
  assumes "(i, p) \<in> set (pl_pending c)"
  shows "nextWaitMs now c * 1000000 \<le> max 0 (pp_deadline p - now)"
proof -
  have least: "fold (\<lambda>kv earliest. min (pp_deadline (snd kv)) earliest) kvs d
      \<le> (if kv \<in> set kvs then pp_deadline (snd kv) else d)" for kvs d and kv :: "u64 \<times> Pending"
  proof (induction kvs arbitrary: d)
    case (Cons x kvs)
    from Cons.IH [of "min (pp_deadline (snd x)) d"] show ?case by (auto split: if_splits)
  qed simp
  let ?e = "fold (\<lambda>kv earliest. min (pp_deadline (snd kv)) earliest) (tl (pl_pending c)) (pp_deadline (snd (hd (pl_pending c))))"
  obtain x xs where xs: "pl_pending c = x # xs" using assms by (cases "pl_pending c") auto
  have "?e \<le> pp_deadline p"
    using assms least [of xs "pp_deadline (snd x)" "(i, p)"] xs by (auto split: if_splits)
  with msUntil_early [of ?e now] show ?thesis by (simp add: nextWaitMs_def xs)
qed

lemma pipeline_connect_ends:
  "\<exists>turn \<in> set turns. deadline - snd turn < 1000000 \<Longrightarrow> pipeline_connect_wait deadline turns \<noteq> None"
  by (induction deadline turns rule: pipeline_connect_wait.induct) (auto simp: msUntil_zero)

text \<open>
  The synchronous client never throws its own time-out: the future it waits for has its value
  already, so a lost response shows as the response of the time-out of the asynchronous client.
\<close>

lemma sync_client_throws_only_not_connected:
  "RpcSyncClient_call rt hf linked io service method request timeout_ms c = Some (Inl msg) \<Longrightarrow>
    msg = str ''not connected'' \<and> \<not> async_connected linked c"
  by (auto simp: RpcSyncClient_call_def split: if_splits)

end
