(* ===== verification/EchoPrograms.thy ===== *)
theory EchoPrograms
  imports EchoService ServerStack InlineClients
begin

text \<open>
  The programs under \<^verbatim>\<open>src/examples\<close> that use the framework: the server (\<^verbatim>\<open>rpc/rpc_server_main.cc\<close>), the clients
  \<^verbatim>\<open>rpc/rpc_sync_test.cc\<close> and \<^verbatim>\<open>rpc/rpc_async_test.cc\<close>, and \<^verbatim>\<open>echo/echo_client.cc\<close>, which works on a socket
  without the network layer.  What a program prints is a list of lines.  The theorems run each
  client against the server and state what it prints.
\<close>

section \<open>The server\<close>

text \<open>The program up to where it enters its event loop; the result is the started server.\<close>

definition rpc_server_main ::
    "pb_runtime \<Rightarrow> (nat \<Rightarrow> nat) \<Rightarrow> u64 \<Rightarrow> int \<Rightarrow> bytes \<Rightarrow> nat \<Rightarrow> int \<Rightarrow> int \<Rightarrow> 's rpc_app option" where
  "rpc_server_main rt startLoop timerId ret name ch fd bound =
     (let listenAddr = zero_addr\<lparr>sin_family := AF_INET, sin_port := htons 8888, sin_addr := INADDR_ANY\<rparr>;
          server = new_RpcServer 0 name ch fd listenAddr bound [];
          server = rpc_setThreadNum 4 server;
          server = rpc_setIdleTimeout 60 server;
          server = rpc_registerService (Some (serviceName, new_EchoService rt)) server
      in rpc_start True startLoop timerId ret server)"

section \<open>The clients of the framework\<close>

datatype line = Cout bytes | Cerr bytes

text \<open>Printing the text of a response behind a label; a response that does not parse prints nothing.\<close>

definition print_echo :: "pb_runtime \<Rightarrow> bytes \<Rightarrow> RpcResponse \<Rightarrow> line list" where
  "print_echo rt label resp = (case read_echo rt resp of Some msg \<Rightarrow> [Cout (label @ msg)] | None \<Rightarrow> [])"

text \<open>
  \<open>up\<close> is the answer of the connect within three seconds, if there is one; \<open>io\<close> is what the other threads do
  while the call waits.  The result is the output, the exit code and what the destructor does to the transport; it
  is \<open>None\<close> if the call never returns.
\<close>

definition rpc_sync_test ::
    "pb_runtime \<Rightarrow> (bytes \<Rightarrow> u32) \<Rightarrow> (nat \<Rightarrow> bool) \<Rightarrow> (AsyncClient \<Rightarrow> AsyncClient) \<Rightarrow> bool option \<Rightarrow> call_env
      \<Rightarrow> (line list \<times> int \<times> transport_action list) option" where
  "rpc_sync_test rt hf linked io up e =
     (case RpcSyncClient_connect hf (\<lambda>h. True) (\<lambda>k. False) id True up (new_RpcSyncClient e) of
        (False, client) \<Rightarrow> Some ([Cerr (str ''connect failed'')], 1, fst (destroy_RpcSyncClient client))
      | (True, client) \<Rightarrow>
          map_option (\<lambda>r. case r of
              Inl what \<Rightarrow> ([Cerr (str ''error: '' @ what)], 0, fst (destroy_RpcSyncClient client))
            | Inr (resp, client) \<Rightarrow>
                (if resp_success resp then print_echo rt (str ''response: '') resp
                 else [Cerr (str ''rpc failed: '' @ resp_error_msg resp)], 0, fst (destroy_RpcSyncClient client)))
            (RpcSyncClient_call rt hf linked io (str ''EchoService'') (str ''Echo'')
              (echo_request rt (str ''hello sync rpc'')) 5000 client))"

text \<open>\<open>io'\<close> is what the other threads do in the last second, in which the program waits for the callback.\<close>

definition rpc_async_test ::
    "pb_runtime \<Rightarrow> (bytes \<Rightarrow> u32) \<Rightarrow> (nat \<Rightarrow> bool) \<Rightarrow> (AsyncClient \<Rightarrow> AsyncClient) \<Rightarrow> (AsyncClient \<Rightarrow> AsyncClient)
      \<Rightarrow> bool option \<Rightarrow> call_env \<Rightarrow> (line list \<times> int \<times> transport_action list) option" where
  "rpc_async_test rt hf linked io io' up e =
     (case async_connect hf (\<lambda>h. True) (\<lambda>k. False) id None True up (new_AsyncClient e) of
        (False, client) \<Rightarrow> Some ([Cerr (str ''connect failed'')], 1, fst (destroy_AsyncClient client))
      | (True, client) \<Rightarrow>
          let req = echo_request rt (str ''hello async future'') in
          (case asyncCall rt hf linked io (str ''EchoService'') (str ''Echo'') req 5000 client of
             None \<Rightarrow> None
           | Some (resp, client) \<Rightarrow>
               (case asyncCall_cb rt hf linked io (str ''EchoService'') (str ''Echo'') req 5000 client of
                  None \<Rightarrow> None
                | Some (called, client') \<Rightarrow>
                    let client'' = io' client';
                        final = (case called of Some r \<Rightarrow> Some r | None \<Rightarrow> map_of (rc_completed client'') (rc_nextReqId client))
                    in Some (Cout (str ''async call sent, waiting for response...'')
                          # print_echo rt (str ''future response: '') resp
                          @ (case final of Some r \<Rightarrow> print_echo rt (str ''callback response: '') r | None \<Rightarrow> []),
                         0, fst (destroy_AsyncClient client'')))))"

section \<open>The client on a socket\<close>

definition packet_lines :: "pb_runtime \<Rightarrow> DecodedPacket \<Rightarrow> line list" where
  "packet_lines rt packet =
     (if pk_msg_type packet = RESPONSE
      then Cout (str ''received response: req_id='' @ to_string (unat (pk_req_id packet)))
        # (case EchoResponse_ParseFromString rt (resp_payload (pk_rpc_response packet)) of
             Some echoResp \<Rightarrow> [Cout (str ''echo: '' @ es_message echoResp)]
           | None \<Rightarrow> [])
      else [])"

definition echo_onMessage :: "pb_runtime \<Rightarrow> MsgType \<Rightarrow> u64 \<Rightarrow> buffer \<Rightarrow> line list \<times> buffer" where
  "echo_onMessage rt t i buf =
     (case decode_all rt buf (new_packet t i) of (packets, buf', _) \<Rightarrow> (concat (map (packet_lines rt) packets), buf'))"

text \<open>What \<^verbatim>\<open>read\<close> returned: some bytes, none at the end of the stream, or an error.  The result is \<open>None\<close> while the
  program still waits.\<close>

datatype read_answer = ReadData bytes | ReadError int

fun echo_read_loop :: "pb_runtime \<Rightarrow> MsgType \<Rightarrow> u64 \<Rightarrow> buffer \<Rightarrow> read_answer list \<Rightarrow> line list option" where
  "echo_read_loop rt t i buf [] = None"
| "echo_read_loop rt t i buf (ReadError errno # answers) = Some []"
| "echo_read_loop rt t i buf (ReadData tmp # answers) =
     (if length tmp > 0 then
        (let (out, buf) = echo_onMessage rt t i (append_bytes buf tmp)
         in map_option ((@) out) (echo_read_loop rt t i buf answers))
      else Some [])"

definition int_string :: "int \<Rightarrow> bytes" where
  "int_string n = (if n < 0 then str ''-'' @ to_string (nat (- n)) else to_string (nat n))"

definition client_request :: "pb_runtime \<Rightarrow> bytes" where
  "client_request rt = encodeRequest rt (echo_request rt (str ''hello rpc'')) 1 (str ''EchoService'') (str ''Echo'')"

text \<open>The arguments are what \<^verbatim>\<open>socket\<close>, \<^verbatim>\<open>connect\<close>, \<^verbatim>\<open>write\<close> and the reads return; the result is the output, the exit
  code and the bytes the peer gets.\<close>

definition echo_client_main ::
    "pb_runtime \<Rightarrow> MsgType \<Rightarrow> u64 \<Rightarrow> int \<Rightarrow> int \<Rightarrow> int \<Rightarrow> read_answer list \<Rightarrow> (line list \<times> int \<times> bytes) option" where
  "echo_client_main rt t i sockfd conn n answers =
     (if sockfd < 0 then Some ([Cerr (str ''socket failed'')], 1, [])
      else if conn < 0 then Some ([Cerr (str ''connect failed'')], 1, [])
      else map_option (\<lambda>out. (Cout (str ''connected to server'') # Cout (str ''sent '' @ int_string n @ str '' bytes'') # out, 0,
          take (nat n) (client_request rt))) (echo_read_loop rt t i new_buffer answers))"

section \<open>The server as the clients see it\<close>

lemma echo_main_app:
  assumes "rpc_server_main rt startLoop timerId ret name ch fd bound = Some app"
  shows "\<exists>app0. configured app0 \<and> rpc_start True startLoop timerId ret app0 = Some app \<and> ap_rpc app = echo_rpc_server rt"
proof -
  let ?app0 = "rpc_registerService (Some (serviceName, new_EchoService rt)) (rpc_setIdleTimeout 60 (rpc_setThreadNum 4
    (new_RpcServer 0 name ch fd (zero_addr\<lparr>sin_family := AF_INET, sin_port := htons 8888, sin_addr := INADDR_ANY\<rparr>) bound [])))"
  have conf: "configured ?app0" by (intro configured.intros)
  have start: "rpc_start True startLoop timerId ret ?app0 = Some app"
    using assms by (simp add: rpc_server_main_def)
  have "ap_rpc ?app0 = echo_rpc_server rt"
    by (simp add: rpc_registerService_def rpc_setIdleTimeout_def rpc_setThreadNum_def new_RpcServer_def echo_rpc_server_def)
  with conf start started_server [OF conf start] show ?thesis by metis
qed

text \<open>The peer of a client of the framework: the server reads the last packet that was sent, and the client reads what
  the server answers.\<close>

definition echo_peer :: "pb_runtime \<Rightarrow> MsgType \<Rightarrow> u64 \<Rightarrow> AsyncClient \<Rightarrow> AsyncClient" where
  "echo_peer rt t i c =
     (if rc_sent c = [] then c
      else case onMessage rt (\<lambda>k. 0) t i (echo_rpc_server rt) (buffer_of (snd (last (rc_sent c)))) () of
        (rs, _, _) \<Rightarrow> fst (client_onMessage rt t i (buffer_of (concat rs)) c))"

lemma echo_call_answered:
  assumes "wire_runtime rt" and "rt_VerifyUTF8 rt []" and "msg_ok rt msg" and "req_payload req = req_payload (echo_request rt msg)"
    and "req_ok rt req" and "length (encodeRequest rt req i (str ''EchoService'') (str ''Echo'')) \<le> kMaxBufferSize"
    and "length (reply_packet rt (i, SUCCESS, echo_reply rt msg)) \<le> kMaxBufferSize"
    and "ac_inv (reg, c)" and "i \<in> set (pending c)"
    and "rc_sent c = ps @ [(tr, encodeRequest rt req i (str ''EchoService'') (str ''Echo''))]"
  shows "rc_completed (echo_peer rt t j c) = rc_completed c @ [(i, echo_reply rt msg)]"
proof -
  let ?call = "(i, str ''EchoService'', str ''Echo'', req) :: remote_call"
  have served: "serve_calls (echo_rpc_server rt) calls' () = ([(i, SUCCESS, echo_reply rt msg)], ())"
    if same: "list_all2 same_call calls' [?call]" for calls'
  proof -
    obtain z where z: "calls' = [z]" "same_call z ?call"
      using same by (auto simp: list_all2_Cons2)
    then obtain req' where "calls' = [(i, str ''EchoService'', str ''Echo'', req')]" "req_payload req' = req_payload req"
      by (cases z) (simp add: same_call_def req_same_def)
    with assms(4) wire_runtime.echo_served [OF assms(1,3), of req' "()"] show ?thesis by simp
  qed
  have "call_ok rt ?call" using assms(5) by (simp add: call_ok_def str_def)
  then have "\<exists>calls' sent b'. list_all2 same_call calls' [?call] \<and> content b' = []
    \<and> onMessage rt (\<lambda>k. 0) t j (echo_rpc_server rt) (buffer_of (call_packet rt ?call)) ()
      = (sent, b', snd (serve_calls (echo_rpc_server rt) calls' ()))
    \<and> sent = map (reply_packet rt) (fst (serve_calls (echo_rpc_server rt) calls' ()))
    \<and> (\<forall>cb t' i'. buf_inv cb \<and> content cb = concat sent \<and> length (content cb) \<le> kMaxBufferSize \<longrightarrow>
        rc_completed (fst (client_onMessage rt t' i' cb c))
          = rc_completed c @ map (\<lambda>(i, st, resp). (i, resp)) (fst (serve_calls (echo_rpc_server rt) calls' ())))"
    using assms served wire_runtime.echo_reply_ok [OF assms(1,3,2)]
    by (intro calls_answered [OF assms(1) _ _ _ _ assms(8)]) (simp_all add: call_packet_def)
  then obtain b' where m: "onMessage rt (\<lambda>k. 0) t j (echo_rpc_server rt) (buffer_of (call_packet rt ?call)) ()
      = ([reply_packet rt (i, SUCCESS, echo_reply rt msg)], b', ())"
    and compl: "\<forall>cb t' i'. buf_inv cb \<and> content cb = reply_packet rt (i, SUCCESS, echo_reply rt msg)
          \<and> length (content cb) \<le> kMaxBufferSize \<longrightarrow>
        rc_completed (fst (client_onMessage rt t' i' cb c)) = rc_completed c @ [(i, echo_reply rt msg)]"
    by (auto simp: served)
  from m compl assms(7,10) show ?thesis by (simp add: echo_peer_def call_packet_def)
qed

section \<open>Calls of a connected client\<close>

text \<open>What receiving and sending leave alone, and a client with one connected transport and no interceptors.\<close>

definition same_link :: "AsyncClient \<Rightarrow> AsyncClient \<Rightarrow> bool" where
  "same_link c d \<longleftrightarrow> rc_invalid c = rc_invalid d \<and> rc_destroyed c = rc_destroyed d \<and> rc_disconnecting c = rc_disconnecting d
     \<and> rc_connected c = rc_connected d \<and> rc_ownsClient c = rc_ownsClient d \<and> rc_borrowedTransport c = rc_borrowedTransport d
     \<and> rc_loop c = rc_loop d \<and> rc_tcpClient c = rc_tcpClient d \<and> rc_endpoints c = rc_endpoints d \<and> rc_chain c = rc_chain d
     \<and> rc_nextReqId c = rc_nextReqId d"

definition ready :: "(nat \<Rightarrow> bool) \<Rightarrow> u64 list \<Rightarrow> AsyncClient \<Rightarrow> bool" where
  "ready linked reg c \<longleftrightarrow> \<not> rc_invalid c \<and> \<not> rc_disconnecting c \<and> rc_connected c \<and> rc_ownsClient c
     \<and> \<not> rc_borrowedTransport c \<and> rc_loop c \<and> rc_tcpClient c = Some 0 \<and> rc_endpoints c = [] \<and> rc_chain c = []
     \<and> linked 0 \<and> ac_inv (reg, c)"

lemma receive_link: "same_link (receive p c) c"
  by (simp add: receive_def handleResponse_def complete_def on_breaker_def same_link_def)

lemma receive_all_link: "ac_inv (reg, c) \<Longrightarrow> same_link (fold receive ps c) c \<and> ac_inv (reg, fold receive ps c)"
proof (induction ps arbitrary: c)
  case (Cons p ps)
  with Cons.IH [of "receive p c"] receive_inv receive_link [of p c] show ?case
    by (auto simp: same_link_def)
qed (simp add: same_link_def)

lemma peer_link: "ac_inv (reg, c) \<Longrightarrow> same_link (echo_peer rt t i c) c \<and> ac_inv (reg, echo_peer rt t i c)"
  using receive_all_link by (auto simp: echo_peer_def client_onMessage_def split: prod.split) (simp add: same_link_def)

lemma ready_link: "same_link c d \<Longrightarrow> ready linked reg d \<Longrightarrow> ac_inv (reg', c) \<Longrightarrow> ready linked reg' c"
  by (simp add: ready_def same_link_def)

text \<open>A request that fits the connection.\<close>

definition fits :: "pb_runtime \<Rightarrow> RpcRequest \<Rightarrow> u64 \<Rightarrow> bool" where
  "fits rt req i \<longleftrightarrow> req_ok rt req
     \<and> length (encodeRequest rt req i (str ''EchoService'') (str ''Echo'')) \<le> kMaxBufferSize"

lemma fits_nonempty:
  assumes "wire_runtime rt" and "fits rt req i"
  shows "encodeRequest rt req i (str ''EchoService'') (str ''Echo'') \<noteq> []"
proof -
  have "length (str ''EchoService'') \<le> 65535" "length (str ''Echo'') \<le> 65535" by (simp_all add: str_def)
  with assms(2) obtain k where "encodeRequest rt req i (str ''EchoService'') (str ''Echo'') = wire k"
    using request_on_wire [OF assms(1), of req "str ''EchoService''" "str ''Echo''" i] by (auto simp: fits_def)
  with codec_stream.w_nonempty [of k] show ?thesis by simp
qed

lemma ready_sends:
  assumes "ready linked reg c" and "encodeRequest rt req i service meth \<noteq> []"
  shows "encode_and_send rt hf linked i service meth req (add_timeout i tm c)
    = (add_timeout i tm c)\<lparr>rc_sent := rc_sent c @ [(0, encodeRequest rt req i service meth)]\<rparr>"
  using assms by (simp add: ready_def encode_and_send_def sendRequest_def getTcpClient_def add_timeout_def)

text \<open>The common part of the two kinds of call: \<open>c\<close> has registered \<open>i\<close>, sends, and the peer answers.\<close>

lemma registered_call_answered:
  assumes "wire_runtime rt" and "rt_VerifyUTF8 rt []" and "msg_ok rt msg" and "req_payload req = req_payload (echo_request rt msg)"
    and "fits rt req i" and "length (reply_packet rt (i, SUCCESS, echo_reply rt msg)) \<le> kMaxBufferSize"
    and "ready linked reg c" and "i \<in> set (pending c)"
  shows "\<exists>c'. echo_peer rt t j (encode_and_send rt hf linked i (str ''EchoService'') (str ''Echo'') req (add_timeout i tm c)) = c'
    \<and> ready linked reg c' \<and> rc_nextReqId c' = rc_nextReqId c \<and> rc_completed c' = rc_completed c @ [(i, echo_reply rt msg)]"
proof -
  let ?p = "encodeRequest rt req i (str ''EchoService'') (str ''Echo'')"
  define d where "d = encode_and_send rt hf linked i (str ''EchoService'') (str ''Echo'') req (add_timeout i tm c)"
  have d: "d = (add_timeout i tm c)\<lparr>rc_sent := rc_sent c @ [(0, ?p)]\<rparr>"
    unfolding d_def by (rule ready_sends [OF assms(7) fits_nonempty [OF assms(1,5)]])
  have inv: "ac_inv (reg, d)" and pend: "i \<in> set (pending d)" and link: "same_link d c" and compl: "rc_completed d = rc_completed c"
    using assms(7,8) by (auto simp: d add_timeout_def ready_def ac_inv_def pending_def same_link_def)
  have "rc_completed (echo_peer rt t j d) = rc_completed d @ [(i, echo_reply rt msg)]"
    using assms(5,6) d by (intro echo_call_answered [OF assms(1-4) _ _ _ inv pend]) (simp_all add: fits_def)
  moreover have "same_link (echo_peer rt t j d) c" "ac_inv (reg, echo_peer rt t j d)"
    using peer_link [OF inv, of rt t j] link by (auto simp: same_link_def)
  ultimately show ?thesis
    using ready_link [OF _ assms(7)] compl by (auto simp: d_def [symmetric] same_link_def)
qed

lemma ready_completed:
  assumes "ready linked reg c"
  shows "map_of (rc_completed c @ [(rc_nextReqId c, resp)]) (rc_nextReqId c) = Some resp"
proof -
  have "rc_nextReqId c \<notin> fst ` set (rc_completed c)"
    using assms by (auto simp: ready_def ac_inv_def)
  then show ?thesis by (simp add: map_add_def map_of_eq_None_iff [symmetric] split: option.split)
qed

lemma asyncCall_echo:
  assumes "wire_runtime rt" and "rt_VerifyUTF8 rt []" and "msg_ok rt msg"
    and "fits rt (traced (rc_nextReqId c) (echo_request rt msg) c) (rc_nextReqId c)"
    and "length (reply_packet rt (rc_nextReqId c, SUCCESS, echo_reply rt msg)) \<le> kMaxBufferSize"
    and "ready linked reg c" and "rc_nextReqId c + 1 \<noteq> 0"
  shows "\<exists>c'. asyncCall rt hf linked (echo_peer rt t j) (str ''EchoService'') (str ''Echo'') (echo_request rt msg) tm c
      = Some (echo_reply rt msg, c') \<and> ready linked (reg @ [rc_nextReqId c]) c' \<and> rc_nextReqId c' = rc_nextReqId c + 1"
proof -
  let ?i = "rc_nextReqId c"
  let ?d = "c\<lparr>rc_nextReqId := ?i + 1, rc_pendingPromises := List.insert ?i (rc_pendingPromises c)\<rparr>"
  have inv: "ac_inv (reg @ [?i], ?d)"
    using register_inv(1) [OF _ assms(7)] assms(6) by (simp add: ready_def)
  with assms(6) have d: "ready linked (reg @ [?i]) ?d" "?i \<in> set (pending ?d)"
    by (simp_all add: ready_def pending_def)
  have "traced ?i (echo_request rt msg) (c\<lparr>rc_nextReqId := ?i + 1\<rparr>) = traced ?i (echo_request rt msg) c"
    by (simp add: traced_def)
  moreover have "req_payload (traced ?i (echo_request rt msg) c) = req_payload (echo_request rt msg)"
    by (simp add: traced_def RpcRequest_set_metadata_def)
  ultimately obtain c' where "echo_peer rt t j (doCall_start rt hf linked (str ''EchoService'') (str ''Echo'')
        (echo_request rt msg) ?i tm (c\<lparr>rc_nextReqId := ?i + 1\<rparr>)) = c'"
      "ready linked (reg @ [?i]) c'" "rc_nextReqId c' = ?i + 1" "rc_completed c' = rc_completed c @ [(?i, echo_reply rt msg)]"
    using registered_call_answered [OF assms(1-3) _ assms(4,5) d, of t j hf tm] by (auto simp: doCall_start_def)
  with assms(6) ready_completed [OF assms(6)] show ?thesis
    by (auto simp: asyncCall_def take_id_def doCall_def ready_def)
qed

text \<open>A new client after its connect.\<close>

lemma connected_ready:
  assumes "linked 0"
  shows "\<exists>c. async_connect hf f g id None True (Some True) (new_AsyncClient e) = (True, c) \<and> ready linked [] c
    \<and> rc_nextReqId c = 1 \<and> rc_env c = e"
  using assms
  by (simp add: async_connect_def connectDirect_def new_AsyncClient_def ready_def ac_inv_def pending_def)

lemma ready_destroys:
  assumes "ready linked reg c"
  shows "fst (destroy_RpcSyncClient c) = [ClearCallbacks 0, DisconnectPermanently 0]"
    and "fst (destroy_AsyncClient c) = [ClearCallbacks 0, DisconnectPermanently 0, ReleaseClaim 0]"
  using assms
  by (simp_all add: ready_def destroy_RpcSyncClient_def RpcSyncClient_disconnect_def destroy_AsyncClient_def disconnect_def
      stopHeartbeat_def Let_def)

section \<open>The client on the socket\<close>

text \<open>What the client prints for a message.\<close>

fun message_lines :: "pb_runtime \<Rightarrow> message \<Rightarrow> line list" where
  "message_lines rt (ResponseMsg i st resp) =
     Cout (str ''received response: req_id='' @ to_string (unat i))
       # (case EchoResponse_ParseFromString rt (resp_payload resp) of
            Some echoResp \<Rightarrow> [Cout (str ''echo: '' @ es_message echoResp)] | None \<Rightarrow> [])"
| "message_lines rt _ = []"

lemma packet_lines_message: "packet_lines rt = (\<lambda>p. message_lines rt (message_of p))"
proof
  show "packet_lines rt p = message_lines rt (message_of p)" for p
    by (cases "pk_msg_type p") (simp_all add: packet_lines_def message_of_def)
qed

lemma echo_onMessage_loop:
  "echo_onMessage rt t i b
    = (case decode_loop rt (new_packet t i) b of (msgs, b') \<Rightarrow> (concat (map (message_lines rt) msgs), b'))"
  by (simp add: echo_onMessage_def decode_loop_def packet_lines_message comp_def split: prod.split)

lemma echo_read_loop_feed:
  assumes "list_all (\<lambda>x. x \<noteq> []) xs"
  shows "echo_read_loop rt t i b (map ReadData xs @ [ReadData []])
    = Some (concat (map (message_lines rt) (fst (feed append_bytes (decode_loop rt (new_packet t i)) b xs))))"
  using assms
proof (induction xs arbitrary: b)
  case (Cons x xs)
  obtain msgs b' where d: "decode_loop rt (new_packet t i) (append_bytes b x) = (msgs, b')" by fastforce
  with Cons.IH [of b'] Cons.prems show ?case
    by (simp add: echo_onMessage_loop split: prod.split)
qed simp

lemma echo_client_reads:
  assumes "wire_runtime rt" and "rt_VerifyUTF8 rt []" and "msg_ok rt msg"
    and "list_all (\<lambda>x. x \<noteq> []) xs" and "concat xs = reply_packet rt (i, SUCCESS, echo_reply rt msg)"
    and "2 * length (concat xs) \<le> kMaxBufferSize"
  shows "echo_read_loop rt t j new_buffer (map ReadData xs @ [ReadData []])
    = Some [Cout (str ''received response: req_id='' @ to_string (unat i)), Cout (str ''echo: '' @ msg)]"
proof -
  have xs: "concat xs = encodeResponse rt (echo_reply rt msg) i SUCCESS"
    using assms(5) by (simp add: reply_packet_def)
  then have "length (encodeResponse rt (echo_reply rt msg) i SUCCESS) \<le> kMaxBufferSize"
    using assms(6) by simp
  from response_on_wire [OF assms(1) wire_runtime.echo_reply_ok [OF assms(1,3,2)] this] obtain k where
    k: "concat xs = wire k" "wire_ok rt k" "wire_msg rt k = ResponseMsg i SUCCESS (echo_reply rt msg)"
    unfolding xs by blast
  have "length x \<le> length (concat xs)" if "x \<in> set xs" for x
    using that member_le_sum_list [of "length x" "map length xs"] by (simp add: length_concat)
  then have small: "\<forall>x \<in> set xs. \<forall>k \<in> set [k]. length x + length (wire k) \<le> kMaxBufferSize"
    using assms(6) unfolding k(1) by fastforce
  have "unfinished wire [k] (content new_buffer) (concat xs)" "list_all (wire_ok rt) [k]"
    using k codec_stream.w_nonempty by (simp_all add: unfinished_def)
  from codec_stream.feed_delivers [OF buf_inv_new this(2,1) small, of "new_packet t j"]
  have "fst (feed append_bytes (decode_loop rt (new_packet t j)) new_buffer xs) = [ResponseMsg i SUCCESS (echo_reply rt msg)]"
    using k(3) by auto
  moreover obtain m where "EchoResponse_ParseFromString rt (resp_payload (echo_reply rt msg)) = Some m" "es_message m = msg"
    using wire_runtime.echo_response_payload(2) [OF assms(1,3)] by (auto simp: read_echo_def split: if_splits)
  ultimately show ?thesis
    using echo_read_loop_feed [OF assms(4), of rt t j new_buffer] by simp
qed

section \<open>The server program on one connection\<close>

text \<open>What the client on the socket prints when \<open>n\<close> bytes were written and the answer came.\<close>

abbreviation echo_output :: "int \<Rightarrow> line list" where
  "echo_output n \<equiv> [Cout (str ''connected to server''), Cout (str ''sent '' @ int_string n @ str '' bytes''),
     Cout (str ''received response: req_id=1''), Cout (str ''echo: hello rpc'')]"

lemma echo_conn_accepted:
  assumes "rpc_server_main rt startLoop timerId ret name ch0 fd0 bound = Some app" and "0 \<le> fd" and "map_of ep fd = None"
  shows "\<exists>s1 l conn t. server_readable True ch ep now (Inr (fd, peer)) (ap_server app) = Some s1
    \<and> map_of (ts_connections s1) (connName (ts_name (ap_server app)) (ts_nextConnId (ap_server app))) = Some (l, conn)
    \<and> connectEstablished True conn = Some t \<and> live [] t \<and> tc_state t = kConnected \<and> content (tc_inputBuffer t) = []"
proof -
  obtain app0 where "configured app0" "rpc_start True startLoop timerId ret app0 = Some app"
    using echo_main_app [OF assms(1)] by blast
  from started_server [OF this] readable_accepts [of "ap_server app" fd ch ep now peer] assms(2)
    established_live [OF assms(3), of ch now "ap_server app"] show ?thesis by blast
qed

lemma echo_server_replies:
  assumes "wire_runtime rt" and "msg_ok rt msg"
    and "length (call_packet rt (echo_call rt (i, msg))) + extrabuf_size \<le> kMaxBufferSize"
    and "rpc_server_main rt startLoop timerId ret name ch0 fd0 bound = Some app"
    and "server_run opers (ap_server app) = Some s0" and "0 \<le> fd" and "map_of ep fd = None"
  shows "\<exists>s1 l conn t. server_readable True ch ep now (Inr (fd, peer)) s0 = Some s1
    \<and> map_of (ts_connections s1) (connName (ts_name s0) (ts_nextConnId s0)) = Some (l, conn)
    \<and> connectEstablished True conn = Some t
    \<and> (\<forall>evs. list_all event_ok evs \<and> concat (map arrives evs) = call_packet rt (echo_call rt (i, msg)) \<longrightarrow>
        (\<exists>t'. server_conn_run rt (ap_rpc app) evs (s, t) = Some (s, t')
          \<and> (tc_state t' = kConnected \<longrightarrow>
              sent t' @ content (tc_outputBuffer t') = reply_packet rt (i, SUCCESS, echo_reply rt msg))))"
proof -
  let ?call = "echo_call rt (i, msg)"
  obtain app0 where app0: "configured app0" "rpc_start True startLoop timerId ret app0 = Some app"
      "ap_rpc app = echo_rpc_server rt"
    using echo_main_app [OF assms(4)] by blast
  have "list_all (call_ok rt) [?call]" "list_all (\<lambda>c. length (call_packet rt c) + extrabuf_size \<le> kMaxBufferSize) [?call]"
    using wire_runtime.echo_call_ok [OF assms(1,2)] assms(3) by simp_all
  from accepted_serves [OF assms(1) this app0(1,2) assms(5-7), of ch now peer s] obtain s1 l conn t where
    conn: "server_readable True ch ep now (Inr (fd, peer)) s0 = Some s1"
      "map_of (ts_connections s1) (connName (ts_name s0) (ts_nextConnId s0)) = Some (l, conn)"
      "connectEstablished True conn = Some t"
    and run: "\<forall>evs. list_all event_ok evs \<and> concat (map arrives evs) = concat (map (call_packet rt) [?call]) \<longrightarrow>
        (\<exists>calls' t'. list_all2 same_call calls' [?call]
          \<and> server_conn_run rt (ap_rpc app) evs (s, t) = Some (snd (serve_calls (ap_rpc app) calls' s), t')
          \<and> content (tc_inputBuffer t') = [] \<and> prefix (sent t') (replies rt (ap_rpc app) calls' s)
          \<and> (tc_state t' = kConnected \<longrightarrow> sent t' @ content (tc_outputBuffer t') = replies rt (ap_rpc app) calls' s))"
    by blast
  have served: "serve_calls (ap_rpc app) calls' s = ([(i, SUCCESS, echo_reply rt msg)], s)"
    if "list_all2 same_call calls' [?call]" for calls'
    using wire_runtime.echo_calls_served [OF assms(1), of calls' "[(i, msg)]" s] that assms(2) app0(3) by simp
  have "\<exists>t'. server_conn_run rt (ap_rpc app) evs (s, t) = Some (s, t')
      \<and> (tc_state t' = kConnected \<longrightarrow> sent t' @ content (tc_outputBuffer t') = reply_packet rt (i, SUCCESS, echo_reply rt msg))"
    if ev: "list_all event_ok evs" "concat (map arrives evs) = call_packet rt ?call" for evs
  proof -
    obtain calls' t' where c: "list_all2 same_call calls' [?call]"
        "server_conn_run rt (ap_rpc app) evs (s, t) = Some (snd (serve_calls (ap_rpc app) calls' s), t')"
        "tc_state t' = kConnected \<longrightarrow> sent t' @ content (tc_outputBuffer t') = replies rt (ap_rpc app) calls' s"
      using run ev by auto
    with served [OF c(1)] show ?thesis by (auto simp: replies_def)
  qed
  with conn show ?thesis by blast
qed

section \<open>Properties\<close>

lemma print_echo_reply:
  assumes "wire_runtime rt" and "msg_ok rt msg"
  shows "resp_success (echo_reply rt msg)" and "print_echo rt label (echo_reply rt msg) = [Cout (label @ msg)]"
  using wire_runtime.echo_response_payload(2) [OF assms] by (simp_all add: print_echo_def) (simp add: echo_reply_def)

lemma callback_echo:
  assumes "wire_runtime rt" and "rt_VerifyUTF8 rt []" and "msg_ok rt msg" and "fits rt (echo_request rt msg) (rc_nextReqId c)"
    and "length (reply_packet rt (rc_nextReqId c, SUCCESS, echo_reply rt msg)) \<le> kMaxBufferSize"
    and "ready linked reg c" and "rc_nextReqId c + 1 \<noteq> 0"
  shows "\<exists>d. asyncCall_cb rt hf linked io (str ''EchoService'') (str ''Echo'') (echo_request rt msg) tm c = Some (None, d)
    \<and> ready linked (reg @ [rc_nextReqId c]) (echo_peer rt t j d)
    \<and> map_of (rc_completed (echo_peer rt t j d)) (rc_nextReqId c) = Some (echo_reply rt msg)"
proof -
  let ?i = "rc_nextReqId c"
  let ?d = "c\<lparr>rc_nextReqId := ?i + 1, rc_pendingCallbacks := List.insert ?i (rc_pendingCallbacks c)\<rparr>"
  have inv: "ac_inv (reg @ [?i], ?d)"
    using register_inv(2) [OF _ assms(7)] assms(6) by (simp add: ready_def)
  with assms(6) have d: "ready linked (reg @ [?i]) ?d" "?i \<in> set (pending ?d)"
    by (simp_all add: ready_def pending_def)
  from registered_call_answered [OF assms(1-3) refl assms(4,5) d, of t j hf tm] assms(6) ready_completed [OF assms(6)]
  show ?thesis by (auto simp: asyncCall_cb_def take_id_def asyncCall_callback_def ready_def)
qed

text \<open>C4: The two client programs against the echo server: once they are connected, the synchronous one prints the text it sent, and the
  asynchronous one prints its text twice, from the future and from the callback; both exit with 0 and leave the
  transport disconnected.
\<close>

theorem clients_print_echo:
  assumes "wire_runtime rt" and "rt_VerifyUTF8 rt []" and "linked 0"
    and "msg_ok rt (str ''hello sync rpc'')" and "msg_ok rt (str ''hello async future'')"
    and "fits rt (traced 1 (echo_request rt (str ''hello sync rpc'')) (new_AsyncClient e)) 1"
    and "fits rt (traced 1 (echo_request rt (str ''hello async future'')) (new_AsyncClient e)) 1"
    and "fits rt (echo_request rt (str ''hello async future'')) 2"
    and "length (reply_packet rt (1, SUCCESS, echo_reply rt (str ''hello sync rpc''))) \<le> kMaxBufferSize"
    and "length (reply_packet rt (1, SUCCESS, echo_reply rt (str ''hello async future''))) \<le> kMaxBufferSize"
    and "length (reply_packet rt (2, SUCCESS, echo_reply rt (str ''hello async future''))) \<le> kMaxBufferSize"
  shows "rpc_sync_test rt hf linked (echo_peer rt t j) (Some True) e
      = Some ([Cout (str ''response: hello sync rpc'')], 0, [ClearCallbacks 0, DisconnectPermanently 0])
    \<and> rpc_async_test rt hf linked (echo_peer rt t j) (echo_peer rt t j) (Some True) e
      = Some ([Cout (str ''async call sent, waiting for response...''), Cout (str ''future response: hello async future''),
               Cout (str ''callback response: hello async future'')], 0,
              [ClearCallbacks 0, DisconnectPermanently 0, ReleaseClaim 0])"
proof -
  let ?s = "str ''hello sync rpc''" and ?a = "str ''hello async future''"
  obtain c where c: "async_connect hf (\<lambda>h. True) (\<lambda>k. False) id None True (Some True) (new_AsyncClient e) = (True, c)"
    and r: "ready linked [] c" and i: "rc_nextReqId c = 1" and env: "rc_env c = e"
    using connected_ready [where linked = linked, OF assms(3)] by blast
  have tr: "traced 1 req c = traced 1 req (new_AsyncClient e)" for req
    using r env by (simp add: traced_def ready_def new_AsyncClient_def)
  obtain c1 where c1: "asyncCall rt hf linked (echo_peer rt t j) (str ''EchoService'') (str ''Echo'') (echo_request rt ?s) 5000 c
      = Some (echo_reply rt ?s, c1)" "ready linked [1] c1"
    using asyncCall_echo [OF assms(1,2,4) _ _ r, of hf t j 5000] assms(6,9) by (auto simp: i tr)
  obtain c2 where c2: "asyncCall rt hf linked (echo_peer rt t j) (str ''EchoService'') (str ''Echo'') (echo_request rt ?a) 5000 c
      = Some (echo_reply rt ?a, c2)" "ready linked [1] c2" "rc_nextReqId c2 = 2"
    using asyncCall_echo [OF assms(1,2,5) _ _ r, of hf t j 5000] assms(7,10) by (auto simp: i tr)
  obtain d where d: "asyncCall_cb rt hf linked (echo_peer rt t j) (str ''EchoService'') (str ''Echo'') (echo_request rt ?a) 5000 c2
      = Some (None, d)" "ready linked [1, 2] (echo_peer rt t j d)"
      "map_of (rc_completed (echo_peer rt t j d)) 2 = Some (echo_reply rt ?a)"
    using callback_echo [OF assms(1,2,5) _ _ c2(2), of hf "echo_peer rt t j" 5000 t j] assms(8,11) by (auto simp: c2(3))
  have "RpcSyncClient_call rt hf linked (echo_peer rt t j) (str ''EchoService'') (str ''Echo'') (echo_request rt ?s) 5000 c
      = Some (Inr (echo_reply rt ?s, c1))"
    using c1(1) r by (simp add: RpcSyncClient_call_def async_connected_def ready_def)
  with c ready_destroys(1) [OF c1(2)] print_echo_reply [OF assms(1,4)]
  have "rpc_sync_test rt hf linked (echo_peer rt t j) (Some True) e
      = Some ([Cout (str ''response: hello sync rpc'')], 0, [ClearCallbacks 0, DisconnectPermanently 0])"
    by (simp add: rpc_sync_test_def RpcSyncClient_connect_def new_RpcSyncClient_def) (simp add: str_def)
  moreover have "rpc_async_test rt hf linked (echo_peer rt t j) (echo_peer rt t j) (Some True) e
      = Some ([Cout (str ''async call sent, waiting for response...''), Cout (str ''future response: hello async future''),
               Cout (str ''callback response: hello async future'')], 0,
              [ClearCallbacks 0, DisconnectPermanently 0, ReleaseClaim 0])"
    using c c2(1) d(1) ready_destroys(2) [OF d(2)] print_echo_reply [OF assms(1,5)]
    by (simp add: rpc_async_test_def Let_def c2(3) d(3)) (simp add: str_def)
  ultimately show ?thesis by blast
qed

text \<open>C3: The client on the socket against the server program: however the kernel cuts the request into reads and the reply into writes
  on the server's side, and the reply into reads on the client's, the client prints the text it sent, once the server has written
  all of its reply and closes.
\<close>

theorem echo_client_prints:
  assumes "wire_runtime rt" and "rt_VerifyUTF8 rt []" and "msg_ok rt (str ''hello rpc'')"
    and "length (client_request rt) + extrabuf_size \<le> kMaxBufferSize"
    and "2 * length (reply_packet rt (1, SUCCESS, echo_reply rt (str ''hello rpc''))) \<le> kMaxBufferSize"
    and "rpc_server_main rt startLoop timerId ret name ch0 fd0 bound = Some app"
    and "server_run opers (ap_server app) = Some s0" and "0 \<le> fd" and "map_of ep fd = None"
    and "0 \<le> sockfd" and "n = int (length (client_request rt))"
  shows "\<exists>s1 l conn t. server_readable True ch ep now (Inr (fd, peer)) s0 = Some s1
    \<and> map_of (ts_connections s1) (connName (ts_name s0) (ts_nextConnId s0)) = Some (l, conn)
    \<and> connectEstablished True conn = Some t
    \<and> (\<forall>evs. list_all event_ok evs \<and> concat (map arrives evs) = client_request rt \<longrightarrow>
        (\<exists>t'. server_conn_run rt (ap_rpc app) evs (s, t) = Some (s, t')
          \<and> (\<forall>xs. tc_state t' = kConnected \<and> content (tc_outputBuffer t') = []
              \<and> concat xs = sent t' \<and> list_all (\<lambda>x. x \<noteq> []) xs \<longrightarrow>
              echo_client_main rt ty j sockfd 0 n (map ReadData xs @ [ReadData []])
              = Some (echo_output n, 0, client_request rt))))"
proof -
  have call: "call_packet rt (echo_call rt (1, str ''hello rpc'')) = client_request rt"
    by (simp add: call_packet_def echo_call_def client_request_def)
  have "length (call_packet rt (echo_call rt (1, str ''hello rpc''))) + extrabuf_size \<le> kMaxBufferSize"
    using assms(4) by (simp add: call)
  from echo_server_replies [OF assms(1,3) this assms(6-9), of ch now peer s] obtain s1 l conn t where
    conn: "server_readable True ch ep now (Inr (fd, peer)) s0 = Some s1"
      "map_of (ts_connections s1) (connName (ts_name s0) (ts_nextConnId s0)) = Some (l, conn)"
      "connectEstablished True conn = Some t"
    and run: "\<forall>evs. list_all event_ok evs \<and> concat (map arrives evs) = client_request rt \<longrightarrow>
        (\<exists>t'. server_conn_run rt (ap_rpc app) evs (s, t) = Some (s, t')
          \<and> (tc_state t' = kConnected \<longrightarrow>
              sent t' @ content (tc_outputBuffer t') = reply_packet rt (1, SUCCESS, echo_reply rt (str ''hello rpc''))))"
    unfolding call by blast
  have reads: "echo_client_main rt ty j sockfd 0 n (map ReadData xs @ [ReadData []])
      = Some (echo_output n, 0, client_request rt)"
    if "concat xs = reply_packet rt (1, SUCCESS, echo_reply rt (str ''hello rpc''))" "list_all (\<lambda>x. x \<noteq> []) xs" for xs
    using echo_client_reads [OF assms(1-3) that(2,1), of ty j] that(1) assms(5,10,11)
    by (simp add: echo_client_main_def) (simp add: str_def to_string.simps)
  from run reads conn show ?thesis by fastforce
qed

section \<open>The programs run\<close>

lemma reference_fits:
  assumes "distinct (map fst (req_metadata req))" and "list_all (\<lambda>(k, v). utf8 k \<and> utf8 v) (req_metadata req)"
    and "req_unknown req = []" and "RpcRequest_ByteSizeLong reference_runtime req \<le> 1000"
  shows "fits reference_runtime req i
    \<and> length (encodeRequest reference_runtime req i (str ''EchoService'') (str ''Echo'')) \<le> 1045"
proof -
  have "RpcRequest_SerializeToString reference_runtime req = Some (RpcRequest_InternalSerialize reference_runtime req)"
    using assms(4) by (simp add: RpcRequest_SerializeToString_def serialize_with_def)
  moreover have "length (str ''EchoService'') \<le> 65535" "length (str ''Echo'') \<le> 65535" by (simp_all add: str_def)
  ultimately have "length (encodeRequest reference_runtime req i (str ''EchoService'') (str ''Echo''))
      = 45 + RpcRequest_ByteSizeLong reference_runtime req"
    using encodeRequestBody_fields [of "str ''EchoService''" "str ''Echo''"]
    by (auto simp: encodeRequest_def Let_def str_def ref_rt.RpcRequest_size dest: arg_cong [where f = length])
  with assms show ?thesis by (simp add: fits_def req_ok_def kMaxField_def kMaxBufferSize_def)
qed

lemmas echo_eval = traced_def new_AsyncClient_def RpcRequest_set_metadata_def echo_request_def RpcRequest_new_def
  trace_key_def sample_env_def str_def to_string.simps RpcRequest_ByteSizeLong_def EchoRequest_SerializeToString_def
  EchoRequest_InternalSerialize_def EchoRequest_ByteSizeLong_def EchoRequest_new_def wire_eval map_entry_def

lemma programs_fit:
  "fits reference_runtime (traced 1 (echo_request reference_runtime (str ''hello sync rpc'')) (new_AsyncClient sample_env)) 1"
  "fits reference_runtime (traced 1 (echo_request reference_runtime (str ''hello async future'')) (new_AsyncClient sample_env)) 1"
  "fits reference_runtime (echo_request reference_runtime (str ''hello async future'')) 2"
  by (rule reference_fits [THEN conjunct1]; simp add: echo_eval)+

lemma client_request_fits: "length (client_request reference_runtime) \<le> 1045"
  unfolding client_request_def by (rule reference_fits [THEN conjunct2]; simp add: echo_eval)

lemma reference_reply_length:
  assumes "length msg \<le> 100"
  shows "length (reply_packet reference_runtime (i, SUCCESS, echo_reply reference_runtime msg)) \<le> 1000"
proof -
  have len: "length (varint n) \<le> 2" if "n \<le> 1000" for n
    using length_varint [of n 1] that by simp
  have "length (resp_payload (echo_reply reference_runtime msg)) \<le> 103"
    using len [of "length msg"] assms
    by (simp add: echo_reply_def EchoResponse_InternalSerialize_def EchoResponse_new_def wire_eval)
  moreover have "RpcResponse_ByteSizeLong reference_runtime (echo_reply reference_runtime msg)
      \<le> length (resp_payload (echo_reply reference_runtime msg)) + 10" if "length (resp_payload (echo_reply reference_runtime msg)) \<le> 103"
    using len [of "length (resp_payload (echo_reply reference_runtime msg))"] that
    by (simp add: RpcResponse_ByteSizeLong_def string_size_def length_delimited_eq) (simp add: echo_reply_def RpcResponse_new_def)
  ultimately have "RpcResponse_ByteSizeLong reference_runtime (echo_reply reference_runtime msg) \<le> 113" by simp
  then show ?thesis
    by (simp add: reply_packet_def encodeResponse_def encodeResponseBody_def RpcResponse_SerializeToString_def
        serialize_with_def appendPayload_field ref_rt.RpcResponse_size)
qed

lemma texts_ok:
  "msg_ok reference_runtime (str ''hello sync rpc'')" "msg_ok reference_runtime (str ''hello async future'')"
  "msg_ok reference_runtime (str ''hello rpc'')"
  by (simp_all add: msg_ok_def str_def kMaxBufferSize_def)

theorem clients_print_echo_witness:
  "rpc_sync_test reference_runtime (\<lambda>k. 0) (\<lambda>t. True) (echo_peer reference_runtime REQUEST 0) (Some True) sample_env
      = Some ([Cout (str ''response: hello sync rpc'')], 0, [ClearCallbacks 0, DisconnectPermanently 0])
    \<and> rpc_async_test reference_runtime (\<lambda>k. 0) (\<lambda>t. True) (echo_peer reference_runtime REQUEST 0)
        (echo_peer reference_runtime REQUEST 0) (Some True) sample_env
      = Some ([Cout (str ''async call sent, waiting for response...''), Cout (str ''future response: hello async future''),
               Cout (str ''callback response: hello async future'')], 0,
              [ClearCallbacks 0, DisconnectPermanently 0, ReleaseClaim 0])"
proof -
  have short: "length (reply_packet reference_runtime (i, SUCCESS, echo_reply reference_runtime m)) \<le> kMaxBufferSize"
    if "length m \<le> 100" for i m
    using reference_reply_length [OF that, of i] by (simp add: kMaxBufferSize_def)
  show ?thesis
    by (rule clients_print_echo [OF ref_rt.wire_runtime_axioms _ _ texts_ok(1,2) programs_fit])
      (simp_all add: short str_def)
qed

lemma answered_at_once:
  assumes "wire_runtime rt" and "msg_ok rt msg" and "live [] t" and "tc_state t = kConnected" and "content (tc_inputBuffer t) = []"
    and "x = call_packet rt (echo_call rt (i, msg))" and "x \<noteq> []" and "length x \<le> extrabuf_size"
    and "length (reply_packet rt (i, SUCCESS, echo_reply rt msg)) \<le> n"
  shows "\<exists>t'. server_conn_run rt (echo_rpc_server rt) [Arrive x time ty j (\<lambda>k. (Wrote n, Inr 0)) now] (s, t) = Some (s, t')
    \<and> tc_state t' = kConnected \<and> content (tc_outputBuffer t') = []"
proof -
  define u where "u = updateActiveTime now t"
  have inv: "conn_inv [] t" using assms(3,4) by (auto simp: live_def)
  have msgcb: "tc_messageCallback t" "buf_inv (tc_inputBuffer t)" using assms(3) inv by (auto simp: live_def conn_inv_def)
  have out: "\<not> isWriting (tc_channel u)" "readableBytes (tc_outputBuffer u) = 0" "content (tc_outputBuffer u) = []"
      "tc_state u = kConnected" "tc_messageCallback u" "tc_inputBuffer u = tc_inputBuffer t"
    using inv assms(4) msgcb length_content [of "tc_outputBuffer t"] by (auto simp: conn_inv_open u_def updateActiveTime_def)
  obtain b where b: "readFd (tc_inputBuffer t) [ReadvData x] = Some (int (length x), None, b, [])" "buf_inv b" "content b = x"
    using readFd_all [OF msgcb(2) assms(8)] assms(5) by auto
  have "list_all (call_ok rt) [echo_call rt (i, msg)]" "content b = concat (map (call_packet rt) [echo_call rt (i, msg)])"
      "length (content b) \<le> kMaxBufferSize"
    using wire_runtime.echo_call_ok [OF assms(1,2)] b(3) assms(6,8) by (simp_all add: kMaxBufferSize_def extrabuf_size_def)
  from server_replies [OF assms(1) this(1) b(2) this(2,3), of time ty j "echo_rpc_server rt" s]
    wire_runtime.echo_calls_served [OF assms(1), of _ "[(i, msg)]" s] assms(2)
  obtain b' where m: "onMessage rt time ty j (echo_rpc_server rt) b s = ([reply_packet rt (i, SUCCESS, echo_reply rt msg)], b', s)"
    by fastforce
  with b(1) assms(7,9) msgcb(1) out show ?thesis
    by (auto simp: handleRead_def u_def [symmetric] rpc_onMessage_def rpc_state_def send_def sendInLoop_def buffer_rest_def
        Let_def emit_if_def simp del: readFd.simps)
qed

lemma server_main_starts: "\<exists>app. rpc_server_main rt Suc 1 0 (str ''0.0.0.0'') 1 3 0 = Some app"
  by (auto simp: rpc_server_main_def rpc_start_def server_start_def listen_def enableReading_def updateChannel_def
      new_RpcServer_def new_TcpServer_def new_Acceptor_def new_Channel_def rpc_setIdleTimeout_def rpc_setThreadNum_def
      rpc_registerService_def server_setThreadNum_def server_setIdleTimeout_def epoll_ctl_def isNoneEvent_def Let_def
      split: if_split)

theorem echo_client_prints_witness:
  "\<exists>app t t' xs. rpc_server_main reference_runtime Suc 1 0 (str ''0.0.0.0'') 1 3 0 = Some (app :: unit rpc_app)
    \<and> server_conn_run reference_runtime (ap_rpc app)
        [Arrive (client_request reference_runtime) (\<lambda>k. 0) REQUEST 0 (\<lambda>k. (Wrote 1000, Inr 0)) 1] ((), t) = Some ((), t')
    \<and> concat xs = sent t'
    \<and> echo_client_main reference_runtime REQUEST 0 5 0 (int (length (client_request reference_runtime)))
        (map ReadData xs @ [ReadData []])
      = Some (echo_output (int (length (client_request reference_runtime))), 0, client_request reference_runtime)"
proof -
  let ?rt = reference_runtime
  obtain app :: "unit rpc_app" where app: "rpc_server_main ?rt Suc 1 0 (str ''0.0.0.0'') 1 3 0 = Some app"
    using server_main_starts by blast
  have len: "length (client_request ?rt) + extrabuf_size \<le> kMaxBufferSize"
      "2 * length (reply_packet ?rt (1, SUCCESS, echo_reply ?rt (str ''hello rpc''))) \<le> kMaxBufferSize"
      "length (reply_packet ?rt (1, SUCCESS, echo_reply ?rt (str ''hello rpc''))) \<le> 1000"
    using client_request_fits reference_reply_length [of "str ''hello rpc''" 1]
    by (simp_all add: extrabuf_size_def kMaxBufferSize_def str_def)
  have call: "client_request ?rt = call_packet ?rt (echo_call ?rt (1, str ''hello rpc''))"
    by (simp add: call_packet_def echo_call_def client_request_def)
  have ne: "client_request ?rt \<noteq> []" "length (client_request ?rt) \<le> extrabuf_size"
    using fits_nonempty [OF ref_rt.wire_runtime_axioms reference_fits [THEN conjunct1]] client_request_fits
    by (simp_all add: client_request_def extrabuf_size_def echo_eval)
  let ?evs = "[Arrive (client_request ?rt) (\<lambda>k. 0) REQUEST 0 (\<lambda>k. (Wrote 1000, Inr 0)) 1]"
  obtain s1 l conn t where acc: "server_readable True 9 [] 0 (Inr (7, zero_addr)) (ap_server app) = Some s1"
      "map_of (ts_connections s1) (connName (ts_name (ap_server app)) (ts_nextConnId (ap_server app))) = Some (l, conn)"
      "connectEstablished True conn = Some t" "live [] t" "tc_state t = kConnected" "content (tc_inputBuffer t) = []"
    using echo_conn_accepted [OF app, of 7 "[]" 9 0 zero_addr] by auto
  have srv: "ap_rpc app = echo_rpc_server ?rt" using echo_main_app [OF app] by blast
  obtain t' where t': "server_conn_run ?rt (ap_rpc app) ?evs ((), t) = Some ((), t')" "tc_state t' = kConnected"
      "content (tc_outputBuffer t') = []"
    using answered_at_once [OF ref_rt.wire_runtime_axioms texts_ok(3) acc(4-6) call ne len(3), of "\<lambda>k. 0" REQUEST 0 1 "()"]
    unfolding srv by blast
  have "list_all event_ok ?evs" "concat (map arrives ?evs) = client_request ?rt"
    using ne by (simp_all add: write_ok_def)
  moreover obtain s1' l' conn' t2 where t2: "server_readable True 9 [] 0 (Inr (7, zero_addr)) (ap_server app) = Some s1'"
      "map_of (ts_connections s1') (connName (ts_name (ap_server app)) (ts_nextConnId (ap_server app))) = Some (l', conn')"
      "connectEstablished True conn' = Some t2"
    and all: "\<forall>evs. list_all event_ok evs \<and> concat (map arrives evs) = client_request ?rt \<longrightarrow>
        (\<exists>t'. server_conn_run ?rt (ap_rpc app) evs ((), t2) = Some ((), t')
          \<and> (\<forall>xs. tc_state t' = kConnected \<and> content (tc_outputBuffer t') = []
              \<and> concat xs = sent t' \<and> list_all (\<lambda>x. x \<noteq> []) xs \<longrightarrow>
              echo_client_main ?rt REQUEST 0 5 0 (int (length (client_request ?rt))) (map ReadData xs @ [ReadData []])
              = Some (echo_output (int (length (client_request ?rt))), 0, client_request ?rt)))"
    using echo_client_prints [OF ref_rt.wire_runtime_axioms _ texts_ok(3) len(1,2) app, of "[]" "ap_server app" 7 "[]" 5
      "int (length (client_request ?rt))" 9 0 zero_addr "()" REQUEST 0] by auto
  moreover from t2 acc(1-3) have "t2 = t" by simp
  ultimately have "\<forall>xs. concat xs = sent t' \<and> list_all (\<lambda>x. x \<noteq> []) xs \<longrightarrow>
      echo_client_main ?rt REQUEST 0 5 0 (int (length (client_request ?rt))) (map ReadData xs @ [ReadData []])
      = Some (echo_output (int (length (client_request ?rt))), 0, client_request ?rt)"
    using t' by (metis option.inject prod.inject)
  moreover have "concat (if sent t' = [] then [] else [sent t']) = sent t'"
      "list_all (\<lambda>x. x \<noteq> []) (if sent t' = [] then [] else [sent t'])" by simp_all
  ultimately show ?thesis using app t'(1) by blast
qed

end
