(* ===== verification/EventLoop.thy ===== *)
theory EventLoop
  imports Complex_Main Channel "HOL-Library.Multiset" "HOL-Library.AList"
begin

text \<open>
  The event loop of \<^verbatim>\<open>src/src/network/event_loop.cc\<close>: timers, queued functors, the wakeup
  descriptor and one round of the loop.  A callback is a value of some type \<open>'cb\<close>; what it
  does to the loop and to the rest of the program is the argument \<open>exec\<close>.  An exception ends a
  callback early and is caught by the loop, so it is one more thing \<open>exec\<close> may do.  Clock
  readings, the answers of \<^verbatim>\<open>epoll_wait\<close> and whether the caller is the loop's thread are
  arguments.

  \<^verbatim>\<open>timers_\<close> is a priority queue: the list of the tasks by time.  The standard leaves the
  order of tasks with equal times open; here the later pushed comes later.  A task shares its
  \<^verbatim>\<open>cancelled\<close> flag with \<^verbatim>\<open>timerFlags_\<close>: the flags live in a store, and both hold the
  address.
\<close>

section \<open>State\<close>

record 'cb TimerTask =
  tt_id :: u64
  tt_nextRun :: int
  tt_interval :: nat
  tt_callback :: 'cb
  tt_cancelled :: nat

record 'cb EventLoop =
  el_events :: nat
  el_looping :: bool
  el_quit :: bool
  el_wakeup :: u64
  el_pendingFunctors :: "'cb list"
  el_timers :: "'cb TimerTask list"
  el_nextTimerId :: u64
  el_timerFlags :: "(u64 \<times> nat) list"
  el_flags :: "bool list"

definition kEpollWaitTimeoutMs :: int where "kEpollWaitTimeoutMs = 10000"

definition new_EventLoop :: "'cb EventLoop" where
  "new_EventLoop = \<lparr>el_events = 16, el_looping = False, el_quit = False, el_wakeup = 0,
     el_pendingFunctors = [], el_timers = [], el_nextTimerId = 1, el_timerFlags = [],
     el_flags = []\<rparr>"

definition ns_of_ms :: "nat \<Rightarrow> int" where "ns_of_ms m = int m * 1000000"

text \<open>What the destructor drops while the thread still has its loop.\<close>

definition destroy_EventLoop :: "'cb EventLoop \<Rightarrow> 'cb EventLoop" where
  "destroy_EventLoop l = l\<lparr>el_pendingFunctors := [], el_timers := [], el_timerFlags := []\<rparr>"

section \<open>Wakeup and functors\<close>

text \<open>
  The wakeup descriptor is an eventfd in non-blocking mode: a write adds to its counter and
  fails when the counter would reach its maximum, a read yields the counter and clears it.
\<close>

definition wakeup :: "'cb EventLoop \<Rightarrow> 'cb EventLoop" where
  "wakeup l = (if el_wakeup l = - 2 then l else l\<lparr>el_wakeup := el_wakeup l + 1\<rparr>)"

definition handleRead :: "'cb EventLoop \<Rightarrow> 'cb EventLoop" where
  "handleRead l = l\<lparr>el_wakeup := 0\<rparr>"

definition quit :: "bool \<Rightarrow> 'cb EventLoop \<Rightarrow> 'cb EventLoop" where
  "quit inLoop l = (let l = l\<lparr>el_quit := True\<rparr> in if inLoop then l else wakeup l)"

definition queueInLoop :: "bool \<Rightarrow> 'cb \<Rightarrow> 'cb EventLoop \<Rightarrow> 'cb EventLoop" where
  "queueInLoop inLoop cb l =
     (let l = l\<lparr>el_pendingFunctors := el_pendingFunctors l @ [cb]\<rparr> in if inLoop then l else wakeup l)"

type_synonym ('cb, 's) exec = "'cb \<Rightarrow> 'cb EventLoop \<times> 's \<Rightarrow> 'cb EventLoop \<times> 's"

definition runInLoop :: "('cb, 's) exec \<Rightarrow> bool \<Rightarrow> 'cb \<Rightarrow> 'cb EventLoop \<times> 's \<Rightarrow> 'cb EventLoop \<times> 's" where
  "runInLoop exec inLoop cb ls =
     (if inLoop then exec cb ls else (queueInLoop inLoop cb (fst ls), snd ls))"

definition doPendingFunctors :: "('cb, 's) exec \<Rightarrow> 'cb EventLoop \<times> 's \<Rightarrow> 'cb EventLoop \<times> 's" where
  "doPendingFunctors exec ls =
     (let functors = el_pendingFunctors (fst ls)
      in fold exec functors ((fst ls)\<lparr>el_pendingFunctors := []\<rparr>, snd ls))"

section \<open>Timers\<close>

fun push_timer :: "'cb TimerTask \<Rightarrow> 'cb TimerTask list \<Rightarrow> 'cb TimerTask list" where
  "push_timer t [] = [t]"
| "push_timer t (u # us) = (if tt_nextRun t < tt_nextRun u then t # u # us else u # push_timer t us)"

text \<open>\<^verbatim>\<open>duration_cast<milliseconds>(duration<double>(seconds))\<close> for non-negative seconds\<close>

definition to_ms :: "real \<Rightarrow> nat" where
  "to_ms seconds = nat \<lfloor>seconds * 1000\<rfloor>"

definition addTimer :: "bool \<Rightarrow> int \<Rightarrow> nat \<Rightarrow> 'cb \<Rightarrow> 'cb EventLoop \<Rightarrow> u64 \<times> 'cb EventLoop" where
  "addTimer inLoop nextRun interval cb l =
     (let cancelled = length (el_flags l);
          i = el_nextTimerId l;
          task = \<lparr>tt_id = i, tt_nextRun = nextRun, tt_interval = interval, tt_callback = cb,
                  tt_cancelled = cancelled\<rparr>;
          l = l\<lparr>el_flags := el_flags l @ [False], el_nextTimerId := i + 1,
                el_timerFlags := AList.update i cancelled (el_timerFlags l),
                el_timers := push_timer task (el_timers l)\<rparr>
      in (i, if inLoop then l else wakeup l))"

definition runEvery :: "bool \<Rightarrow> real \<Rightarrow> 'cb \<Rightarrow> int \<Rightarrow> 'cb EventLoop \<Rightarrow> u64 \<times> 'cb EventLoop" where
  "runEvery inLoop intervalSeconds cb now l =
     (let intervalSeconds = (if intervalSeconds \<le> 0 then 0.001 else intervalSeconds)
      in addTimer inLoop (now + ns_of_ms (to_ms intervalSeconds)) (to_ms intervalSeconds) cb l)"

definition runAfter :: "bool \<Rightarrow> real \<Rightarrow> 'cb \<Rightarrow> int \<Rightarrow> 'cb EventLoop \<Rightarrow> u64 \<times> 'cb EventLoop" where
  "runAfter inLoop delaySeconds cb now l =
     (let delaySeconds = (if delaySeconds < 0 then 0 else delaySeconds)
      in addTimer inLoop (now + ns_of_ms (to_ms delaySeconds)) 0 cb l)"

definition cancelTimer :: "u64 \<Rightarrow> 'cb EventLoop \<Rightarrow> 'cb EventLoop" where
  "cancelTimer taskId l =
     (case map_of (el_timerFlags l) taskId of
        None \<Rightarrow> l
      | Some cancelled \<Rightarrow> l\<lparr>el_flags := (el_flags l)[cancelled := True]\<rparr>)"

definition getNextTimerTimeoutMs :: "int \<Rightarrow> 'cb EventLoop \<Rightarrow> int" where
  "getNextTimerTimeoutMs now l =
     (case el_timers l of [] \<Rightarrow> kEpollWaitTimeoutMs
      | t # ts \<Rightarrow>
        if tt_nextRun t \<le> now then 0
        else let diff = (tt_nextRun t - now) div 1000000
             in if diff > kEpollWaitTimeoutMs then kEpollWaitTimeoutMs else diff)"

text \<open>The first loop of \<^verbatim>\<open>processTimers\<close>, under the lock.\<close>

fun collect :: "bool list \<Rightarrow> int \<Rightarrow> 'cb TimerTask list \<Rightarrow> (u64 \<times> nat) list
    \<Rightarrow> 'cb TimerTask list \<times> 'cb TimerTask list \<times> (u64 \<times> nat) list" where
  "collect cancelled now [] flags = ([], [], flags)"
| "collect cancelled now (t # ts) flags =
     (if tt_nextRun t \<le> now then
        if cancelled ! tt_cancelled t then collect cancelled now ts (AList.delete (tt_id t) flags)
        else (case collect cancelled now ts
                (if tt_interval t = 0 then AList.delete (tt_id t) flags else flags) of
                (ex, r) \<Rightarrow> (t # ex, r))
      else ([], t # ts, flags))"

text \<open>The second loop: run the callback, then queue a periodic task again.\<close>

definition run_task :: "('cb, 's) exec \<Rightarrow> 'cb TimerTask \<Rightarrow> 'cb EventLoop \<times> 's \<Rightarrow> 'cb EventLoop \<times> 's" where
  "run_task exec t ls =
     (let (l, s) = exec (tt_callback t) ls
      in if tt_interval t > 0
         then (l\<lparr>el_timers := push_timer (t\<lparr>tt_nextRun := tt_nextRun t + ns_of_ms (tt_interval t)\<rparr>)
                 (el_timers l)\<rparr>, s)
         else (l, s))"

definition processTimers :: "('cb, 's) exec \<Rightarrow> int \<Rightarrow> 'cb EventLoop \<times> 's \<Rightarrow> 'cb EventLoop \<times> 's" where
  "processTimers exec now ls =
     (let l = fst ls;
          (expiredTasks, timers, flags) = collect (el_flags l) now (el_timers l) (el_timerFlags l)
      in fold (run_task exec) expiredTasks (l\<lparr>el_timers := timers, el_timerFlags := flags\<rparr>, snd ls))"

section \<open>Rounds of the loop\<close>

text \<open>What \<^verbatim>\<open>epoll_wait\<close> answers: the ready channels with their events, or an error.\<close>

datatype epoll_answer = Ready "(nat \<times> u32) list" | EpollError int

type_synonym ('cb, 's) dispatch = "nat \<Rightarrow> u32 \<Rightarrow> 'cb EventLoop \<times> 's \<Rightarrow> 'cb EventLoop \<times> 's"

text \<open>The timeout given to \<^verbatim>\<open>epoll_wait\<close>.\<close>

definition wait_timeout :: "int \<Rightarrow> int \<Rightarrow> 'cb EventLoop \<Rightarrow> int" where
  "wait_timeout maxWaitMs now l =
     (let timeoutMs = getNextTimerTimeoutMs now l
      in if maxWaitMs \<ge> 0 \<and> maxWaitMs < timeoutMs then maxWaitMs else timeoutMs)"

definition loopOnce ::
    "('cb, 's) exec \<Rightarrow> ('cb, 's) dispatch \<Rightarrow> epoll_answer \<Rightarrow> int \<Rightarrow> 'cb EventLoop \<times> 's \<Rightarrow> 'cb EventLoop \<times> 's" where
  "loopOnce exec dispatch answer now ls =
     (let ls = (case answer of
          Ready evs \<Rightarrow>
            let (l, s) = fold (\<lambda>(channel, revents). dispatch channel revents) evs ls
            in (if evs \<noteq> [] \<and> length evs = el_events l then l\<lparr>el_events := el_events l * 2\<rparr> else l, s)
        | EpollError e \<Rightarrow> ls)
      in doPendingFunctors exec (processTimers exec now ls))"

fun run_rounds ::
    "('cb, 's) exec \<Rightarrow> ('cb, 's) dispatch \<Rightarrow> (epoll_answer \<times> int) list \<Rightarrow> 'cb EventLoop \<times> 's
      \<Rightarrow> ('cb EventLoop \<times> 's) option" where
  "run_rounds exec dispatch as (l, s) =
     (if el_quit l then Some (l\<lparr>el_looping := False\<rparr>, s)
      else case as of [] \<Rightarrow> None
        | (answer, now) # as \<Rightarrow> run_rounds exec dispatch as (loopOnce exec dispatch answer now (l, s)))"

declare run_rounds.simps [simp del]

text \<open>\<open>None\<close> while the loop has not been told to quit when the answers end.\<close>

definition loop :: "('cb, 's) exec \<Rightarrow> ('cb, 's) dispatch \<Rightarrow> (epoll_answer \<times> int) list
    \<Rightarrow> 'cb EventLoop \<times> 's \<Rightarrow> ('cb EventLoop \<times> 's) option" where
  "loop exec dispatch as ls =
     run_rounds exec dispatch as ((fst ls)\<lparr>el_looping := True, el_quit := False\<rparr>, snd ls)"

section \<open>The timer queue\<close>

definition timers_sorted :: "'cb TimerTask list \<Rightarrow> bool" where
  "timers_sorted ts \<longleftrightarrow> sorted (map tt_nextRun ts)"

definition due :: "bool list \<Rightarrow> int \<Rightarrow> 'cb TimerTask \<Rightarrow> bool" where
  "due cancelled now t \<longleftrightarrow> tt_nextRun t \<le> now \<and> \<not> cancelled ! tt_cancelled t"

lemma mset_push_timer: "mset (push_timer t ts) = add_mset t (mset ts)"
  by (induction ts) auto

lemma set_push_timer [simp]: "set (push_timer t ts) = insert t (set ts)"
  by (induction ts) auto

lemma timers_sorted_Cons [simp]:
  "timers_sorted (t # ts) \<longleftrightarrow> (\<forall>u\<in>set ts. tt_nextRun t \<le> tt_nextRun u) \<and> timers_sorted ts"
  by (simp add: timers_sorted_def)

lemma timers_sorted_Nil [simp]: "timers_sorted []"
  by (simp add: timers_sorted_def)

lemma push_timer_sorted: "timers_sorted ts \<Longrightarrow> timers_sorted (push_timer t ts)"
  by (induction ts) (auto simp: not_less intro: order_trans less_imp_le)

lemma none_due:
  assumes "timers_sorted (t # ts)" and "now < tt_nextRun t"
  shows "filter (due c now) (t # ts) = []" and "filter (\<lambda>t. now < tt_nextRun t) (t # ts) = t # ts"
proof -
  have "\<forall>u\<in>set (t # ts). now < tt_nextRun u"
    using assms by fastforce
  then show "filter (due c now) (t # ts) = []" "filter (\<lambda>t. now < tt_nextRun t) (t # ts) = t # ts"
    by (auto simp: due_def filter_empty_conv intro!: filter_True simp del: filter.simps)
qed

lemma collect_expired:
  "timers_sorted ts \<Longrightarrow> fst (collect c now ts flags) = filter (due c now) ts"
proof (induction ts arbitrary: flags)
  case (Cons t ts)
  show ?case
  proof (cases "tt_nextRun t \<le> now")
    case True
    with Cons show ?thesis by (simp add: due_def case_prod_beta)
  next
    case False
    with none_due(1) [OF Cons.prems, of now c] show ?thesis by simp
  qed
qed simp

lemma collect_rest:
  "timers_sorted ts \<Longrightarrow> fst (snd (collect c now ts flags)) = filter (\<lambda>t. now < tt_nextRun t) ts"
proof (induction ts arbitrary: flags)
  case (Cons t ts)
  show ?case
  proof (cases "tt_nextRun t \<le> now")
    case True
    with Cons show ?thesis by (simp add: case_prod_beta)
  next
    case False
    with none_due(2) [OF Cons.prems, of now] show ?thesis by simp
  qed
qed simp

text \<open>\<^verbatim>\<open>timerFlags_\<close> loses the entries of the cancelled and of the one-shot tasks that were due.\<close>

lemma collect_flags:
  "timers_sorted ts \<Longrightarrow>
   set (snd (snd (collect c now ts flags))) = {(i, a) \<in> set flags. \<forall>t\<in>set ts.
      tt_nextRun t \<le> now \<and> (c ! tt_cancelled t \<or> tt_interval t = 0) \<longrightarrow> tt_id t \<noteq> i}"
proof (induction ts arbitrary: flags)
  case (Cons t ts)
  show ?case
  proof (cases "tt_nextRun t \<le> now")
    case True
    with Cons show ?thesis by (auto simp: case_prod_beta AList.delete_eq)
  next
    case False
    with Cons.prems have "\<forall>u\<in>set (t # ts). now < tt_nextRun u" by fastforce
    with False show ?thesis by fastforce
  qed
qed auto

section \<open>Callbacks as sequences of loop calls\<close>

text \<open>
  As far as the loop can tell, a callback is the sequence of calls it makes on the loop.  The
  rest of the program is the clock the callback reads and the log of the callbacks that ran.
\<close>

datatype callback = Callback nat "call list"
  and call = CallRunAfter real callback | CallRunEvery real callback | CallCancel u64
    | CallQueue callback | CallRun callback | CallQuit

record program =
  pr_clock :: int
  pr_log :: "nat list"

fun exec_callback :: "callback \<Rightarrow> callback EventLoop \<times> program \<Rightarrow> callback EventLoop \<times> program"
  and exec_calls :: "call list \<Rightarrow> callback EventLoop \<times> program \<Rightarrow> callback EventLoop \<times> program"
  and exec_call :: "call \<Rightarrow> callback EventLoop \<times> program \<Rightarrow> callback EventLoop \<times> program" where
  "exec_callback (Callback n cs) (l, p) = exec_calls cs (l, p\<lparr>pr_log := pr_log p @ [n]\<rparr>)"
| "exec_calls [] lp = lp"
| "exec_calls (c # cs) lp = exec_calls cs (exec_call c lp)"
| "exec_call (CallRunAfter d cb) (l, p) = (snd (runAfter True d cb (pr_clock p) l), p)"
| "exec_call (CallRunEvery d cb) (l, p) = (snd (runEvery True d cb (pr_clock p) l), p)"
| "exec_call (CallCancel i) (l, p) = (cancelTimer i l, p)"
| "exec_call (CallQueue cb) (l, p) = (queueInLoop True cb l, p)"
| "exec_call (CallRun cb) (l, p) = exec_callback cb (l, p)"
| "exec_call CallQuit (l, p) = (quit True l, p)"

text \<open>The calls of other threads, which land between two phases of a round.\<close>

fun foreign_call :: "call \<Rightarrow> callback EventLoop \<times> program \<Rightarrow> callback EventLoop \<times> program" where
  "foreign_call (CallRunAfter d cb) (l, p) = (snd (runAfter False d cb (pr_clock p) l), p)"
| "foreign_call (CallRunEvery d cb) (l, p) = (snd (runEvery False d cb (pr_clock p) l), p)"
| "foreign_call (CallCancel i) (l, p) = (cancelTimer i l, p)"
| "foreign_call (CallQueue cb) (l, p) = (queueInLoop False cb l, p)"
| "foreign_call (CallRun cb) (l, p) = (queueInLoop False cb l, p)"
| "foreign_call CallQuit (l, p) = (quit False l, p)"

text \<open>
  One phase of the loop, a call of another thread, or the passing of time.
\<close>

inductive loop_step :: "callback EventLoop \<times> program \<Rightarrow> callback EventLoop \<times> program \<Rightarrow> bool" where
  tick: "pr_clock p \<le> now \<Longrightarrow> loop_step (l, p) (l, p\<lparr>pr_clock := now\<rparr>)"
| event: "loop_step lp (exec_callback cb lp)"
| grow: "loop_step (l, p) (l\<lparr>el_events := n\<rparr>, p)"
| timers: "loop_step (l, p) (processTimers exec_callback (pr_clock p) (l, p))"
| functors: "loop_step lp (doPendingFunctors exec_callback lp)"
| foreign: "loop_step lp (foreign_call c lp)"

section \<open>Invariants of the loop\<close>

text \<open>
  What every callback keeps, the phases of the loop keep too, provided it does not depend on the
  fields the phases change themselves.
\<close>

locale loop_invariant =
  fixes exec :: "('cb, 's) exec" and inv :: "'cb EventLoop \<Rightarrow> bool"
  assumes exec_inv: "inv (fst ls) \<Longrightarrow> inv (fst (exec cb ls))"
    and renew_inv: "inv l \<Longrightarrow> inv (l\<lparr>el_timers := push_timer t (el_timers l)\<rparr>)"
    and collect_inv: "inv l \<Longrightarrow> collect (el_flags l) now (el_timers l) (el_timerFlags l) = (ex, ts, fs)
      \<Longrightarrow> inv (l\<lparr>el_timers := ts, el_timerFlags := fs\<rparr>)"
    and clear_inv: "inv l \<Longrightarrow> inv (l\<lparr>el_pendingFunctors := []\<rparr>)"
begin

lemma fold_inv:
  assumes "\<And>x ls. inv (fst ls) \<Longrightarrow> inv (fst (f x ls))" and "inv (fst ls)"
  shows "inv (fst (fold f xs ls))"
  using assms(2)
proof (induction xs arbitrary: ls)
  case (Cons x xs)
  from Cons.IH [OF assms(1) [OF Cons.prems]] show ?case by simp
qed simp

lemma run_task_inv: "inv (fst ls) \<Longrightarrow> inv (fst (run_task exec t ls))"
  using exec_inv [of ls "tt_callback t"] renew_inv
  by (auto simp: run_task_def split: prod.split)

lemma processTimers_inv: "inv (fst ls) \<Longrightarrow> inv (fst (processTimers exec now ls))"
  by (auto simp: processTimers_def Let_def split: prod.split intro!: fold_inv run_task_inv intro: collect_inv)

lemma doPendingFunctors_inv: "inv (fst ls) \<Longrightarrow> inv (fst (doPendingFunctors exec ls))"
  by (auto simp: doPendingFunctors_def Let_def intro!: fold_inv exec_inv clear_inv)

end

lemmas call_defs = runAfter_def runEvery_def addTimer_def cancelTimer_def queueInLoop_def quit_def
  wakeup_def Let_def

text \<open>The queue stays sorted.\<close>

lemma exec_sorted:
  "timers_sorted (el_timers (fst lp)) \<Longrightarrow> timers_sorted (el_timers (fst (exec_callback cb lp)))"
  "timers_sorted (el_timers (fst lp)) \<Longrightarrow> timers_sorted (el_timers (fst (exec_calls cs lp)))"
  "timers_sorted (el_timers (fst lp)) \<Longrightarrow> timers_sorted (el_timers (fst (exec_call c lp)))"
  by (induction cb lp and cs lp and c lp rule: exec_callback_exec_calls_exec_call.induct)
     (auto simp: call_defs push_timer_sorted split: option.split)

lemma filter_sorted: "timers_sorted ts \<Longrightarrow> timers_sorted (filter P ts)"
  by (induction ts) auto

interpretation queue_sorted: loop_invariant exec_callback "\<lambda>l. timers_sorted (el_timers l)"
proof unfold_locales
  fix l :: "callback EventLoop" and now ex ts fs
  assume "timers_sorted (el_timers l)"
    and "collect (el_flags l) now (el_timers l) (el_timerFlags l) = (ex, ts, fs)"
  then show "timers_sorted (el_timers (l\<lparr>el_timers := ts, el_timerFlags := fs\<rparr>))"
    using collect_rest [of "el_timers l" "el_flags l" now "el_timerFlags l"] by (simp add: filter_sorted)
qed (simp_all add: exec_sorted push_timer_sorted)

text \<open>A cancelled flag stays cancelled.\<close>

definition flag_set :: "nat \<Rightarrow> 'cb EventLoop \<Rightarrow> bool" where
  "flag_set a l \<longleftrightarrow> a < length (el_flags l) \<and> el_flags l ! a"

lemma nth_update_True: "a < length xs \<Longrightarrow> xs ! a \<Longrightarrow> xs[b := True] ! a"
  by (cases "b = a") auto

lemma exec_flag_set:
  "flag_set a (fst lp) \<Longrightarrow> flag_set a (fst (exec_callback cb lp))"
  "flag_set a (fst lp) \<Longrightarrow> flag_set a (fst (exec_calls cs lp))"
  "flag_set a (fst lp) \<Longrightarrow> flag_set a (fst (exec_call c lp))"
  by (induction cb lp and cs lp and c lp rule: exec_callback_exec_calls_exec_call.induct)
     (auto simp: call_defs flag_set_def nth_append nth_update_True split: option.split)

interpretation flag_kept: loop_invariant exec_callback "flag_set a" for a
  by unfold_locales (simp_all add: exec_flag_set, simp_all add: flag_set_def)

lemma foreign_flag_set: "flag_set a (fst lp) \<Longrightarrow> flag_set a (fst (foreign_call c lp))"
  by (induction c lp rule: foreign_call.induct)
     (auto simp: call_defs flag_set_def nth_append nth_update_True split: option.split)

lemma foreign_sorted:
  "timers_sorted (el_timers (fst lp)) \<Longrightarrow> timers_sorted (el_timers (fst (foreign_call c lp)))"
  by (induction c lp rule: foreign_call.induct)
     (auto simp: call_defs push_timer_sorted split: option.split)

lemma loop_step_sorted:
  assumes "loop_step lp lp'" and "timers_sorted (el_timers (fst lp))"
  shows "timers_sorted (el_timers (fst lp'))"
  using assms
  by (induction rule: loop_step.induct)
     (simp_all add: exec_sorted foreign_sorted queue_sorted.processTimers_inv
       queue_sorted.doPendingFunctors_inv)

lemma loop_step_flag_set:
  assumes "loop_step lp lp'" and "flag_set a (fst lp)"
  shows "flag_set a (fst lp')"
  using assms
  by (induction rule: loop_step.induct)
     (simp_all add: exec_flag_set foreign_flag_set flag_kept.processTimers_inv
       flag_kept.doPendingFunctors_inv, simp_all add: flag_set_def)


section \<open>Properties\<close>

text \<open>The tasks a call of \<^verbatim>\<open>processTimers\<close> runs.\<close>

definition expiredTasks :: "int \<Rightarrow> 'cb EventLoop \<Rightarrow> 'cb TimerTask list" where
  "expiredTasks now l = fst (collect (el_flags l) now (el_timers l) (el_timerFlags l))"

lemma loop_steps_sorted:
  "loop_step\<^sup>*\<^sup>* lp lp' \<Longrightarrow> timers_sorted (el_timers (fst lp)) \<Longrightarrow> timers_sorted (el_timers (fst lp'))"
  by (induction rule: rtranclp_induct) (auto intro: loop_step_sorted)

lemma loop_steps_flag_set:
  "loop_step\<^sup>*\<^sup>* lp lp' \<Longrightarrow> flag_set a (fst lp) \<Longrightarrow> flag_set a (fst lp')"
  by (induction rule: rtranclp_induct) (auto intro: loop_step_flag_set)

lemma foreign_reached: "loop_step\<^sup>*\<^sup>* lp (fst (foreign_call c lp), snd (foreign_call c lp))"
  unfolding prod.collapse by (rule r_into_rtranclp) (rule loop_step.foreign)

lemma new_loop_sorted: "timers_sorted (el_timers new_EventLoop)"
  by (simp add: new_EventLoop_def)

text \<open>C25: In every state the loop reaches from its construction, under any callbacks, events and calls
  of other threads, \<^verbatim>\<open>processTimers\<close> runs exactly the tasks that are due and not cancelled, in the
  order of their times, and leaves exactly the tasks that are not due for the callbacks to add to.
\<close>

theorem processTimers_exact:
  assumes "loop_step\<^sup>*\<^sup>* (new_EventLoop, p) (l, q)"
  shows "\<exists>flags. processTimers exec_callback now (l, q)
      = fold (run_task exec_callback) (filter (due (el_flags l) now) (el_timers l))
          (l\<lparr>el_timers := filter (\<lambda>t. now < tt_nextRun t) (el_timers l), el_timerFlags := flags\<rparr>, q)
    \<and> sorted (map tt_nextRun (el_timers l))
    \<and> set flags = {(i, a) \<in> set (el_timerFlags l). \<forall>t\<in>set (el_timers l).
        tt_nextRun t \<le> now \<and> (el_flags l ! tt_cancelled t \<or> tt_interval t = 0) \<longrightarrow> tt_id t \<noteq> i}"
proof -
  have sorted: "timers_sorted (el_timers l)"
    using loop_steps_sorted [OF assms] new_loop_sorted by simp
  obtain ex ts flags where c: "collect (el_flags l) now (el_timers l) (el_timerFlags l) = (ex, ts, flags)"
    by (cases "collect (el_flags l) now (el_timers l) (el_timerFlags l)") blast
  have "processTimers exec_callback now (l, q)
      = fold (run_task exec_callback) ex (l\<lparr>el_timers := ts, el_timerFlags := flags\<rparr>, q)"
    by (simp add: processTimers_def c)
  moreover have "ex = filter (due (el_flags l) now) (el_timers l)"
    and "ts = filter (\<lambda>t. now < tt_nextRun t) (el_timers l)"
    using collect_expired [OF sorted, of "el_flags l" now "el_timerFlags l"]
      collect_rest [OF sorted, of "el_flags l" now "el_timerFlags l"] c by simp_all
  ultimately show ?thesis
    using collect_flags [OF sorted, of "el_flags l" now "el_timerFlags l"] c sorted
    by (intro exI [of _ flags]) (simp add: timers_sorted_def)
qed

theorem processTimers_exact_witness:
  "\<exists>l q. loop_step\<^sup>*\<^sup>* (new_EventLoop, \<lparr>pr_clock = 0, pr_log = []\<rparr>) (l, q)
    \<and> map tt_nextRun (el_timers l) = [2000000]
    \<and> (\<exists>flags. processTimers exec_callback 2000000 (l, q)
      = fold (run_task exec_callback) (filter (due (el_flags l) 2000000) (el_timers l))
          (l\<lparr>el_timers := filter (\<lambda>t. 2000000 < tt_nextRun t) (el_timers l), el_timerFlags := flags\<rparr>, q))"
proof -
  define p where "p = \<lparr>pr_clock = 0, pr_log = []\<rparr>"
  define lq where "lq = foreign_call (CallRunEvery 0.002 (Callback 1 [])) (new_EventLoop, p)"
  have "loop_step\<^sup>*\<^sup>* (new_EventLoop, p) (fst lq, snd lq)"
    unfolding lq_def by (rule foreign_reached)
  moreover have "map tt_nextRun (el_timers (fst lq)) = [2000000]"
    by (simp add: lq_def p_def call_defs new_EventLoop_def to_ms_def ns_of_ms_def)
  moreover from calculation(1) obtain flags where "processTimers exec_callback 2000000 (fst lq, snd lq)
      = fold (run_task exec_callback) (filter (due (el_flags (fst lq)) 2000000) (el_timers (fst lq)))
          ((fst lq)\<lparr>el_timers := filter (\<lambda>t. 2000000 < tt_nextRun t) (el_timers (fst lq)),
            el_timerFlags := flags\<rparr>, snd lq)"
    using processTimers_exact [of p "fst lq" "snd lq" 2000000] by blast
  ultimately show ?thesis
    unfolding p_def [symmetric] by (intro exI [of _ "fst lq"] exI [of _ "snd lq"] exI [of _ flags] conjI)
qed




text \<open>The timeout given to \<^verbatim>\<open>epoll_wait\<close> lies between 0 and ten seconds, and waiting that long
  never passes the time of the earliest timer; with a timer already due the loop does not wait.
\<close>

theorem wait_timeout_bounds:
  assumes "0 \<le> maxWaitMs"
  shows "0 \<le> wait_timeout maxWaitMs now l \<and> wait_timeout maxWaitMs now l \<le> min maxWaitMs kEpollWaitTimeoutMs
    \<and> (el_timers l \<noteq> [] \<longrightarrow>
        now + wait_timeout maxWaitMs now l * 1000000 \<le> max now (tt_nextRun (hd (el_timers l))))"
proof (cases "el_timers l")
  case Nil
  with assms show ?thesis by (simp add: wait_timeout_def getNextTimerTimeoutMs_def kEpollWaitTimeoutMs_def)
next
  case (Cons t ts)
  have "(tt_nextRun t - now) div 1000000 * 1000000 \<le> tt_nextRun t - now"
    using minus_mod_eq_div_mult [symmetric, of "tt_nextRun t - now" 1000000] by simp
  with Cons assms show ?thesis
    by (auto simp: wait_timeout_def getNextTimerTimeoutMs_def kEpollWaitTimeoutMs_def Let_def
      pos_imp_zdiv_nonneg_iff)
qed

theorem wait_timeout_bounds_witness:
  "0 \<le> wait_timeout 10000 5 (new_EventLoop :: callback EventLoop)"
  using wait_timeout_bounds [of 10000 5 "new_EventLoop :: callback EventLoop"] by simp

text \<open>\<^verbatim>\<open>doPendingFunctors\<close> runs exactly the functors queued before it, in their order, each once;
  what they queue in turn waits, in order, for the next round.
\<close>

theorem functors_fifo:
  assumes "\<And>cb l s. exec cb (l, s) = (fold (queueInLoop True) (spawn cb) l, s @ [cb])"
  shows "doPendingFunctors exec (l, s)
    = (l\<lparr>el_pendingFunctors := concat (map spawn (el_pendingFunctors l))\<rparr>, s @ el_pendingFunctors l)"
proof -
  have queue: "fold (queueInLoop True) cbs l = l\<lparr>el_pendingFunctors := el_pendingFunctors l @ cbs\<rparr>"
    for cbs and l :: "'a EventLoop"
    by (induction cbs arbitrary: l) (simp_all add: queueInLoop_def)
  have "fold exec fs (l, s)
      = (l\<lparr>el_pendingFunctors := el_pendingFunctors l @ concat (map spawn fs)\<rparr>, s @ fs)" for fs l s
    by (induction fs arbitrary: l s) (simp_all add: assms queue)
  then show ?thesis by (simp add: doPendingFunctors_def Let_def)
qed

theorem functors_fifo_witness:
  "doPendingFunctors (\<lambda>cb (l, s). (fold (queueInLoop True) (replicate cb 0) l, s @ [cb]))
     (new_EventLoop\<lparr>el_pendingFunctors := [2, 1 :: nat]\<rparr>, [])
   = (new_EventLoop\<lparr>el_pendingFunctors := [0, 0, 0]\<rparr>, [2, 1])"
  using functors_fifo [of "\<lambda>cb (l, s). (fold (queueInLoop True) (replicate cb 0) l, s @ [cb])"
    "\<lambda>cb. replicate cb 0" "new_EventLoop\<lparr>el_pendingFunctors := [2, 1 :: nat]\<rparr>" "[]"]
  by (simp add: numeral_2_eq_2)

text \<open>A timer cancelled by an earlier callback of the same batch runs all the same.\<close>

lemma same_batch_cancel_runs:
  "pr_log (snd (processTimers exec_callback 5000000
     (snd (runAfter True 0.002 (Callback 2 []) 0
        (snd (runAfter True 0.001 (Callback 1 [CallCancel 2]) 0 new_EventLoop))),
      \<lparr>pr_clock = 5000000, pr_log = []\<rparr>))) = [1, 2]"
  by (simp add: processTimers_def run_task_def call_defs new_EventLoop_def to_ms_def ns_of_ms_def)

text \<open>A positive interval below one millisecond makes a one-shot task of a periodic one.\<close>

lemma short_interval_runs_once:
  "el_timers (fst (processTimers exec_callback 0
     (snd (runEvery True 0.0005 (Callback 1 []) 0 new_EventLoop), \<lparr>pr_clock = 0, pr_log = []\<rparr>))) = []"
  by (simp add: processTimers_def run_task_def call_defs new_EventLoop_def to_ms_def ns_of_ms_def)

text \<open>A \<^verbatim>\<open>quit\<close> that comes before \<^verbatim>\<open>loop\<close> is lost: the loop does not return.\<close>

lemma early_quit_is_lost:
  "loop exec_callback (\<lambda>_ _ lp. lp) (replicate n (Ready [], 0)) (quit False new_EventLoop, p) = None"
proof -
  have "run_rounds exec_callback (\<lambda>_ _ lp. lp) (replicate n (Ready [], 0)) (l, p) = None"
    if "\<not> el_quit l" "el_timers l = []" "el_pendingFunctors l = []" for l p
    using that
    by (induction n arbitrary: l p)
       (simp_all add: run_rounds.simps loopOnce_def processTimers_def doPendingFunctors_def)
  then show ?thesis by (simp add: loop_def quit_def wakeup_def new_EventLoop_def)
qed

end
