(* ===== verification/LoopThread.thy ===== *)
theory LoopThread
  imports Rpc_Prelude
begin

text \<open>
  The thread around an event loop, \<^verbatim>\<open>src/src/network/event_loop_thread.cc\<close>: \<^verbatim>\<open>startLoop\<close> and \<^verbatim>\<open>stop\<close> in
  the owner's thread interleave with \<^verbatim>\<open>threadFunc\<close> in the new one.  The functions below are the
  stretches of code between two points at which the other thread may be observed; the step
  relation \<open>thread_step\<close> interleaves them.  \<open>lt_quit\<close> is the flag of the event loop that \<^verbatim>\<open>quit\<close> sets
  and \<^verbatim>\<open>loop\<close> clears when it begins.
\<close>

section \<open>State and operations\<close>

text \<open>Where the new thread is, and where the owner is.\<close>

datatype thread_pc = NotStarted | Constructing | AboutToLoop | Looping | LoopReturned | Finished
datatype owner_pc = Created | Waiting | Started | Joining | Stopped

record EventLoopThread =
  lt_thread :: thread_pc
  lt_owner :: owner_pc
  lt_loop :: bool
  lt_exiting :: bool
  lt_joinable :: bool
  lt_quit :: bool

definition new_EventLoopThread :: EventLoopThread where
  "new_EventLoopThread = \<lparr>lt_thread = NotStarted, lt_owner = Created, lt_loop = False, lt_exiting = False,
     lt_joinable = False, lt_quit = False\<rparr>"

text \<open>\<^verbatim>\<open>startLoop\<close>: creating the thread, and the end of the wait for the loop.\<close>

definition startLoop :: "EventLoopThread \<Rightarrow> EventLoopThread" where
  "startLoop t = t\<lparr>lt_thread := Constructing, lt_joinable := True, lt_owner := Waiting\<rparr>"

definition startLoop_wait :: "EventLoopThread \<Rightarrow> EventLoopThread option" where
  "startLoop_wait t = (if lt_loop t then Some (t\<lparr>lt_owner := Started\<rparr>) else None)"

text \<open>\<^verbatim>\<open>threadFunc\<close>: publishing the loop, entering it, leaving it, and the end of the thread.\<close>

definition publish_loop :: "EventLoopThread \<Rightarrow> EventLoopThread" where
  "publish_loop t = t\<lparr>lt_loop := True, lt_thread := AboutToLoop\<rparr>"

definition enter_loop :: "EventLoopThread \<Rightarrow> EventLoopThread" where
  "enter_loop t = t\<lparr>lt_quit := False, lt_thread := Looping\<rparr>"

definition leave_loop :: "EventLoopThread \<Rightarrow> EventLoopThread option" where
  "leave_loop t = (if lt_quit t then Some (t\<lparr>lt_thread := LoopReturned\<rparr>) else None)"

definition end_thread :: "EventLoopThread \<Rightarrow> EventLoopThread" where
  "end_thread t = t\<lparr>lt_loop := False, lt_thread := Finished\<rparr>"

text \<open>
  \<^verbatim>\<open>stop\<close> in another thread, up to the join and from there; in the loop's own thread it detaches.
\<close>

definition request_quit :: "EventLoopThread \<Rightarrow> EventLoopThread" where
  "request_quit t = t\<lparr>lt_exiting := True, lt_quit := lt_quit t \<or> lt_loop t\<rparr>"

definition stop_begin :: "EventLoopThread \<Rightarrow> EventLoopThread" where
  "stop_begin t = (request_quit t)\<lparr>lt_owner := Joining\<rparr>"

definition stop_join :: "EventLoopThread \<Rightarrow> EventLoopThread option" where
  "stop_join t =
     (if lt_joinable t \<and> lt_thread t \<noteq> Finished then None
      else Some (t\<lparr>lt_joinable := False, lt_loop := False, lt_owner := Stopped\<rparr>))"

definition stop_in_loop :: "EventLoopThread \<Rightarrow> EventLoopThread" where
  "stop_in_loop t = (request_quit t)\<lparr>lt_joinable := False, lt_loop := False, lt_owner := Stopped\<rparr>"

text \<open>The destructor, in the owner's thread: what it still has to do before the members go.\<close>

definition destroy_begin :: "EventLoopThread \<Rightarrow> EventLoopThread" where
  "destroy_begin t = (if lt_exiting t then t\<lparr>lt_owner := Joining\<rparr> else stop_begin t)"

section \<open>Interleavings\<close>

inductive thread_step :: "EventLoopThread \<Rightarrow> EventLoopThread \<Rightarrow> bool" where
  Start: "lt_owner t = Created \<Longrightarrow> thread_step t (startLoop t)"
| Wake: "lt_owner t = Waiting \<Longrightarrow> startLoop_wait t = Some t' \<Longrightarrow> thread_step t t'"
| Publish: "lt_thread t = Constructing \<Longrightarrow> thread_step t (publish_loop t)"
| Enter: "lt_thread t = AboutToLoop \<Longrightarrow> thread_step t (enter_loop t)"
| Leave: "lt_thread t = Looping \<Longrightarrow> leave_loop t = Some t' \<Longrightarrow> thread_step t t'"
| End: "lt_thread t = LoopReturned \<Longrightarrow> thread_step t (end_thread t)"
| Stop: "lt_owner t = Started \<Longrightarrow> thread_step t (stop_begin t)"
| Join: "lt_owner t = Joining \<Longrightarrow> stop_join t = Some t' \<Longrightarrow> thread_step t t'"

inductive thread_reach :: "EventLoopThread \<Rightarrow> bool" where
  Init: "thread_reach new_EventLoopThread"
| Step: "thread_reach t \<Longrightarrow> thread_step t t' \<Longrightarrow> thread_reach t'"

inductive_cases thread_stepE [elim]: "thread_step t t'"

lemmas thread_defs = startLoop_def startLoop_wait_def publish_loop_def enter_loop_def leave_loop_def end_thread_def
  request_quit_def stop_begin_def stop_join_def

definition thread_inv :: "EventLoopThread \<Rightarrow> bool" where
  "thread_inv t \<longleftrightarrow>
     (lt_owner t = Created \<longrightarrow> lt_thread t = NotStarted \<and> \<not> lt_joinable t)
   \<and> (lt_owner t \<in> {Waiting, Started, Joining} \<longrightarrow> lt_thread t \<noteq> NotStarted \<and> lt_joinable t)
   \<and> (lt_owner t = Started \<longrightarrow> lt_thread t \<in> {AboutToLoop, Looping} \<and> lt_loop t)
   \<and> (lt_owner t = Joining \<longrightarrow> lt_thread t \<in> {AboutToLoop, Looping, LoopReturned, Finished} \<and> lt_exiting t)
   \<and> (lt_owner t = Stopped \<longrightarrow> lt_thread t = Finished \<and> \<not> lt_joinable t \<and> \<not> lt_loop t)
   \<and> (lt_owner t \<in> {Created, Waiting, Started} \<longrightarrow> \<not> lt_quit t \<and> lt_thread t \<notin> {LoopReturned, Finished})
   \<and> (lt_loop t \<longrightarrow> lt_thread t \<in> {AboutToLoop, Looping, LoopReturned})
   \<and> (lt_thread t \<in> {AboutToLoop, Looping, LoopReturned} \<longrightarrow> lt_loop t)"

lemma thread_step_inv: "thread_step t t' \<Longrightarrow> thread_inv t \<Longrightarrow> thread_inv t'"
  by (induction rule: thread_step.induct) (auto simp: thread_inv_def thread_defs split: if_splits)

lemma thread_reach_inv: "thread_reach t \<Longrightarrow> thread_inv t"
proof (induction rule: thread_reach.induct)
  case Init
  show ?case by (simp add: thread_inv_def new_EventLoopThread_def)
qed (rule thread_step_inv)

section \<open>Properties\<close>

text \<open>The steps left once \<^verbatim>\<open>stop\<close> has reached a loop that had begun.\<close>

fun steps_left :: "EventLoopThread \<Rightarrow> nat" where
  "steps_left t = (if lt_owner t = Stopped then 0
     else case lt_thread t of Looping \<Rightarrow> 3 | LoopReturned \<Rightarrow> 2 | _ \<Rightarrow> 1)"

definition stopping :: "EventLoopThread \<Rightarrow> bool" where
  "stopping t \<longleftrightarrow> lt_owner t = Joining \<and> lt_joinable t \<and> (lt_thread t = Looping \<and> lt_quit t \<or> lt_thread t \<in> {LoopReturned, Finished})
     \<or> lt_owner t = Stopped \<and> lt_thread t = Finished"

lemma stopping_step:
  "thread_step t t' \<Longrightarrow> stopping t \<Longrightarrow> stopping t' \<and> steps_left t = Suc (steps_left t')"
  by (induction rule: thread_step.induct) (auto simp: stopping_def thread_defs split: if_splits)

lemma stopping_progress:
  assumes "stopping t" and "lt_owner t \<noteq> Stopped"
  shows "\<exists>t'. thread_step t t'"
proof -
  consider "lt_thread t = Looping" "lt_quit t" | "lt_thread t = LoopReturned" | "lt_owner t = Joining" "lt_thread t = Finished"
    using assms by (auto simp: stopping_def)
  then show ?thesis
  proof cases
    case 1
    then show ?thesis using thread_step.Leave [of t] by (auto simp: leave_loop_def)
  next
    case 2
    then show ?thesis using thread_step.End by blast
  next
    case 3
    then show ?thesis using thread_step.Join [of t] by (auto simp: stop_join_def)
  qed
qed

lemma stopping_steps:
  "(thread_step ^^ n) t t' \<Longrightarrow> stopping t \<Longrightarrow> stopping t' \<and> steps_left t = n + steps_left t'"
proof (induction n arbitrary: t')
  case (Suc n)
  then obtain u where "(thread_step ^^ n) t u" "thread_step u t'" by auto
  with Suc.IH [of u] Suc.prems stopping_step [of u t'] show ?case by simp
qed simp

text \<open>C29: \<^verbatim>\<open>startLoop\<close> returns only a loop that exists and that its thread has not left; \<^verbatim>\<open>stop\<close> on a loop
  that has begun returns: whatever the scheduling, within three steps of the two threads, which
  never block before it does, and then the thread has ended and the pointer is null.
\<close>

theorem loop_thread_lifecycle:
  assumes "thread_reach t" and "lt_owner t = Started"
  shows "lt_loop t \<and> lt_thread t \<in> {AboutToLoop, Looping}
    \<and> (lt_thread t = Looping \<longrightarrow> (\<forall>n t'. (thread_step ^^ n) (stop_begin t) t' \<longrightarrow> n \<le> 3
        \<and> (if lt_owner t' = Stopped then lt_thread t' = Finished \<and> \<not> lt_loop t' else \<exists>t''. thread_step t' t'')))"
proof -
  have inv: "thread_inv t" by (rule thread_reach_inv [OF assms(1)])
  have later: "n \<le> 3 \<and> (if lt_owner t' = Stopped then lt_thread t' = Finished \<and> \<not> lt_loop t' else \<exists>t''. thread_step t' t'')"
    if run: "(thread_step ^^ n) (stop_begin t) t'" and "lt_thread t = Looping" for n t'
  proof -
    have "stopping (stop_begin t)" using that(2) inv assms(2) by (simp add: stopping_def thread_defs thread_inv_def)
    with stopping_steps [OF run] have t': "stopping t'" "steps_left (stop_begin t) = n + steps_left t'" by simp_all
    have "thread_reach t'"
    proof -
      have "thread_reach (stop_begin t)" by (rule thread_reach.Step [OF assms(1) thread_step.Stop [OF assms(2)]])
      with run show ?thesis by (induction n arbitrary: t') (auto intro: thread_reach.Step)
    qed
    then have "thread_inv t'" by (rule thread_reach_inv)
    moreover have "n \<le> 3" using t'(2) that(2) by (simp add: thread_defs)
    ultimately show ?thesis using stopping_progress [OF t'(1)] by (auto simp: thread_inv_def)
  qed
  show ?thesis using inv assms(2) later by (auto simp: thread_inv_def)
qed

definition looping_thread :: EventLoopThread where
  "looping_thread = enter_loop (publish_loop (startLoop new_EventLoopThread))\<lparr>lt_owner := Started\<rparr>"

lemma looping_thread_reach: "thread_reach looping_thread"
proof -
  let ?a = "startLoop new_EventLoopThread"
  have "thread_reach ?a"
    by (rule thread_reach.Step [OF thread_reach.Init thread_step.Start]) (simp add: new_EventLoopThread_def)
  then have b: "thread_reach (publish_loop ?a)" by (rule thread_reach.Step [OF _ thread_step.Publish]) (simp add: startLoop_def)
  then have "thread_reach (enter_loop (publish_loop ?a))"
    by (rule thread_reach.Step [OF _ thread_step.Enter]) (simp add: publish_loop_def)
  then show ?thesis
    by (rule thread_reach.Step [OF _ thread_step.Wake]) (simp_all add: looping_thread_def thread_defs)
qed

theorem loop_thread_lifecycle_witness:
  "lt_loop looping_thread \<and> lt_thread looping_thread = Looping \<and> (\<exists>t''. thread_step (stop_begin looping_thread) t'')"
proof -
  have s: "lt_owner looping_thread = Started" "lt_thread looping_thread = Looping" "lt_owner (stop_begin looping_thread) \<noteq> Stopped"
    by (simp_all add: looping_thread_def thread_defs)
  have "(thread_step ^^ 0) (stop_begin looping_thread) (stop_begin looping_thread)" by simp
  with loop_thread_lifecycle [OF looping_thread_reach s(1)] s show ?thesis by metis
qed

section \<open>Where the thread differs from its comments\<close>

text \<open>
  \<^verbatim>\<open>stop\<close> between the publication of the loop and its beginning hangs: \<^verbatim>\<open>loop\<close> clears the flag, and the
  two threads wait for ever.
\<close>

lemma early_stop_hangs:
  "\<exists>t. thread_reach t \<and> lt_owner t = Joining \<and> (\<forall>t'. \<not> thread_step t t')"
proof -
  let ?a = "startLoop new_EventLoopThread"
  let ?b = "publish_loop ?a"
  let ?c = "?b\<lparr>lt_owner := Started\<rparr>"
  let ?e = "enter_loop (stop_begin ?c)"
  have "thread_reach ?a"
    by (rule thread_reach.Step [OF thread_reach.Init thread_step.Start]) (simp add: new_EventLoopThread_def)
  then have "thread_reach ?b" by (rule thread_reach.Step [OF _ thread_step.Publish]) (simp add: startLoop_def)
  then have "thread_reach ?c"
    by (rule thread_reach.Step [OF _ thread_step.Wake]) (simp_all add: thread_defs)
  then have "thread_reach (stop_begin ?c)" by (rule thread_reach.Step [OF _ thread_step.Stop]) simp
  then have "thread_reach ?e" by (rule thread_reach.Step [OF _ thread_step.Enter]) (simp add: thread_defs)
  moreover have "lt_owner ?e = Joining" by (simp add: thread_defs)
  moreover have "\<not> thread_step ?e t'" for t' by (auto simp: thread_defs)
  ultimately show ?thesis by blast
qed

text \<open>
  After \<^verbatim>\<open>stop\<close> in the loop's own thread the destructor does not wait: it is done while the thread,
  which is about to write \<^verbatim>\<open>loop_\<close>, is still in its loop.
\<close>

lemma self_stop_outlives:
  "lt_thread t = Looping \<Longrightarrow>
    \<exists>d. stop_join (destroy_begin (stop_in_loop t)) = Some d \<and> lt_owner d = Stopped \<and> lt_thread d = Looping"
  by (simp add: stop_join_def destroy_begin_def stop_in_loop_def request_quit_def)

end
