(* ===== verification/Connector.thy ===== *)
theory Connector
  imports Channel TcpConnection "HOL-Library.Multiset"
begin

text \<open>
  The connector of a client, \<^verbatim>\<open>src/src/network/connector.cc\<close>: a non-blocking connect with
  retries after growing, randomised delays.  The kernel's answers, a new descriptor or an errno,
  are arguments, and so is the random generator.  \<open>ct_effects\<close> lists what the connector did:
  the sockets it created, closed and handed on, and what it left with the loop.  \<open>None\<close> is a
  failed assertion.
\<close>

section \<open>State\<close>

datatype connector_state = CDisconnected | CConnecting | CConnected

datatype connector_effect =
    Created int | Closed int | NewConnection int
  | RetryTimer int | QueueStart | QueueStop

record Connector =
  ct_state :: connector_state
  ct_connect :: bool
  ct_channel :: "Channel option"
  ct_epoll :: epoll_set
  ct_retryDelayMs :: int
  ct_effects :: "connector_effect list"

definition kMaxRetryDelayMs :: int where "kMaxRetryDelayMs = 30000"
definition kInitRetryDelayMs :: int where "kInitRetryDelayMs = 500"

definition new_Connector :: "epoll_set \<Rightarrow> Connector" where
  "new_Connector ep = \<lparr>ct_state = CDisconnected, ct_connect = False, ct_channel = None, ct_epoll = ep,
     ct_retryDelayMs = kInitRetryDelayMs, ct_effects = []\<rparr>"

definition ct_emit :: "connector_effect \<Rightarrow> Connector \<Rightarrow> Connector" where
  "ct_emit e c = c\<lparr>ct_effects := ct_effects c @ [e]\<rparr>"

definition isConnecting :: "Connector \<Rightarrow> bool" where
  "isConnecting c \<longleftrightarrow> ct_state c = CConnecting"

text \<open>\<open>pick low high\<close> is what the uniform distribution over that range draws.\<close>

definition jitterInRange :: "(int \<Rightarrow> int \<Rightarrow> int) \<Rightarrow> int \<Rightarrow> int \<Rightarrow> int" where
  "jitterInRange pick low high = (if high \<le> low then low else pick low high)"

section \<open>Operations\<close>

text \<open>Closing the descriptor -1 fails and has no effect.\<close>

definition close_fd :: "int \<Rightarrow> Connector \<Rightarrow> Connector" where
  "close_fd fd c = (if fd < 0 then c else ct_emit (Closed fd) c)"

definition retry :: "(int \<Rightarrow> int \<Rightarrow> int) \<Rightarrow> int \<Rightarrow> Connector \<Rightarrow> Connector" where
  "retry pick sockfd c =
     (let c = (close_fd sockfd c)\<lparr>ct_state := CDisconnected\<rparr>
      in if ct_connect c then
           let delayMs = jitterInRange pick (ct_retryDelayMs c div 2) (ct_retryDelayMs c)
           in (ct_emit (RetryTimer delayMs) c)\<lparr>ct_retryDelayMs := min (ct_retryDelayMs c * 2) kMaxRetryDelayMs\<rparr>
         else c)"

definition connecting :: "nat \<Rightarrow> int \<Rightarrow> Connector \<Rightarrow> Connector option" where
  "connecting i sockfd c =
     (let ch = (new_Channel i sockfd)\<lparr>cn_writeCallback := True, cn_errorCallback := True\<rparr>
      in case enableWriting True ch (ct_epoll c) of
           None \<Rightarrow> None
         | Some (ch, ep) \<Rightarrow> Some (c\<lparr>ct_state := CConnecting, ct_channel := Some ch, ct_epoll := ep\<rparr>))"

text \<open>
  \<open>sockfd\<close> is what \<^verbatim>\<open>socket\<close> returns and \<open>errno\<close> what \<^verbatim>\<open>connect\<close> leaves (0 on success); \<open>i\<close>
  identifies the channel.
\<close>

record kernel =
  k_pick :: "int \<Rightarrow> int \<Rightarrow> int"
  k_channel :: nat
  k_sockfd :: int
  k_errno :: int

definition connect :: "kernel \<Rightarrow> Connector \<Rightarrow> Connector option" where
  "connect k c =
     (let sockfd = k_sockfd k; errno = k_errno k in
      if sockfd < 0 then Some (if ct_connect c then retry (k_pick k) (-1) c else c)
      else let c = ct_emit (Created sockfd) c in
        if errno \<in> {0, EINPROGRESS, EALREADY, EISCONN} then connecting (k_channel k) sockfd c
        else if errno \<in> {EINTR, EAGAIN, EADDRINUSE, EADDRNOTAVAIL, ECONNREFUSED, ENETUNREACH}
          then Some (retry (k_pick k) sockfd c)
        else Some (close_fd sockfd c))"

definition startInLoop :: "bool \<Rightarrow> kernel \<Rightarrow> Connector \<Rightarrow> Connector option" where
  "startInLoop inLoop k c =
     (if \<not> inLoop \<or> ct_state c \<noteq> CDisconnected then None
      else if ct_connect c then connect k c else Some c)"

definition start :: "bool \<Rightarrow> kernel \<Rightarrow> Connector \<Rightarrow> Connector option" where
  "start inLoop k c =
     (let c = c\<lparr>ct_connect := True\<rparr>
      in if inLoop then startInLoop inLoop k c else Some (ct_emit QueueStart c))"

definition restart :: "bool \<Rightarrow> kernel \<Rightarrow> Connector \<Rightarrow> Connector option" where
  "restart inLoop k c =
     (if \<not> inLoop then None
      else startInLoop inLoop k
        (c\<lparr>ct_state := CDisconnected, ct_retryDelayMs := kInitRetryDelayMs, ct_connect := True\<rparr>))"

definition stop :: "Connector \<Rightarrow> Connector" where
  "stop c = ct_emit QueueStop (c\<lparr>ct_connect := False\<rparr>)"

text \<open>
  The channel leaves the epoll set; the object itself is released by a functor queued in the
  loop.  The caller has checked that there is a channel.
\<close>

definition removeAndResetChannel :: "bool \<Rightarrow> Connector \<Rightarrow> (int \<times> Connector) option" where
  "removeAndResetChannel inLoop c =
     (case ct_channel c of
        None \<Rightarrow> None
      | Some ch \<Rightarrow>
          Option.bind (disableAll inLoop ch (ct_epoll c))
            (\<lambda>(ch, ep). map_option (\<lambda>(ch, ep). (cn_fd ch, c\<lparr>ct_channel := None, ct_epoll := ep\<rparr>))
               (removeChannel inLoop ch ep)))"

definition stopInLoop :: "bool \<Rightarrow> Connector \<Rightarrow> Connector option" where
  "stopInLoop inLoop c =
     (if \<not> inLoop then None
      else if ct_state c = CConnecting
      then map_option (\<lambda>(sockfd, c). close_fd sockfd c)
             (removeAndResetChannel inLoop (c\<lparr>ct_state := CDisconnected\<rparr>))
      else Some c)"

definition connector_handleWrite :: "bool \<Rightarrow> kernel \<Rightarrow> so_error \<Rightarrow> Connector \<Rightarrow> Connector option" where
  "connector_handleWrite inLoop k so c =
     (if ct_state c = CConnecting
      then map_option
        (\<lambda>(sockfd, c).
           if getSocketError so \<noteq> 0 then retry (k_pick k) sockfd c
           else let c = c\<lparr>ct_state := CConnected\<rparr>
                in if ct_connect c then ct_emit (NewConnection sockfd) c else close_fd sockfd c)
        (removeAndResetChannel inLoop c)
      else Some c)"

definition connector_handleError :: "bool \<Rightarrow> kernel \<Rightarrow> Connector \<Rightarrow> Connector option" where
  "connector_handleError inLoop k c =
     (if ct_state c = CConnecting
      then map_option (\<lambda>(sockfd, c). retry (k_pick k) sockfd c) (removeAndResetChannel inLoop c)
      else Some c)"

text \<open>The callback of the retry timer.\<close>

definition retry_fired :: "bool \<Rightarrow> kernel \<Rightarrow> Connector \<Rightarrow> Connector option" where
  "retry_fired inLoop k c =
     (if \<not> ct_connect c \<or> ct_state c \<noteq> CDisconnected then Some c else startInLoop inLoop k c)"

definition destroy_Connector :: "bool \<Rightarrow> Connector \<Rightarrow> Connector option" where
  "destroy_Connector inLoop c =
     (if ct_state c = CConnecting \<and> ct_channel c \<noteq> None
      then map_option (\<lambda>(sockfd, c). close_fd sockfd c) (removeAndResetChannel inLoop c)
      else Some c)"

section \<open>What happens to a connector\<close>

datatype connector_op =
    CtStart kernel | CtRestart kernel | CtStop | CtStopInLoop
  | CtWritable kernel so_error | CtError kernel | CtRetryFired kernel | CtQueuedStart kernel
  | CtForeignStart kernel

definition connector_op :: "connector_op \<Rightarrow> Connector \<Rightarrow> Connector option" where
  "connector_op oper = (case oper of
     CtStart k \<Rightarrow> start True k | CtRestart k \<Rightarrow> restart True k | CtStop \<Rightarrow> Some \<circ> stop
   | CtStopInLoop \<Rightarrow> stopInLoop True | CtWritable k so \<Rightarrow> connector_handleWrite True k so
   | CtError k \<Rightarrow> connector_handleError True k | CtRetryFired k \<Rightarrow> retry_fired True k
   | CtQueuedStart k \<Rightarrow> startInLoop True k | CtForeignStart k \<Rightarrow> start False k)"

text \<open>
  An operation that can occur: the kernel hands out no descriptor that the epoll set holds, the
  generator stays in its range, and the callers start and restart only as \<^verbatim>\<open>TcpClient\<close> does,
  while no connect is under way.
\<close>

definition pick_ok :: "(int \<Rightarrow> int \<Rightarrow> int) \<Rightarrow> bool" where
  "pick_ok pick \<longleftrightarrow> (\<forall>low high. low \<le> high \<longrightarrow> low \<le> pick low high \<and> pick low high \<le> high)"

definition connector_op_ok :: "connector_op \<Rightarrow> Connector \<Rightarrow> bool" where
  "connector_op_ok oper c \<longleftrightarrow>
     (let fresh = (\<lambda>k. pick_ok (k_pick k) \<and> map_of (ct_epoll c) (k_sockfd k) = None) in
      case oper of
        CtStart k \<Rightarrow> fresh k \<and> ct_state c = CDisconnected
      | CtQueuedStart k \<Rightarrow> fresh k \<and> ct_state c = CDisconnected
      | CtRestart k \<Rightarrow> fresh k \<and> ct_state c \<noteq> CConnecting
      | CtRetryFired k \<Rightarrow> fresh k
      | CtWritable k so \<Rightarrow> pick_ok (k_pick k)
      | CtError k \<Rightarrow> pick_ok (k_pick k)
      | _ \<Rightarrow> True)"

fun connector_run :: "connector_op list \<Rightarrow> Connector \<Rightarrow> Connector option" where
  "connector_run [] c = Some c"
| "connector_run (oper # opers) c =
     (case connector_op oper c of None \<Rightarrow> None | Some c' \<Rightarrow> connector_run opers c')"

fun connector_ops_ok :: "connector_op list \<Rightarrow> Connector \<Rightarrow> bool" where
  "connector_ops_ok [] c = True"
| "connector_ops_ok (oper # opers) c \<longleftrightarrow> connector_op_ok oper c \<and>
     (case connector_op oper c of None \<Rightarrow> True | Some c' \<Rightarrow> connector_ops_ok opers c')"

section \<open>The invariant\<close>

definition created :: "Connector \<Rightarrow> int multiset" where
  "created c = mset (concat (map (\<lambda>e. case e of Created fd \<Rightarrow> [fd] | _ \<Rightarrow> []) (ct_effects c)))"

definition closed :: "Connector \<Rightarrow> int multiset" where
  "closed c = mset (concat (map (\<lambda>e. case e of Closed fd \<Rightarrow> [fd] | _ \<Rightarrow> []) (ct_effects c)))"

definition handed :: "Connector \<Rightarrow> int list" where
  "handed c = concat (map (\<lambda>e. case e of NewConnection fd \<Rightarrow> [fd] | _ \<Rightarrow> []) (ct_effects c))"

definition delays :: "Connector \<Rightarrow> int list" where
  "delays c = concat (map (\<lambda>e. case e of RetryTimer d \<Rightarrow> [d] | _ \<Rightarrow> []) (ct_effects c))"

definition held :: "Connector \<Rightarrow> int multiset" where
  "held c = (case ct_channel c of None \<Rightarrow> {#} | Some ch \<Rightarrow> {#cn_fd ch#})"

lemmas fd_defs = created_def closed_def handed_def delays_def held_def

definition ct_inv :: "Connector \<Rightarrow> bool" where
  "ct_inv c \<longleftrightarrow> (ct_state c = CConnecting \<longleftrightarrow> ct_channel c \<noteq> None)
     \<and> (case ct_channel c of None \<Rightarrow> True | Some ch \<Rightarrow> registered ch (ct_epoll c) \<and> 0 \<le> cn_fd ch)
     \<and> kInitRetryDelayMs \<le> ct_retryDelayMs c \<and> ct_retryDelayMs c \<le> kMaxRetryDelayMs
     \<and> created c = closed c + mset (handed c) + held c
     \<and> list_all (\<lambda>d. kInitRetryDelayMs div 2 \<le> d \<and> d \<le> kMaxRetryDelayMs) (delays c)"

lemma ct_emit_simps [simp]:
  "ct_state (ct_emit e c) = ct_state c" "ct_connect (ct_emit e c) = ct_connect c"
  "ct_channel (ct_emit e c) = ct_channel c" "ct_epoll (ct_emit e c) = ct_epoll c"
  "ct_retryDelayMs (ct_emit e c) = ct_retryDelayMs c" "ct_effects (ct_emit e c) = ct_effects c @ [e]"
  by (simp_all add: ct_emit_def)

text \<open>The jitter keeps between half the delay and the delay.\<close>

lemma jitter_range:
  assumes "pick_ok pick" and "0 \<le> d"
  shows "d div 2 \<le> jitterInRange pick (d div 2) d \<and> jitterInRange pick (d div 2) d \<le> d"
  using assms by (auto simp: jitterInRange_def pick_ok_def)

text \<open>A socket in the hands of the connector, neither registered nor closed yet.\<close>

definition ct_loose :: "int \<Rightarrow> Connector \<Rightarrow> bool" where
  "ct_loose fd c \<longleftrightarrow> ct_channel c = None
     \<and> kInitRetryDelayMs \<le> ct_retryDelayMs c \<and> ct_retryDelayMs c \<le> kMaxRetryDelayMs
     \<and> created c = closed c + mset (handed c) + (if fd < 0 then {#} else {#fd#})
     \<and> list_all (\<lambda>d. kInitRetryDelayMs div 2 \<le> d \<and> d \<le> kMaxRetryDelayMs) (delays c)"

lemma close_inv: "ct_loose fd c \<Longrightarrow> ct_state c \<noteq> CConnecting \<Longrightarrow> ct_inv (close_fd fd c)"
  by (auto simp: ct_loose_def ct_inv_def close_fd_def fd_defs)

lemma retry_inv:
  assumes "ct_loose fd c" and "pick_ok pick"
  shows "ct_inv (retry pick fd c)"
proof -
  let ?c = "(close_fd fd c)\<lparr>ct_state := CDisconnected\<rparr>"
  have inv: "ct_inv ?c"
    using assms(1) by (auto simp: ct_loose_def ct_inv_def close_fd_def fd_defs)
  have d: "kInitRetryDelayMs \<le> ct_retryDelayMs ?c" "ct_retryDelayMs ?c \<le> kMaxRetryDelayMs"
    using inv by (simp_all add: ct_inv_def)
  let ?j = "jitterInRange pick (ct_retryDelayMs ?c div 2) (ct_retryDelayMs ?c)"
  have j: "kInitRetryDelayMs div 2 \<le> ?j \<and> ?j \<le> kMaxRetryDelayMs"
    using jitter_range [OF assms(2), of "ct_retryDelayMs ?c"] d
    by (auto simp: kInitRetryDelayMs_def)
  have "ct_inv ((ct_emit (RetryTimer ?j) ?c)\<lparr>ct_retryDelayMs := min (ct_retryDelayMs ?c * 2) kMaxRetryDelayMs\<rparr>)"
    using inv d j by (auto simp: ct_inv_def fd_defs kInitRetryDelayMs_def kMaxRetryDelayMs_def)
  with inv show ?thesis by (simp add: retry_def Let_def)
qed

lemma connecting_inv:
  assumes "ct_loose fd c" and "0 \<le> fd" and "map_of (ct_epoll c) fd = None"
  shows "\<exists>c'. connecting i fd c = Some c' \<and> ct_inv c'"
proof -
  define ch where "ch = (new_Channel i fd)\<lparr>cn_writeCallback := True, cn_errorCallback := True\<rparr>"
  have "registered ch (ct_epoll c)"
    using assms(3) by (simp add: ch_def registered_def new_Channel_def)
  from updateChannel_registered [OF this, of "cn_events ch OR kWriteEvent"] obtain ch' ep where
    "enableWriting True ch (ct_epoll c) = Some (ch', ep)" "registered ch' ep" "cn_fd ch' = fd"
    by (auto simp: enableWriting_def ch_def new_Channel_def)
  with assms(1,2) show ?thesis
    by (auto simp: connecting_def ch_def [symmetric] ct_inv_def ct_loose_def fd_defs)
qed

lemma connect_inv:
  assumes "ct_inv c" and "ct_state c = CDisconnected" and "pick_ok (k_pick k)"
    and "map_of (ct_epoll c) (k_sockfd k) = None"
  shows "\<exists>c'. connect k c = Some c' \<and> ct_inv c'"
proof (cases "k_sockfd k < 0")
  case True
  have "ct_loose (-1) c" using assms(1,2) by (auto simp: ct_inv_def ct_loose_def held_def)
  with True assms show ?thesis by (simp add: connect_def retry_inv)
next
  case False
  have loose: "ct_loose (k_sockfd k) (ct_emit (Created (k_sockfd k)) c)"
    using assms(1,2) False by (auto simp: ct_inv_def ct_loose_def fd_defs)
  show ?thesis
    using connecting_inv [OF loose, of "k_channel k"] retry_inv [OF loose assms(3)] close_inv [OF loose]
      assms(2,4) False
    by (auto simp: connect_def Let_def)
qed

lemma connect_in_progress:
  assumes "0 \<le> k_sockfd k" and "k_errno k = EINPROGRESS"
  shows "\<exists>ch ep. connect k c = Some ((ct_emit (Created (k_sockfd k)) c)
      \<lparr>ct_state := CConnecting, ct_channel := Some ch, ct_epoll := ep\<rparr>) \<and> cn_fd ch = k_sockfd k"
proof -
  obtain ch ep where ch: "enableWriting True ((new_Channel (k_channel k) (k_sockfd k))
      \<lparr>cn_writeCallback := True, cn_errorCallback := True\<rparr>) (ct_epoll c) = Some (ch, ep)" "cn_fd ch = k_sockfd k"
    by (simp add: enableWriting_def updateChannel_def new_Channel_def Let_def)
  with assms show ?thesis by (auto simp: connect_def connecting_def Let_def)
qed

lemma removeAndResetChannel_loose:
  assumes "ct_inv c" and "ct_channel c \<noteq> None"
  shows "\<exists>fd c'. removeAndResetChannel True c = Some (fd, c') \<and> ct_loose fd c'
    \<and> ct_connect c' = ct_connect c \<and> ct_state c' = ct_state c"
proof -
  obtain ch where ch: "ct_channel c = Some ch" "registered ch (ct_epoll c)" "0 \<le> cn_fd ch"
    using assms by (auto simp: ct_inv_def)
  from updateChannel_registered [OF ch(2), of kNoneEvent] obtain ch1 ep1 where
    1: "disableAll True ch (ct_epoll c) = Some (ch1, ep1)" "registered ch1 ep1" "cn_fd ch1 = cn_fd ch"
    by (auto simp: disableAll_def)
  from removeChannel_registered [OF 1(2)] obtain ch2 ep2 where
    2: "removeChannel True ch1 ep1 = Some (ch2, ep2)" "cn_fd ch2 = cn_fd ch1"
    by blast
  have "removeAndResetChannel True c = Some (cn_fd ch, c\<lparr>ct_channel := None, ct_epoll := ep2\<rparr>)"
    using ch 1 2 by (simp add: removeAndResetChannel_def)
  moreover have "ct_loose (cn_fd ch) (c\<lparr>ct_channel := None, ct_epoll := ep2\<rparr>)"
    using assms(1) ch by (auto simp: ct_inv_def ct_loose_def fd_defs)
  ultimately show ?thesis by auto
qed

lemma ct_inv_flags:
  "ct_inv c \<Longrightarrow> ct_state c \<noteq> CConnecting \<Longrightarrow>
    ct_inv (c\<lparr>ct_state := CDisconnected, ct_retryDelayMs := kInitRetryDelayMs, ct_connect := b\<rparr>)"
  "ct_inv c \<Longrightarrow> ct_inv (c\<lparr>ct_connect := b\<rparr>)"
  "ct_inv c \<Longrightarrow> e \<in> {QueueStart, QueueStop} \<Longrightarrow> ct_inv (ct_emit e c)"
  by (auto simp: ct_inv_def fd_defs kInitRetryDelayMs_def kMaxRetryDelayMs_def split: option.splits)

lemma startInLoop_inv:
  assumes "ct_inv c" and "ct_state c = CDisconnected" and "pick_ok (k_pick k)"
    and "map_of (ct_epoll c) (k_sockfd k) = None"
  shows "\<exists>c'. startInLoop True k c = Some c' \<and> ct_inv c'"
  using connect_inv [OF assms] assms(1,2) by (simp add: startInLoop_def)

lemma removeAndResetChannel_state:
  "removeAndResetChannel True (c\<lparr>ct_state := s\<rparr>)
    = map_option (\<lambda>(fd, c'). (fd, c'\<lparr>ct_state := s\<rparr>)) (removeAndResetChannel True c)"
  by (auto simp: removeAndResetChannel_def disableAll_def updateChannel_def removeChannel_def Let_def
      split: option.split)

lemma ct_loose_state [simp]: "ct_loose fd (c\<lparr>ct_state := s\<rparr>) = ct_loose fd c"
  by (simp add: ct_loose_def fd_defs)

lemma stopInLoop_inv:
  assumes "ct_inv c"
  shows "\<exists>c'. stopInLoop True c = Some c' \<and> ct_inv c'"
proof (cases "ct_state c = CConnecting")
  case True
  then obtain fd c' where "removeAndResetChannel True c = Some (fd, c')" "ct_loose fd c'"
    using removeAndResetChannel_loose [OF assms] assms by (auto simp: ct_inv_def)
  with True close_inv [of fd "c'\<lparr>ct_state := CDisconnected\<rparr>"] show ?thesis
    by (simp add: stopInLoop_def removeAndResetChannel_state)
qed (simp add: stopInLoop_def assms)

lemma handleWrite_connector_inv:
  assumes "ct_inv c" and "pick_ok (k_pick k)"
  shows "\<exists>c'. connector_handleWrite True k so c = Some c' \<and> ct_inv c'"
proof (cases "ct_state c = CConnecting")
  case True
  then obtain fd c' where c': "removeAndResetChannel True c = Some (fd, c')" "ct_loose fd c'"
    using removeAndResetChannel_loose [OF assms(1)] assms(1) by (auto simp: ct_inv_def)
  have "0 \<le> fd" using c'(1) assms(1) True
    by (auto simp: removeAndResetChannel_def ct_inv_def disableAll_def updateChannel_def removeChannel_def
      Let_def split: if_splits)
  then have "ct_inv (ct_emit (NewConnection fd) (c'\<lparr>ct_state := CConnected\<rparr>))"
    using c'(2) by (auto simp: ct_loose_def ct_inv_def fd_defs)
  with True c' close_inv [of fd "c'\<lparr>ct_state := CConnected\<rparr>"] retry_inv [OF c'(2) assms(2)] show ?thesis
    by (simp add: connector_handleWrite_def Let_def)
qed (simp add: connector_handleWrite_def assms)

lemma handleError_connector_inv:
  assumes "ct_inv c" and "pick_ok (k_pick k)"
  shows "\<exists>c'. connector_handleError True k c = Some c' \<and> ct_inv c'"
proof (cases "ct_state c = CConnecting")
  case True
  then obtain fd c' where c': "removeAndResetChannel True c = Some (fd, c')" "ct_loose fd c'"
    using removeAndResetChannel_loose [OF assms(1)] assms(1) by (auto simp: ct_inv_def)
  with True retry_inv [OF c'(2) assms(2)] show ?thesis by (simp add: connector_handleError_def)
qed (simp add: connector_handleError_def assms)

lemma connector_op_inv:
  assumes inv: "ct_inv c" and ok: "connector_op_ok oper c"
  shows "\<exists>c'. connector_op oper c = Some c' \<and> ct_inv c'"
proof (cases oper)
  case (CtStart k)
  with startInLoop_inv [of "c\<lparr>ct_connect := True\<rparr>" k] ct_inv_flags(2) [OF inv] ok
  show ?thesis by (simp add: connector_op_def start_def connector_op_ok_def)
next
  case (CtRestart k)
  let ?c = "c\<lparr>ct_state := CDisconnected, ct_retryDelayMs := kInitRetryDelayMs, ct_connect := True\<rparr>"
  from CtRestart ok have "ct_inv ?c" using ct_inv_flags(1) [OF inv] by (simp add: connector_op_ok_def)
  with CtRestart startInLoop_inv [of ?c k] ok show ?thesis
    by (simp add: connector_op_def restart_def connector_op_ok_def)
next
  case CtStop
  then show ?thesis using ct_inv_flags(2,3) inv by (simp add: connector_op_def stop_def)
next
  case CtStopInLoop
  then show ?thesis using stopInLoop_inv [OF inv] by (simp add: connector_op_def)
next
  case (CtWritable k so)
  then show ?thesis using handleWrite_connector_inv [OF inv, of k so] ok
    by (simp add: connector_op_def connector_op_ok_def)
next
  case (CtError k)
  then show ?thesis using handleError_connector_inv [OF inv, of k] ok
    by (simp add: connector_op_def connector_op_ok_def)
next
  case (CtRetryFired k)
  then show ?thesis using startInLoop_inv [OF inv, of k] inv ok
    by (simp add: connector_op_def retry_fired_def connector_op_ok_def)
next
  case (CtQueuedStart k)
  then show ?thesis using startInLoop_inv [OF inv, of k] ok
    by (simp add: connector_op_def connector_op_ok_def)
next
  case (CtForeignStart k)
  then show ?thesis using ct_inv_flags(2,3) inv by (simp add: connector_op_def start_def)
qed

lemma connector_run_inv:
  assumes "ct_inv c" and "connector_ops_ok opers c"
  shows "\<exists>c'. connector_run opers c = Some c' \<and> ct_inv c'"
  using assms
proof (induction opers arbitrary: c)
  case (Cons oper opers)
  then show ?case using connector_op_inv [of c oper] by fastforce
qed simp

lemma new_Connector_inv: "ct_inv (new_Connector ep)"
  by (simp add: ct_inv_def new_Connector_def fd_defs kInitRetryDelayMs_def kMaxRetryDelayMs_def)

section \<open>Properties\<close>


definition refusing :: kernel where
  "refusing = \<lparr>k_pick = (\<lambda>low high. low), k_channel = 1, k_sockfd = 5, k_errno = ECONNREFUSED\<rparr>"


text \<open>The back-off doubles: while every attempt is refused, the delay before attempt \<open>j + 1\<close> lies
  between half of and all of \<open>500 * 2 ^ j\<close> ms, capped at 30 s, and each failure leaves a timer for
  the next attempt.
\<close>

theorem backoff_doubles:
  assumes "ct_state c = CDisconnected" and "ct_connect c" and "ct_retryDelayMs c = kInitRetryDelayMs"
    and "delays c = []" and "\<forall>k \<in> set ks. pick_ok (k_pick k) \<and> 0 \<le> k_sockfd k \<and> k_errno k = ECONNREFUSED"
  shows "\<exists>c'. connector_run (map CtRetryFired ks) c = Some c' \<and> length (delays c') = length ks
    \<and> (\<forall>j < length ks. min (500 * 2 ^ j) 30000 div 2 \<le> delays c' ! j \<and> delays c' ! j \<le> min (500 * 2 ^ j) 30000)"
proof -
  have "\<exists>c'. connector_run (map CtRetryFired ks) c = Some c' \<and> ct_state c' = CDisconnected \<and> ct_connect c'
    \<and> ct_retryDelayMs c' = min (500 * 2 ^ length ks) 30000 \<and> length (delays c') = length ks
    \<and> (\<forall>j < length ks. min (500 * 2 ^ j) 30000 div 2 \<le> delays c' ! j \<and> delays c' ! j \<le> min (500 * 2 ^ j) 30000)"
    using assms(5)
  proof (induction ks rule: rev_induct)
    case Nil
    then show ?case using assms(1-4) by (simp add: kInitRetryDelayMs_def)
  next
    case (snoc k ks)
    then obtain c' where c': "connector_run (map CtRetryFired ks) c = Some c'" "ct_state c' = CDisconnected"
      "ct_connect c'" "ct_retryDelayMs c' = min (500 * 2 ^ length ks) 30000" "length (delays c') = length ks"
      "\<forall>j < length ks. min (500 * 2 ^ j) 30000 div 2 \<le> delays c' ! j \<and> delays c' ! j \<le> min (500 * 2 ^ j) 30000"
      by auto
    let ?d = "min (500 * 2 ^ length ks) (30000 :: int)"
    let ?j = "jitterInRange (k_pick k) (?d div 2) ?d"
    have step: "connector_op (CtRetryFired k) c' = Some
      ((ct_emit (RetryTimer ?j) ((close_fd (k_sockfd k) (ct_emit (Created (k_sockfd k)) c'))\<lparr>ct_state := CDisconnected\<rparr>))
        \<lparr>ct_retryDelayMs := min (?d * 2) 30000\<rparr>)" (is "_ = Some ?c''")
      using c' snoc.prems
      by (simp add: connector_op_def retry_fired_def startInLoop_def connect_def Let_def retry_def errno_defs
        close_fd_def kMaxRetryDelayMs_def)
    have run: "connector_run (xs @ [oper]) c0 = Option.bind (connector_run xs c0) (connector_op oper)" for xs oper c0
      by (induction xs arbitrary: c0) (simp_all split: option.split)
    have "pick_ok (k_pick k)" using snoc.prems by simp
    then have j: "?d div 2 \<le> ?j \<and> ?j \<le> ?d" by (intro jitter_range) auto
    have "delays ?c'' = delays c' @ [?j]"
      by (simp add: fd_defs close_fd_def)
    moreover have "ct_retryDelayMs ?c'' = min (500 * 2 ^ Suc (length ks)) 30000"
      by (simp add: min_def)
    moreover have "ct_state ?c'' = CDisconnected" and "ct_connect ?c''"
      using c'(3) by (simp_all add: close_fd_def)
    ultimately show ?case
      using c' j step
      by (auto simp: run nth_append less_Suc_eq)
  qed
  then show ?thesis by blast
qed

theorem backoff_doubles_witness:
  "\<exists>c'. connector_run (map CtRetryFired (replicate 9 refusing)) ((new_Connector [])\<lparr>ct_connect := True\<rparr>) = Some c'
    \<and> length (delays c') = 9"
  using backoff_doubles [of "(new_Connector [])\<lparr>ct_connect := True\<rparr>" "replicate 9 refusing"]
  by (auto simp: new_Connector_def delays_def pick_ok_def refusing_def)

text \<open>The operations that ask for a connection again.\<close>

fun asks :: "connector_op \<Rightarrow> bool" where
  "asks (CtStart _) = True" | "asks (CtRestart _) = True" | "asks (CtForeignStart _) = True" | "asks _ = False"

lemma removeAndResetChannel_effects:
  "removeAndResetChannel True c = Some (fd, d) \<Longrightarrow> ct_connect d = ct_connect c \<and> ct_effects d = ct_effects c"
  by (auto simp: removeAndResetChannel_def bind_eq_Some_conv split: option.splits)

lemma close_fd_views [simp]:
  "handed (close_fd fd c) = handed c" "delays (close_fd fd c) = delays c"
  "ct_connect (close_fd fd c) = ct_connect c"
  by (simp_all add: close_fd_def handed_def delays_def)

lemma retry_stopped:
  "\<not> ct_connect c \<Longrightarrow> retry pick fd c = (close_fd fd c)\<lparr>ct_state := CDisconnected\<rparr>"
  by (simp add: retry_def)

lemma ct_state_views [simp]:
  "handed (c\<lparr>ct_state := s\<rparr>) = handed c" "delays (c\<lparr>ct_state := s\<rparr>) = delays c"
  by (simp_all add: handed_def delays_def)

lemma connector_op_stopped:
  assumes "\<not> ct_connect c" and "\<not> asks oper" and "connector_op oper c = Some c'"
  shows "\<not> ct_connect c' \<and> handed c' = handed c \<and> delays c' = delays c"
proof -
  have same: "\<not> ct_connect d \<and> handed d = handed c \<and> delays d = delays c"
    if "removeAndResetChannel True (c\<lparr>ct_state := s\<rparr>) = Some (fd, d)" for s fd d
    using removeAndResetChannel_effects [OF that] assms(1) by (simp add: handed_def delays_def)
  have same': "\<not> ct_connect d \<and> handed d = handed c \<and> delays d = delays c"
    if "removeAndResetChannel True c = Some (fd, d)" for fd d
    using removeAndResetChannel_effects [OF that] assms(1) by (simp add: handed_def delays_def)
  show ?thesis
  proof (cases oper)
    case CtStop
    with assms show ?thesis by (auto simp: connector_op_def stop_def handed_def delays_def)
  next
    case CtStopInLoop
    with assms show ?thesis
      by (auto simp: connector_op_def stopInLoop_def dest!: same split: if_splits)
  next
    case (CtWritable k so)
    with assms show ?thesis
      by (auto simp: connector_op_def connector_handleWrite_def retry_stopped Let_def dest!: same' split: if_splits)
  next
    case (CtError k)
    with assms show ?thesis
      by (auto simp: connector_op_def connector_handleError_def retry_stopped dest!: same' split: if_splits)
  next
    case (CtRetryFired k)
    with assms show ?thesis by (simp add: connector_op_def retry_fired_def)
  next
    case (CtQueuedStart k)
    with assms show ?thesis by (simp add: connector_op_def startInLoop_def split: if_splits)
  qed (use assms in simp_all)
qed

text \<open>A stopped connector stays stopped: after \<^verbatim>\<open>stop\<close>, until it is asked to connect again, it hands
  on no connection and schedules no retry, even if a connect was under way or a timer pending.
\<close>

theorem stop_is_final:
  assumes "connector_run opers (stop c) = Some c'" and "list_all (\<lambda>oper. \<not> asks oper) opers"
  shows "handed c' = handed c \<and> delays c' = delays c"
proof -
  have "\<not> ct_connect c' \<and> handed c' = handed d \<and> delays c' = delays d"
    if "connector_run opers d = Some c'" "\<not> ct_connect d" for d
    using that assms(2)
  proof (induction opers arbitrary: d)
    case (Cons oper opers)
    then obtain e where e: "connector_op oper d = Some e" "connector_run opers e = Some c'"
      by (auto split: option.splits)
    with Cons connector_op_stopped [of d oper e] show ?case by auto
  qed simp
  from this [OF assms(1)] show ?thesis by (auto simp: stop_def fd_defs)
qed

theorem stop_is_final_witness:
  "\<exists>c'. connector_run [CtWritable refusing (Inr 0), CtStopInLoop] (stop (new_Connector [])) = Some c'
    \<and> handed c' = handed (new_Connector [])"
proof -
  have run: "connector_run [CtWritable refusing (Inr 0), CtStopInLoop] (stop (new_Connector []))
      = Some (stop (new_Connector []))"
    by (simp add: connector_op_def stop_def new_Connector_def connector_handleWrite_def stopInLoop_def)
  with stop_is_final [OF run] show ?thesis by simp
qed

text \<open>
  A connect that completes between \<^verbatim>\<open>stop\<close> and its functor leaves the connector in the connected
  state with its socket closed, and the next \<^verbatim>\<open>start\<close> fails its assertion.
\<close>

lemma stop_during_connect_blocks_start:
  assumes "ct_inv c" and "ct_state c = CConnecting"
  shows "\<exists>c'. connector_handleWrite True k (Inr 0) (stop c) = Some c' \<and> ct_state c' = CConnected
    \<and> start True k' c' = None"
proof -
  have "ct_inv (stop c)" using ct_inv_flags(2,3) assms(1) by (simp add: stop_def)
  then obtain fd d where "removeAndResetChannel True (stop c) = Some (fd, d)" "ct_connect d = ct_connect (stop c)"
    using removeAndResetChannel_loose [of "stop c"] assms by (auto simp: ct_inv_def stop_def)
  with assms(2) show ?thesis
    by (auto simp: connector_handleWrite_def stop_def getSocketError_def Let_def close_fd_def start_def startInLoop_def)
qed

end
