(* ===== verification/TcpClient.thy ===== *)
theory TcpClient
  imports Connector
begin

text \<open>
  The client side of a connection, \<^verbatim>\<open>src/src/network/tcp_client.cc\<close>: a connector and at most
  one current connection, in one loop.  A connection is known by a number, since callbacks compare
  the pointers.  The loop has one epoll set; it is passed on between the connector and the
  connection.  \<open>tl_notified\<close> lists the calls of the user's connection callback that
  \<^verbatim>\<open>removeConnection\<close> makes itself.
\<close>

section \<open>State and operations\<close>

record TcpClient =
  tl_connector :: Connector
  tl_connection :: "(nat \<times> TcpConnection) option"
  tl_connectionCallback :: bool
  tl_messageCallback :: bool
  tl_writeCompleteCallback :: bool
  tl_retryOnDisconnect :: bool
  tl_disconnecting :: bool
  tl_owner :: "nat option"
  tl_nextConn :: nat
  tl_notified :: "nat list"

definition new_TcpClient :: "epoll_set \<Rightarrow> TcpClient" where
  "new_TcpClient ep = \<lparr>tl_connector = new_Connector ep, tl_connection = None,
     tl_connectionCallback = False, tl_messageCallback = False, tl_writeCompleteCallback = False,
     tl_retryOnDisconnect = True, tl_disconnecting = False, tl_owner = None, tl_nextConn = 0,
     tl_notified = []\<rparr>"

definition on_connector :: "(Connector \<Rightarrow> Connector option) \<Rightarrow> TcpClient \<Rightarrow> TcpClient option" where
  "on_connector f t = map_option (\<lambda>c. t\<lparr>tl_connector := c\<rparr>) (f (tl_connector t))"

definition client_connect :: "bool \<Rightarrow> kernel \<Rightarrow> TcpClient \<Rightarrow> TcpClient option" where
  "client_connect inLoop k = on_connector (start inLoop k)"

definition client_stop :: "TcpClient \<Rightarrow> TcpClient" where
  "client_stop t = t\<lparr>tl_connector := stop (tl_connector t)\<rparr>"

definition client_disconnect :: "bool \<Rightarrow> TcpClient \<Rightarrow> TcpClient option" where
  "client_disconnect inLoop t =
     (case tl_connection t of None \<Rightarrow> Some t
      | Some (i, conn) \<Rightarrow> map_option (\<lambda>conn. t\<lparr>tl_connection := Some (i, conn)\<rparr>) (shutdown inLoop conn))"

definition disconnectPermanently :: "bool \<Rightarrow> TcpClient \<Rightarrow> TcpClient option" where
  "disconnectPermanently inLoop t = client_disconnect inLoop (client_stop (t\<lparr>tl_disconnecting := True\<rparr>))"

definition clearCallbacks :: "TcpClient \<Rightarrow> TcpClient" where
  "clearCallbacks t = t\<lparr>tl_connectionCallback := False, tl_messageCallback := False,
     tl_writeCompleteCallback := False,
     tl_connection := map_option (\<lambda>(i, conn). (i, conn\<lparr>tc_connectionCallback := False,
       tc_messageCallback := False, tc_writeCompleteCallback := False\<rparr>)) (tl_connection t)\<rparr>"

text \<open>What \<^verbatim>\<open>ensureConnected\<close> runs in the loop.\<close>

definition ensureConnected :: "kernel \<Rightarrow> TcpClient \<Rightarrow> TcpClient option" where
  "ensureConnected k t =
     (if (case tl_connection t of None \<Rightarrow> False | Some (_, conn) \<Rightarrow> connected conn) then Some t
      else if isConnecting (tl_connector t) then Some t
      else on_connector (restart True k) t)"

definition tryClaim :: "nat \<Rightarrow> TcpClient \<Rightarrow> bool \<times> TcpClient" where
  "tryClaim owner t = (if tl_owner t = None then (True, t\<lparr>tl_owner := Some owner\<rparr>) else (False, t))"

definition releaseClaim :: "nat \<Rightarrow> TcpClient \<Rightarrow> TcpClient" where
  "releaseClaim owner t = (if tl_owner t = Some owner then t\<lparr>tl_owner := None\<rparr> else t)"

definition isClaimed :: "TcpClient \<Rightarrow> bool" where
  "isClaimed t \<longleftrightarrow> tl_owner t \<noteq> None"

text \<open>The callback of the connector; \<open>ch\<close> identifies the channel of the new connection.\<close>

definition newConnection :: "nat \<Rightarrow> int \<Rightarrow> int \<Rightarrow> TcpClient \<Rightarrow> TcpClient option" where
  "newConnection ch nowMs sockfd t =
     (let conn = (new_TcpConnection ch sockfd (ct_epoll (tl_connector t)) nowMs)
            \<lparr>tc_connectionCallback := tl_connectionCallback t, tc_messageCallback := tl_messageCallback t,
             tc_writeCompleteCallback := tl_writeCompleteCallback t, tc_closeCallback := True\<rparr>
      in map_option
           (\<lambda>conn. t\<lparr>tl_connection := Some (tl_nextConn t, conn), tl_nextConn := tl_nextConn t + 1,
              tl_connector := (tl_connector t)\<lparr>ct_epoll := tc_epoll conn\<rparr>\<rparr>)
           (connectEstablished True conn))"

text \<open>The close callback of connection \<open>i\<close>, which leaves the epoll set \<open>ep\<close>.\<close>

definition removeConnection :: "bool \<Rightarrow> kernel \<Rightarrow> nat \<Rightarrow> epoll_set \<Rightarrow> TcpClient \<Rightarrow> TcpClient option" where
  "removeConnection inLoop k i ep t =
     (if \<not> inLoop then None
      else if map_option fst (tl_connection t) \<noteq> Some i then Some t
      else
        let t = t\<lparr>tl_connection := None, tl_connector := (tl_connector t)\<lparr>ct_epoll := ep\<rparr>\<rparr>
        in map_option (\<lambda>t. if tl_connectionCallback t then t\<lparr>tl_notified := tl_notified t @ [i]\<rparr> else t)
             (if tl_retryOnDisconnect t \<and> \<not> tl_disconnecting t then on_connector (restart inLoop k) t
              else Some t))"

text \<open>
  The destructor, with what it leaves to the loop: the connection is destroyed and the connector
  with it; only in the loop's own thread is the connector stopped first.
\<close>

definition destroy_TcpClient :: "bool \<Rightarrow> TcpClient \<Rightarrow> Connector option" where
  "destroy_TcpClient inLoop t =
     (let c = (if inLoop then stop (tl_connector t) else tl_connector t)
      in Option.bind
           (case tl_connection t of None \<Rightarrow> Some c
            | Some (i, conn) \<Rightarrow> map_option (\<lambda>conn. c\<lparr>ct_epoll := tc_epoll conn\<rparr>) (connectDestroyed True conn))
           (destroy_Connector True))"

section \<open>The client and its events\<close>

text \<open>
  The connector's writability event ends with \<^verbatim>\<open>newConnection\<close> when the connect succeeded, and an
  event of the connection with \<^verbatim>\<open>removeConnection\<close> when it closed it.
\<close>

definition connector_writable :: "kernel \<Rightarrow> so_error \<Rightarrow> nat \<Rightarrow> int \<Rightarrow> TcpClient \<Rightarrow> TcpClient option" where
  "connector_writable k so ch nowMs t =
     Option.bind (on_connector (connector_handleWrite True k so) t)
       (\<lambda>u. case drop (length (handed (tl_connector t))) (handed (tl_connector u)) of
              [] \<Rightarrow> Some u
            | sockfd # _ \<Rightarrow> newConnection ch nowMs sockfd u)"

definition close_calls :: "TcpConnection \<Rightarrow> nat" where
  "close_calls conn = length (filter (\<lambda>e. e = CloseCallback) (tc_effects conn))"

definition connection_event :: "kernel \<Rightarrow> conn_op \<Rightarrow> TcpClient \<Rightarrow> TcpClient option" where
  "connection_event k oper t =
     (case tl_connection t of None \<Rightarrow> Some t
      | Some (i, conn) \<Rightarrow>
          Option.bind (conn_op oper conn)
            (\<lambda>conn'. if close_calls conn' > close_calls conn
               then removeConnection True k i (tc_epoll conn') t
               else Some (t\<lparr>tl_connection := Some (i, conn'),
                      tl_connector := (tl_connector t)\<lparr>ct_epoll := tc_epoll conn'\<rparr>\<rparr>)))"

datatype client_op =
    ClConnect kernel | ClStop | ClDisconnect | ClDisconnectPermanently | ClEnsureConnected kernel
  | ClStopInLoop | ClRetryFired kernel | ClConnectorError kernel
  | ClConnectorWritable kernel so_error nat int
  | ClConnection kernel conn_op

definition client_op :: "client_op \<Rightarrow> TcpClient \<Rightarrow> TcpClient option" where
  "client_op oper = (case oper of
     ClConnect k \<Rightarrow> client_connect True k | ClStop \<Rightarrow> Some \<circ> client_stop
   | ClDisconnect \<Rightarrow> client_disconnect True | ClDisconnectPermanently \<Rightarrow> disconnectPermanently True
   | ClEnsureConnected k \<Rightarrow> ensureConnected k | ClStopInLoop \<Rightarrow> on_connector (stopInLoop True)
   | ClRetryFired k \<Rightarrow> on_connector (retry_fired True k)
   | ClConnectorError k \<Rightarrow> on_connector (connector_handleError True k)
   | ClConnectorWritable k so ch now \<Rightarrow> connector_writable k so ch now
   | ClConnection k c \<Rightarrow> connection_event k c)"

text \<open>
  An operation that can occur: the kernel answers as for the connector and the connection, the
  client is started only when its connector rests, and \<^verbatim>\<open>ensureConnected\<close> is not called while the
  current connection is half closed.
\<close>

definition client_op_ok :: "client_op \<Rightarrow> TcpClient \<Rightarrow> bool" where
  "client_op_ok oper t = (case oper of
     ClConnect k \<Rightarrow> connector_op_ok (CtStart k) (tl_connector t)
   | ClEnsureConnected k \<Rightarrow> pick_ok (k_pick k) \<and> map_of (ct_epoll (tl_connector t)) (k_sockfd k) = None
       \<and> (case tl_connection t of None \<Rightarrow> True | Some (_, conn) \<Rightarrow> connected conn)
   | ClRetryFired k \<Rightarrow> connector_op_ok (CtRetryFired k) (tl_connector t)
   | ClConnectorError k \<Rightarrow> pick_ok (k_pick k)
   | ClConnectorWritable k so ch now \<Rightarrow> pick_ok (k_pick k)
   | ClConnection k c \<Rightarrow> pick_ok (k_pick k) \<and>
       (case tl_connection t of None \<Rightarrow> True
        | Some (_, conn) \<Rightarrow> op_ok c conn \<and>
            (case conn_op c conn of None \<Rightarrow> True | Some conn' \<Rightarrow> map_of (tc_epoll conn') (k_sockfd k) = None))
   | _ \<Rightarrow> True)"

fun client_run :: "client_op list \<Rightarrow> TcpClient \<Rightarrow> TcpClient option" where
  "client_run [] t = Some t"
| "client_run (oper # opers) t = (case client_op oper t of None \<Rightarrow> None | Some t' \<Rightarrow> client_run opers t')"

fun client_ops_ok :: "client_op list \<Rightarrow> TcpClient \<Rightarrow> bool" where
  "client_ops_ok [] t = True"
| "client_ops_ok (oper # opers) t \<longleftrightarrow> client_op_ok oper t \<and>
     (case client_op oper t of None \<Rightarrow> True | Some t' \<Rightarrow> client_ops_ok opers t')"

section \<open>The invariant\<close>

definition cl_inv :: "TcpClient \<Rightarrow> bool" where
  "cl_inv t \<longleftrightarrow> ct_inv (tl_connector t) \<and> tl_connectionCallback t
     \<and> (case tl_connection t of None \<Rightarrow> True
        | Some (i, conn) \<Rightarrow> (\<exists>ms. conn_inv ms conn) \<and> tc_epoll conn = ct_epoll (tl_connector t)
            \<and> ct_state (tl_connector t) = CConnected)"

lemma ct_inv_epoll: "ct_inv c \<Longrightarrow> ct_channel c = None \<Longrightarrow> ct_inv (c\<lparr>ct_epoll := ep\<rparr>)"
  by (simp add: ct_inv_def fd_defs)

lemma cl_inv_idle: "cl_inv t \<Longrightarrow> tl_connection t \<noteq> None \<Longrightarrow> ct_channel (tl_connector t) = None"
  by (auto simp: cl_inv_def ct_inv_def)

lemma on_connector_inv:
  assumes "cl_inv t" and "\<exists>c. f (tl_connector t) = Some c \<and> ct_inv c
      \<and> (tl_connection t \<noteq> None \<longrightarrow> ct_state c = CConnected \<and> ct_epoll c = ct_epoll (tl_connector t))"
  shows "\<exists>t'. on_connector f t = Some t' \<and> cl_inv t'"
proof -
  obtain c where c: "f (tl_connector t) = Some c" "ct_inv c"
    "tl_connection t \<noteq> None \<longrightarrow> ct_state c = CConnected \<and> ct_epoll c = ct_epoll (tl_connector t)"
    using assms(2) by blast
  have "cl_inv (t\<lparr>tl_connector := c\<rparr>)"
    using assms(1) c(2,3) by (auto simp: cl_inv_def split: option.splits)
  with c(1) show ?thesis by (simp add: on_connector_def)
qed

lemma on_connector_rest:
  assumes "cl_inv t" and "\<exists>c. f (tl_connector t) = Some c \<and> ct_inv c"
    and "\<And>c. ct_state c = CConnected \<Longrightarrow> f c = Some c"
  shows "\<exists>t'. on_connector f t = Some t' \<and> cl_inv t'"
proof (cases "tl_connection t")
  case None
  with assms(1,2) show ?thesis by (intro on_connector_inv) auto
next
  case (Some p)
  then have "f (tl_connector t) = Some (tl_connector t)"
    using assms(1) by (intro assms(3)) (auto simp: cl_inv_def)
  with assms(1) show ?thesis by (simp add: on_connector_def)
qed

lemma shutdown_same_epoll: "shutdown True c = Some c' \<Longrightarrow> tc_epoll c' = tc_epoll c"
  by (auto simp: shutdown_def Let_def shutdownInLoop_def emit_if_def split: if_splits)

lemma client_disconnect_inv:
  assumes "cl_inv t"
  shows "\<exists>t'. client_disconnect True t = Some t' \<and> cl_inv t'"
proof (cases "tl_connection t")
  case (Some p)
  obtain i conn where p: "p = (i, conn)" by (cases p)
  then obtain ms where ms: "conn_inv ms conn" using assms Some by (auto simp: cl_inv_def)
  from shutdown_inv [OF ms, of True] obtain conn' where
    "shutdown True conn = Some conn'" "conn_inv ms conn'" by blast
  with shutdown_same_epoll assms Some p show ?thesis
    by (auto simp: client_disconnect_def cl_inv_def)
qed (simp add: client_disconnect_def assms)

lemma stop_inv: "ct_inv c \<Longrightarrow> ct_inv (stop c)"
  using ct_inv_flags(2,3) by (simp add: stop_def)

lemma client_stop_inv: "cl_inv t \<Longrightarrow> cl_inv (client_stop t)"
  by (auto simp: cl_inv_def client_stop_def stop_inv split: option.splits) (simp_all add: stop_def)

lemma restart_inv:
  assumes "ct_inv c" and "ct_state c \<noteq> CConnecting" and "pick_ok (k_pick k)"
    and "map_of (ct_epoll c) (k_sockfd k) = None"
  shows "\<exists>c'. restart True k c = Some c' \<and> ct_inv c'"
  using connector_op_inv [OF assms(1), of "CtRestart k"] assms
  by (simp add: connector_op_def connector_op_ok_def)

lemma removeConnection_inv:
  assumes "cl_inv t" and "pick_ok (k_pick k)" and "map_of ep (k_sockfd k) = None"
    and "tl_connection t \<noteq> None"
  shows "\<exists>t'. removeConnection True k i ep t = Some t' \<and> cl_inv t'"
proof (cases "map_option fst (tl_connection t) = Some i")
  case True
  let ?c = "(tl_connector t)\<lparr>ct_epoll := ep\<rparr>"
  have c: "ct_inv ?c" "ct_state ?c = CConnected"
    using assms(1,4) ct_inv_epoll cl_inv_idle by (auto simp: cl_inv_def)
  obtain c' where "restart True k ?c = Some c'" "ct_inv c'"
    using restart_inv [OF c(1), of k] c assms(2,3) by auto
  moreover have "tl_connectionCallback t" using assms(1) by (simp add: cl_inv_def)
  ultimately show ?thesis
    using True c by (simp add: removeConnection_def Let_def on_connector_def cl_inv_def)
qed (simp add: removeConnection_def assms)

lemma connection_event_inv:
  assumes "cl_inv t" and "client_op_ok (ClConnection k c) t"
  shows "\<exists>t'. connection_event k c t = Some t' \<and> cl_inv t'"
proof (cases "tl_connection t")
  case None
  then show ?thesis using assms by (simp add: connection_event_def)
next
  case (Some p)
  obtain i conn where p: "p = (i, conn)" by (cases p)
  then obtain ms where "conn_inv ms conn" "op_ok c conn" using assms Some by (auto simp: cl_inv_def client_op_ok_def)
  from conn_op_inv [OF this] obtain conn' ms' where
    conn': "conn_op c conn = Some conn'" "conn_inv ms' conn'" by blast
  have idle: "ct_inv ((tl_connector t)\<lparr>ct_epoll := tc_epoll conn'\<rparr>)"
    using assms(1) Some ct_inv_epoll cl_inv_idle [OF assms(1)] by (auto simp: cl_inv_def)
  have "\<exists>t'. removeConnection True k i (tc_epoll conn') t = Some t' \<and> cl_inv t'"
    using assms conn' Some p by (intro removeConnection_inv) (auto simp: client_op_ok_def)
  with conn' idle Some p assms(1) show ?thesis
    by (auto simp: connection_event_def cl_inv_def)
qed

lemma handleWrite_hands_on:
  assumes "ct_inv c" and "pick_ok (k_pick k)"
  shows "\<exists>c'. connector_handleWrite True k so c = Some c' \<and> ct_inv c'
    \<and> (handed c' = handed c \<or> ct_state c' = CConnected \<and> ct_channel c' = None
        \<and> (\<exists>fd. handed c' = handed c @ [fd] \<and> map_of (ct_epoll c') fd = None))"
proof -
  obtain c' where c': "connector_handleWrite True k so c = Some c'" "ct_inv c'"
    using handleWrite_connector_inv [OF assms] by blast
  have "handed c' = handed c \<or> ct_state c' = CConnected \<and> ct_channel c' = None
        \<and> (\<exists>fd. handed c' = handed c @ [fd] \<and> map_of (ct_epoll c') fd = None)"
  proof (cases "ct_state c = CConnecting")
    case True
    then obtain ch where ch: "ct_channel c = Some ch" "registered ch (ct_epoll c)"
      using assms(1) by (auto simp: ct_inv_def)
    from updateChannel_registered [OF ch(2), of kNoneEvent] obtain ch1 ep1 where
      1: "disableAll True ch (ct_epoll c) = Some (ch1, ep1)" "registered ch1 ep1" "cn_fd ch1 = cn_fd ch"
      by (auto simp: disableAll_def)
    from removeChannel_registered [OF 1(2)] obtain ch2 ep2 where
      2: "removeChannel True ch1 ep1 = Some (ch2, ep2)" "registered ch2 ep2" "cn_index ch2 = -1" "cn_fd ch2 = cn_fd ch1"
      by blast
    have "map_of ep2 (cn_fd ch) = None" using 1(3) 2 by (simp add: registered_def)
    with True ch 1 2 c' show ?thesis
      by (auto simp: connector_handleWrite_def removeAndResetChannel_def Let_def retry_def close_fd_def
        handed_def split: if_splits)
  next
    case False
    with c' show ?thesis by (simp add: connector_handleWrite_def)
  qed
  with c' show ?thesis by blast
qed

lemma newConnection_inv:
  assumes "cl_inv t" and "ct_state (tl_connector t) = CConnected" and "ct_channel (tl_connector t) = None"
    and "map_of (ct_epoll (tl_connector t)) fd = None"
  shows "\<exists>t'. newConnection ch now fd t = Some t' \<and> cl_inv t'"
proof -
  let ?s = "set_up ch fd (ct_epoll (tl_connector t)) now (tl_messageCallback t) (tl_writeCompleteCallback t)"
  obtain conn where conn: "connectEstablished True ?s = Some conn"
    by (auto simp: sample_defs set_up_def)
  have eq: "(new_TcpConnection ch fd (ct_epoll (tl_connector t)) now)
      \<lparr>tc_connectionCallback := tl_connectionCallback t, tc_messageCallback := tl_messageCallback t,
       tc_writeCompleteCallback := tl_writeCompleteCallback t, tc_closeCallback := True\<rparr> = ?s"
    using assms(1) by (simp add: set_up_def cl_inv_def)
  have "conn_inv [] conn" using established_inv [OF assms(4) conn] .
  moreover have "ct_inv ((tl_connector t)\<lparr>ct_epoll := tc_epoll conn\<rparr>)"
    using assms(1,3) ct_inv_epoll by (simp add: cl_inv_def)
  moreover have "newConnection ch now fd t = Some (t\<lparr>tl_connection := Some (tl_nextConn t, conn),
      tl_nextConn := tl_nextConn t + 1, tl_connector := (tl_connector t)\<lparr>ct_epoll := tc_epoll conn\<rparr>\<rparr>)"
    unfolding newConnection_def Let_def eq conn by simp
  ultimately show ?thesis
    using assms(1,2) by (auto simp: cl_inv_def)
qed

lemma connector_writable_inv:
  assumes "cl_inv t" and "pick_ok (k_pick k)"
  shows "\<exists>t'. connector_writable k so ch now t = Some t' \<and> cl_inv t'"
proof (cases "ct_state (tl_connector t) = CConnecting")
  case True
  then have none: "tl_connection t = None" using assms(1) by (auto simp: cl_inv_def split: option.splits)
  obtain c' where c': "connector_handleWrite True k so (tl_connector t) = Some c'" "ct_inv c'"
    "handed c' = handed (tl_connector t) \<or> ct_state c' = CConnected \<and> ct_channel c' = None
        \<and> (\<exists>fd. handed c' = handed (tl_connector t) @ [fd] \<and> map_of (ct_epoll c') fd = None)"
    using handleWrite_hands_on [of "tl_connector t" k so] assms by (auto simp: cl_inv_def)
  have inv: "cl_inv (t\<lparr>tl_connector := c'\<rparr>)" using none c'(2) assms(1) by (simp add: cl_inv_def)
  from c'(3) show ?thesis
  proof
    assume "handed c' = handed (tl_connector t)"
    with inv c'(1) show ?thesis by (simp add: connector_writable_def on_connector_def)
  next
    assume "ct_state c' = CConnected \<and> ct_channel c' = None
        \<and> (\<exists>fd. handed c' = handed (tl_connector t) @ [fd] \<and> map_of (ct_epoll c') fd = None)"
    then obtain fd where fd: "ct_state c' = CConnected" "ct_channel c' = None"
      "handed c' = handed (tl_connector t) @ [fd]" "map_of (ct_epoll c') fd = None" by blast
    with newConnection_inv [OF inv, of fd ch now] c'(1) show ?thesis
      by (simp add: connector_writable_def on_connector_def)
  qed
next
  case False
  then show ?thesis using assms(1)
    by (simp add: connector_writable_def on_connector_def connector_handleWrite_def)
qed

lemma client_op_inv:
  assumes inv: "cl_inv t" and ok: "client_op_ok oper t"
  shows "\<exists>t'. client_op oper t = Some t' \<and> cl_inv t'"
proof -
  have ct: "ct_inv (tl_connector t)" using inv by (simp add: cl_inv_def)
  have conn: "tl_connection t \<noteq> None \<Longrightarrow> ct_state (tl_connector t) = CConnected"
    using inv by (auto simp: cl_inv_def)
  show ?thesis
  proof (cases oper)
    case (ClConnect k)
    then show ?thesis
      using on_connector_inv [OF inv, of "start True k"] connector_op_inv [OF ct, of "CtStart k"] ok conn
      by (auto simp: client_op_def client_op_ok_def client_connect_def connector_op_def connector_op_ok_def)
  next
    case (ClEnsureConnected k)
    then show ?thesis
      using on_connector_inv [OF inv, of "restart True k"] restart_inv [OF ct, of k] ok inv
      by (auto simp: client_op_def client_op_ok_def ensureConnected_def isConnecting_def split: option.splits)
  next
    case (ClRetryFired k)
    have "\<exists>c. retry_fired True k (tl_connector t) = Some c \<and> ct_inv c"
      using ClRetryFired connector_op_inv [OF ct, of "CtRetryFired k"] ok
      by (simp add: client_op_ok_def connector_op_def)
    then show ?thesis
      using ClRetryFired by (simp add: client_op_def) (rule on_connector_rest [OF inv], simp_all add: retry_fired_def)
  next
    case (ClConnectorError k)
    have "\<exists>c. connector_handleError True k (tl_connector t) = Some c \<and> ct_inv c"
      using ClConnectorError handleError_connector_inv [OF ct, of k] ok by (simp add: client_op_ok_def)
    then show ?thesis
      using ClConnectorError
      by (simp add: client_op_def) (rule on_connector_rest [OF inv], simp_all add: connector_handleError_def)
  next
    case ClStopInLoop
    have "\<exists>c. stopInLoop True (tl_connector t) = Some c \<and> ct_inv c"
      using stopInLoop_inv [OF ct] .
    then show ?thesis
      using ClStopInLoop by (simp add: client_op_def) (rule on_connector_rest [OF inv], simp_all add: stopInLoop_def)
  next
    case (ClConnection k c)
    then show ?thesis using connection_event_inv [OF inv] ok by (simp add: client_op_def)
  next
    case ClDisconnectPermanently
    have "cl_inv (client_stop (t\<lparr>tl_disconnecting := True\<rparr>))"
      using client_stop_inv [of "t\<lparr>tl_disconnecting := True\<rparr>"] inv
      by (auto simp: cl_inv_def split: option.splits)
    from client_disconnect_inv [OF this] ClDisconnectPermanently show ?thesis
      by (simp add: client_op_def disconnectPermanently_def)
  qed (use client_stop_inv [OF inv] client_disconnect_inv [OF inv] connector_writable_inv [OF inv] ok in
      \<open>simp_all add: client_op_def client_op_ok_def\<close>)
qed

lemma client_run_inv:
  assumes "cl_inv t" and "client_ops_ok opers t"
  shows "\<exists>t'. client_run opers t = Some t' \<and> cl_inv t'"
  using assms
proof (induction opers arbitrary: t)
  case (Cons oper opers)
  then show ?case using client_op_inv [of t oper] by fastforce
qed simp

definition sample_client :: TcpClient where
  "sample_client = (new_TcpClient [])\<lparr>tl_connectionCallback := True\<rparr>"

text \<open>The destructor closes the socket whose connect is under way.\<close>

lemma destroy_Connector_closes:
  assumes "ct_inv c"
  shows "\<exists>d. destroy_Connector True c = Some d \<and> created d = closed d + mset (handed d)"
proof (cases "ct_channel c")
  case None
  with assms show ?thesis by (auto simp: destroy_Connector_def ct_inv_def held_def)
next
  case (Some ch)
  then obtain fd d where "removeAndResetChannel True c = Some (fd, d)" "ct_loose fd d"
    using removeAndResetChannel_loose [OF assms] by auto
  moreover have "ct_state c = CConnecting" using assms Some by (simp add: ct_inv_def)
  ultimately show ?thesis using Some
    by (auto simp: destroy_Connector_def ct_loose_def close_fd_def created_def closed_def handed_def)
qed

lemma destroy_TcpClient_closes:
  assumes "cl_inv t"
  shows "\<exists>d. destroy_TcpClient inLoop t = Some d \<and> created d = closed d + mset (handed d)"
proof -
  let ?c = "if inLoop then stop (tl_connector t) else tl_connector t"
  have c: "ct_inv ?c" "ct_channel ?c = ct_channel (tl_connector t)"
    using assms ct_inv_flags(2,3) by (auto simp: cl_inv_def stop_def)
  show ?thesis
  proof (cases "tl_connection t")
    case None
    with destroy_Connector_closes [OF c(1)] show ?thesis by (simp add: destroy_TcpClient_def Let_def)
  next
    case (Some ic)
    then obtain i conn ms where conn: "tl_connection t = Some (i, conn)" "conn_inv ms conn"
      using assms by (cases ic) (auto simp: cl_inv_def)
    from connectDestroyed_inv [OF conn(2)] obtain conn' where d: "connectDestroyed True conn = Some conn'" by blast
    have "ct_inv (?c\<lparr>ct_epoll := tc_epoll conn'\<rparr>)"
      using cl_inv_idle [OF assms] conn(1) c by (intro ct_inv_epoll) auto
    from destroy_Connector_closes [OF this] conn(1) d show ?thesis
      unfolding destroy_TcpClient_def Let_def by simp
  qed
qed

section \<open>Properties\<close>



text \<open>When the current connection closes, the client forgets it and, unless it was told to disconnect
  for good or not to retry, its connector starts over at once with the initial delay; the close of
  any other connection changes nothing.
\<close>

theorem reconnect_policy:
  assumes "tl_connection t = Some (i, conn)"
  shows "(j \<noteq> i \<longrightarrow> removeConnection True k j ep t = Some t)
    \<and> (tl_disconnecting t \<or> \<not> tl_retryOnDisconnect t \<longrightarrow>
        (\<exists>t'. removeConnection True k i ep t = Some t' \<and> tl_connection t' = None
          \<and> tl_connector t' = (tl_connector t)\<lparr>ct_epoll := ep\<rparr>))
    \<and> (\<not> tl_disconnecting t \<and> tl_retryOnDisconnect t \<longrightarrow>
        (\<forall>t'. removeConnection True k i ep t = Some t' \<longrightarrow> tl_connection t' = None
          \<and> connect k ((tl_connector t)\<lparr>ct_epoll := ep, ct_state := CDisconnected,
               ct_retryDelayMs := kInitRetryDelayMs, ct_connect := True\<rparr>) = Some (tl_connector t')))"
  using assms
  by (auto simp: removeConnection_def Let_def on_connector_def restart_def startInLoop_def split: if_splits)

theorem reconnect_policy_witness:
  "removeConnection True refusing 4 [] (sample_client\<lparr>tl_connection := Some (3, sample_conn)\<rparr>)
    = Some (sample_client\<lparr>tl_connection := Some (3, sample_conn)\<rparr>)"
  using reconnect_policy [of "sample_client\<lparr>tl_connection := Some (3, sample_conn)\<rparr>" 3 sample_conn 4 refusing "[]"]
  by simp

text \<open>Claims and releases of the upper clients, with the results of the claims.\<close>

datatype claim_op = Claim nat | Release nat

fun claim_run :: "claim_op list \<Rightarrow> TcpClient \<Rightarrow> bool list \<times> TcpClient" where
  "claim_run [] t = ([], t)"
| "claim_run (Claim a # opers) t =
     (let (r, t) = tryClaim a t; (rs, t) = claim_run opers t in (r # rs, t))"
| "claim_run (Release a # opers) t = claim_run opers (releaseClaim a t)"

text \<open>A transport has one owner at a time: a claim succeeds exactly when nobody holds the client, and
  from then until the holder itself releases it every claim fails, whoever else calls release.
\<close>

theorem claim_exclusive:
  assumes "\<not> isClaimed t" and "Release a \<notin> set opers"
  shows "\<exists>u. tryClaim a t = (True, u) \<and> True \<notin> set (fst (claim_run opers u))
    \<and> tl_owner (snd (claim_run opers u)) = Some a"
proof -
  have "True \<notin> set (fst (claim_run opers u)) \<and> tl_owner (snd (claim_run opers u)) = Some a"
    if "tl_owner u = Some a" for u
    using that assms(2)
  proof (induction opers u rule: claim_run.induct)
    case (2 b opers t)
    then show ?case by (auto simp: tryClaim_def Let_def split: prod.split)
  next
    case (3 b opers t)
    then show ?case by (auto simp: releaseClaim_def)
  qed simp
  with assms(1) show ?thesis by (auto simp: tryClaim_def isClaimed_def)
qed

theorem claim_exclusive_witness:
  "\<exists>u. tryClaim 1 sample_client = (True, u) \<and> True \<notin> set (fst (claim_run [Claim 2, Release 2, Claim 2] u))"
  using claim_exclusive [of sample_client 1 "[Claim 2, Release 2, Claim 2]"]
  by (simp add: isClaimed_def sample_client_def new_TcpClient_def) blast

section \<open>Where a socket leaks\<close>

text \<open>
  \<^verbatim>\<open>restart\<close> while a connect is under way forgets the socket of that connect: it is neither
  closed nor handed on.
\<close>

lemma restart_while_connecting_leaks:
  assumes "0 \<le> k_sockfd k" and "k_errno k = EINPROGRESS" and "restart True k c = Some c'"
  shows "created c' = created c + {#k_sockfd k#} \<and> closed c' = closed c \<and> handed c' = handed c
    \<and> held c' = {#k_sockfd k#}"
proof -
  let ?c = "c\<lparr>ct_state := CDisconnected, ct_retryDelayMs := kInitRetryDelayMs, ct_connect := True\<rparr>"
  from connect_in_progress [OF assms(1,2), of ?c] assms(3) show ?thesis
    by (auto simp: restart_def startInLoop_def fd_defs)
qed

text \<open>
  The client gets there: \<^verbatim>\<open>ensureConnected\<close> on a half-closed connection starts a connect, and the
  close of the old connection then restarts the connector.
\<close>

lemma ensure_on_half_closed:
  assumes "tl_connection t = Some (i, conn)" and "tc_state conn = kDisconnecting"
    and "ct_state (tl_connector t) = CConnected" and "tl_retryOnDisconnect t" and "\<not> tl_disconnecting t"
    and "0 \<le> k_sockfd k" and "k_errno k = EINPROGRESS"
  shows "\<exists>u. ensureConnected k t = Some u \<and> isConnecting (tl_connector u) \<and> held (tl_connector u) = {#k_sockfd k#}
    \<and> removeConnection True k' i ep u = map_option (\<lambda>t. if tl_connectionCallback t
          then t\<lparr>tl_notified := tl_notified t @ [i]\<rparr> else t)
        (on_connector (restart True k') (u\<lparr>tl_connection := None, tl_connector := (tl_connector u)\<lparr>ct_epoll := ep\<rparr>\<rparr>))"
proof -
  let ?c = "(tl_connector t)\<lparr>ct_state := CDisconnected, ct_retryDelayMs := kInitRetryDelayMs, ct_connect := True\<rparr>"
  obtain c where c: "connect k ?c = Some c" "ct_state c = CConnecting" "held c = {#k_sockfd k#}"
    using connect_in_progress [OF assms(6,7), of ?c] by (auto simp: held_def)
  have "ensureConnected k t = Some (t\<lparr>tl_connector := c\<rparr>)"
    using assms(1-3) c(1)
    by (simp add: ensureConnected_def connected_def isConnecting_def on_connector_def restart_def startInLoop_def)
  with assms(1,4,5) c(2,3) show ?thesis
    by (simp add: isConnecting_def removeConnection_def)
qed

text \<open>An errno the connector does not list, such as \<^verbatim>\<open>EHOSTUNREACH\<close>, ends the attempts for good.\<close>

lemma unknown_errno_gives_up:
  assumes "ct_state c = CDisconnected" and "ct_connect c" and "0 \<le> k_sockfd k" and "k_errno k = 113"
  shows "\<exists>c'. startInLoop True k c = Some c' \<and> ct_state c' = CDisconnected \<and> ct_channel c' = ct_channel c
    \<and> delays c' = delays c"
  using assms by (simp add: startInLoop_def connect_def Let_def errno_defs close_fd_def delays_def)

text \<open>Of a close the user hears twice: from the connection and from \<^verbatim>\<open>removeConnection\<close>.\<close>

lemma close_notified_twice:
  assumes "tl_connection t = Some (i, conn)" and "conn_inv ms conn" and "tc_state conn = kConnected"
    and "tl_connectionCallback t" and "tl_disconnecting t" and "handleClose True conn = Some conn'"
  shows "callbacks conn' = [ConnectionCb kConnected, ConnectionCb kDisconnected, CloseCallback]
    \<and> (\<exists>t'. removeConnection True k i (tc_epoll conn') t = Some t' \<and> tl_notified t' = tl_notified t @ [i])"
  using handleClose_callbacks [OF assms(2,3,6)] assms(1,4,5) by (simp add: removeConnection_def Let_def)

end
