(* ===== verification/ConnectionPool.thy ===== *)
theory ConnectionPool
  imports TcpClient
begin

text \<open>
  The pool of client connections, \<^verbatim>\<open>src/src/pool/connection_pool.cc\<close>.  A pooled client is the
  index of its slot in the pool of its endpoint.  \<^verbatim>\<open>inet_pton\<close> is an argument that tells whether
  the host is an IPv4 address; the outcome of each connection attempt of \<^verbatim>\<open>createPool\<close> is an
  argument too.
\<close>

section \<open>State and operations\<close>

record EndpointPool =
  ep_clients :: "TcpClient list"
  ep_nextIndex :: u64

type_synonym ConnectionPool = "(bytes \<times> EndpointPool) list"

definition makeKey :: "bytes \<Rightarrow> u16 \<Rightarrow> bytes" where
  "makeKey host port = host @ str '':'' @ to_string (unat port)"

text \<open>
  The first answer of the connection callback within three seconds, with the client after it, or
  none.
\<close>

datatype connect_outcome = ConnectAnswer bool TcpClient | ConnectTimeout

text \<open>The clients of a pool, with the connection callback cleared, or \<open>None\<close> at the first failure.\<close>

fun connect_all :: "connect_outcome list \<Rightarrow> TcpClient list option" where
  "connect_all [] = Some []"
| "connect_all (ConnectTimeout # os) = None"
| "connect_all (ConnectAnswer ok client # os) =
     (if \<not> ok then None
      else map_option (Cons (client\<lparr>tl_connectionCallback := False\<rparr>)) (connect_all os))"

definition createPool ::
    "(bytes \<Rightarrow> bool) \<Rightarrow> bytes \<Rightarrow> u16 \<Rightarrow> int \<Rightarrow> (nat \<Rightarrow> connect_outcome) \<Rightarrow> ConnectionPool \<Rightarrow> bool \<times> ConnectionPool" where
  "createPool inet_pton host port poolSize outcome pools =
     (if poolSize \<le> 0 \<or> \<not> inet_pton host then (False, pools)
      else case connect_all (map outcome [0..<nat poolSize]) of
        None \<Rightarrow> (False, pools)
      | Some clients \<Rightarrow>
          (True, AList.update (makeKey host port) \<lparr>ep_clients = clients, ep_nextIndex = 0\<rparr> pools))"

text \<open>A client whose connection is up.\<close>

definition healthy :: "TcpClient \<Rightarrow> bool" where
  "healthy c = (case tl_connection c of None \<Rightarrow> False | Some (_, conn) \<Rightarrow> connected conn)"

text \<open>
  The loop of \<^verbatim>\<open>acquire\<close>: the slot found, the counter, and the fallback noted so far.
\<close>

fun acquire_loop :: "nat \<Rightarrow> TcpClient list \<Rightarrow> u64 \<Rightarrow> nat option \<Rightarrow> nat option \<times> u64 \<times> nat option" where
  "acquire_loop 0 cs next fallback = (None, next, fallback)"
| "acquire_loop (Suc k) cs next fallback =
     (let idx = unat next mod length cs; client = cs ! idx in
      if isClaimed client then acquire_loop k cs (next + 1) fallback
      else if healthy client then (Some idx, next + 1, fallback)
      else acquire_loop k cs (next + 1) (if fallback = None then Some idx else fallback))"

text \<open>
  The slot handed out, and the slot, if any, that \<^verbatim>\<open>ensureConnected\<close> is called on.
\<close>

definition acquire :: "bytes \<Rightarrow> u16 \<Rightarrow> ConnectionPool \<Rightarrow> nat option \<times> nat option \<times> ConnectionPool" where
  "acquire host port pools =
     (let key = makeKey host port in
      case map_of pools key of
        None \<Rightarrow> (None, None, pools)
      | Some ep \<Rightarrow>
          let (found, next, fallback) = acquire_loop (length (ep_clients ep)) (ep_clients ep) (ep_nextIndex ep) None;
              pools = AList.update key (ep\<lparr>ep_nextIndex := next\<rparr>) pools
          in case found of Some i \<Rightarrow> (Some i, None, pools) | None \<Rightarrow> (fallback, fallback, pools))"

text \<open>The client in slot \<open>i\<close> is returned; the flag is whether \<^verbatim>\<open>ensureConnected\<close> is called on it.\<close>

definition release :: "bytes \<Rightarrow> u16 \<Rightarrow> nat \<Rightarrow> ConnectionPool \<Rightarrow> bool \<times> ConnectionPool" where
  "release host port i pools =
     (let key = makeKey host port in
      case map_of pools key of
        None \<Rightarrow> (False, pools)
      | Some ep \<Rightarrow>
          if i \<ge> length (ep_clients ep) \<or> isClaimed (ep_clients ep ! i) then (False, pools)
          else (True, AList.update key
                 (ep\<lparr>ep_clients := (ep_clients ep)[i := clearCallbacks (ep_clients ep ! i)]\<rparr>) pools))"

definition poolSize :: "bytes \<Rightarrow> u16 \<Rightarrow> ConnectionPool \<Rightarrow> nat" where
  "poolSize host port pools =
     (case map_of pools (makeKey host port) of None \<Rightarrow> 0 | Some ep \<Rightarrow> length (ep_clients ep))"

text \<open>The destructor's body; the clients and then their loops are destroyed after it.\<close>

definition destroy_ConnectionPool :: "ConnectionPool \<Rightarrow> ConnectionPool" where
  "destroy_ConnectionPool pools = map (\<lambda>(key, ep). (key, ep\<lparr>ep_clients := map client_stop (ep_clients ep)\<rparr>)) pools"

lemma connect_all_None: "connect_all os = None \<longleftrightarrow> (\<exists>out \<in> set os. \<forall>c. out \<noteq> ConnectAnswer True c)"
  by (induction os rule: connect_all.induct) auto

lemma connect_all_length: "connect_all os = Some cs \<Longrightarrow> length cs = length os"
  by (induction os arbitrary: cs rule: connect_all.induct) (auto split: if_splits)

section \<open>The search\<close>

text \<open>The slots that \<open>k\<close> steps of the loop visit from counter \<open>m\<close> on.\<close>

definition visited :: "nat \<Rightarrow> nat \<Rightarrow> nat \<Rightarrow> nat set" where
  "visited n m k = (\<lambda>j. (m + j) mod n) ` {..<k}"

lemma visited_0 [simp]: "visited n m 0 = {}"
  by (simp add: visited_def)

lemma visited_Suc: "visited n m (Suc k) = insert (m mod n) (visited n (Suc m) k)"
  by (auto simp: visited_def lessThan_Suc_eq_insert_0 image_image)

lemma visited_all: "0 < n \<Longrightarrow> visited n m n = {..<n}"
proof
  assume n: "0 < n"
  show "{..<n} \<subseteq> visited n m n"
  proof
    fix i assume "i \<in> {..<n}"
    then have i: "i < n" by simp
    let ?j = "(i + n - m mod n) mod n"
    have "(m + ?j) mod n = (m mod n + (i + n - m mod n)) mod n"
      by (simp add: mod_add_eq mod_add_right_eq mod_add_left_eq)
    also have "m mod n + (i + n - m mod n) = i + n"
      using n mod_less_divisor [OF n, of m] by linarith
    finally have "(m + ?j) mod n = i" using i by simp
    moreover have "?j < n" using n by simp
    ultimately show "i \<in> visited n m n" unfolding visited_def by (metis (lifting) imageI lessThan_iff)
  qed
qed (auto simp: visited_def)

lemma unat_next:
  "unat (next :: u64) + Suc k \<le> 2 ^ 64 \<Longrightarrow> 0 < k \<Longrightarrow> unat (next + 1) = Suc (unat next)"
  by (simp add: unat_word_ariths(1))

definition free_slot :: "TcpClient list \<Rightarrow> nat \<Rightarrow> bool" where
  "free_slot cs i \<longleftrightarrow> \<not> isClaimed (cs ! i)"

definition good_slot :: "TcpClient list \<Rightarrow> nat \<Rightarrow> bool" where
  "good_slot cs i \<longleftrightarrow> \<not> isClaimed (cs ! i) \<and> healthy (cs ! i)"

lemma acquire_loop_spec:
  assumes "unat next + k \<le> 2 ^ 64" and "acquire_loop k cs next fb = (found, next', fb')"
  shows "(case found of Some i \<Rightarrow> i \<in> visited (length cs) (unat next) k \<and> good_slot cs i
      | None \<Rightarrow> \<forall>i \<in> visited (length cs) (unat next) k. \<not> good_slot cs i)
    \<and> (found = None \<longrightarrow> (case fb of Some i \<Rightarrow> fb' = Some i
      | None \<Rightarrow> (case fb' of Some i \<Rightarrow> i \<in> visited (length cs) (unat next) k \<and> free_slot cs i
          | None \<Rightarrow> \<forall>i \<in> visited (length cs) (unat next) k. \<not> free_slot cs i)))"
  using assms
proof (induction k arbitrary: "next" fb)
  case 0
  then show ?case by (auto split: option.split)
next
  case (Suc k)
  let ?i = "unat next mod length cs"
  have step: "visited (length cs) (unat next) (Suc k)
      = insert ?i (if k = 0 then {} else visited (length cs) (unat (next + 1)) k)"
    using Suc.prems(1) unat_next [of "next" k] by (simp add: visited_Suc)
  have bound: "unat (next + 1) + k \<le> 2 ^ 64" if "0 < k"
    using Suc.prems(1) unat_next [of "next" k] that by simp
  show ?case
  proof (cases "good_slot cs ?i")
    case True
    with Suc.prems(2) step show ?thesis by (auto simp: good_slot_def Let_def)
  next
    case False
    let ?fb = "if free_slot cs ?i \<and> fb = None then Some ?i else fb"
    have rec: "acquire_loop k cs (next + 1) ?fb = (found, next', fb')"
      using Suc.prems(2) False by (auto simp: good_slot_def free_slot_def Let_def split: if_splits)
    define V where "V = (if k = 0 then {} else visited (length cs) (unat (next + 1)) k)"
    have ih: "(case found of Some i \<Rightarrow> i \<in> V \<and> good_slot cs i | None \<Rightarrow> \<forall>i \<in> V. \<not> good_slot cs i)
      \<and> (found = None \<longrightarrow> (case ?fb of Some i \<Rightarrow> fb' = Some i
        | None \<Rightarrow> (case fb' of Some i \<Rightarrow> i \<in> V \<and> free_slot cs i | None \<Rightarrow> \<forall>i \<in> V. \<not> free_slot cs i)))"
    proof (cases "k = 0")
      case True
      with rec show ?thesis by (auto simp: V_def split: option.split)
    next
      case pos: False
      then have V: "V = visited (length cs) (unat (next + 1)) k" by (simp add: V_def)
      from pos show ?thesis unfolding V by (intro Suc.IH [OF bound rec]) simp
    qed
    show ?thesis
      unfolding step V_def [symmetric] using ih False
      by (cases found; cases fb; cases fb'; cases "free_slot cs ?i") simp_all
  qed
qed

section \<open>Properties\<close>

definition pooled :: "bool \<Rightarrow> TcpClient" where
  "pooled claimed = (new_TcpClient [])\<lparr>tl_owner := if claimed then Some 1 else None\<rparr>"

text \<open>C22: \<^verbatim>\<open>acquire\<close> hands out only a transport that nobody has claimed, a connected one if there is
  any, and nothing exactly when all are claimed; a transport that is not connected is told to
  reconnect.  The counter must not wrap during the search.
\<close>

theorem acquire_exclusive:
  assumes "map_of pools (makeKey host port) = Some ep" and "ep_clients ep \<noteq> []"
    and "unat (ep_nextIndex ep) + length (ep_clients ep) \<le> 2 ^ 64"
    and "acquire host port pools = (r, e, pools')"
  shows "case r of
      None \<Rightarrow> \<forall>i < length (ep_clients ep). isClaimed (ep_clients ep ! i)
    | Some i \<Rightarrow> i < length (ep_clients ep) \<and> \<not> isClaimed (ep_clients ep ! i)
        \<and> (healthy (ep_clients ep ! i) \<or> (\<forall>j < length (ep_clients ep). \<not> good_slot (ep_clients ep) j))
        \<and> e = (if healthy (ep_clients ep ! i) then None else Some i)"
proof -
  let ?cs = "ep_clients ep"
  obtain found next' fb where l: "acquire_loop (length ?cs) ?cs (ep_nextIndex ep) None = (found, next', fb)"
    by (cases "acquire_loop (length ?cs) ?cs (ep_nextIndex ep) None") blast
  have all: "visited (length ?cs) (unat (ep_nextIndex ep)) (length ?cs) = {..<length ?cs}"
    using assms(2) by (intro visited_all) simp
  have re: "r = (if found = None then fb else found) \<and> e = (if found = None then fb else None)"
    using assms(1,4) l by (auto simp: acquire_def Let_def split: option.splits)
  show ?thesis
    using acquire_loop_spec [OF assms(3) l] re
    by (cases found; cases fb) (auto simp: all good_slot_def free_slot_def)
qed

theorem acquire_exclusive_witness:
  "\<exists>e pools'. acquire [49] 80 [(makeKey [49] 80, \<lparr>ep_clients = [pooled True, pooled False], ep_nextIndex = 0\<rparr>)]
    = (Some 1, e, pools') \<and> \<not> isClaimed ([pooled True, pooled False] ! 1)"
proof -
  let ?pools = "[(makeKey [49] 80, \<lparr>ep_clients = [pooled True, pooled False], ep_nextIndex = 0\<rparr>)]"
  have "fst (acquire [49] 80 ?pools) = Some 1"
    by (simp add: acquire_def pooled_def isClaimed_def healthy_def new_TcpClient_def Let_def)
  then obtain e pools' where a: "acquire [49] 80 ?pools = (Some 1, e, pools')"
    by (metis prod.collapse)
  from acquire_exclusive [OF _ _ _ a] a show ?thesis by simp
qed

text \<open>\<^verbatim>\<open>createPool\<close> is all or nothing: it succeeds exactly when the size is positive, the host is an
  address and every connection came up, and then the endpoint has that many clients; otherwise no
  pool changes.
\<close>

theorem createPool_all_or_nothing:
  assumes "createPool inet_pton host port n outcome pools = (ok, pools')"
  shows "(ok \<longleftrightarrow> 0 < n \<and> inet_pton host \<and> (\<forall>i < nat n. \<exists>c. outcome i = ConnectAnswer True c))
    \<and> (if ok then poolSize host port pools' = nat n
         \<and> (\<forall>key. key \<noteq> makeKey host port \<longrightarrow> map_of pools' key = map_of pools key)
       else pools' = pools)"
proof (cases "0 < n \<and> inet_pton host")
  case False
  with assms show ?thesis by (auto simp: createPool_def split: if_splits)
next
  case True
  let ?os = "map outcome [0..<nat n]"
  have all: "connect_all ?os \<noteq> None \<longleftrightarrow> (\<forall>i < nat n. \<exists>c. outcome i = ConnectAnswer True c)"
    by (auto simp: connect_all_None)
  show ?thesis
  proof (cases "connect_all ?os")
    case None
    with True assms all show ?thesis by (auto simp: createPool_def)
  next
    case (Some cs)
    with True assms have "ok" "pools' = AList.update (makeKey host port) \<lparr>ep_clients = cs, ep_nextIndex = 0\<rparr> pools"
      by (simp_all add: createPool_def)
    with Some True all connect_all_length [OF Some] show ?thesis
      by (auto simp: poolSize_def map_of_AList_update)
  qed
qed

theorem createPool_all_or_nothing_witness:
  "createPool (\<lambda>_. True) [49] 80 2 (\<lambda>i. if i = 1 then ConnectTimeout else ConnectAnswer True (pooled False)) []
    = (False, [])"
proof -
  let ?out = "\<lambda>i. if i = (1 :: nat) then ConnectTimeout else ConnectAnswer True (pooled False)"
  obtain ok pools' where c: "createPool (\<lambda>_. True) [49] 80 2 ?out [] = (ok, pools')"
    by (cases "createPool (\<lambda>_. True) [49] 80 2 ?out []") blast
  have "\<not> (\<forall>i < nat 2. \<exists>c. ?out i = ConnectAnswer True c)"
    by (auto intro!: exI [of _ 1])
  with createPool_all_or_nothing [OF c] have "\<not> ok" by blast
  with createPool_all_or_nothing [OF c] c show ?thesis by auto
qed


text \<open>After the destructor's body no pooled connector will start another attempt.\<close>

lemma destroyed_pool_is_idle:
  "(key, ep) \<in> set (destroy_ConnectionPool pools) \<Longrightarrow> t \<in> set (ep_clients ep) \<Longrightarrow>
    \<not> ct_connect (tl_connector t) \<and> retry_fired True k (tl_connector t) = Some (tl_connector t)"
  by (auto simp: destroy_ConnectionPool_def client_stop_def stop_def retry_fired_def)

end
