(* ===== verification/PooledClient.thy ===== *)
theory PooledClient
  imports ConnectionPool AsyncClient
begin

text \<open>
  Asynchronous clients on pooled transports: how the constructor and the destructor of
  \<^verbatim>\<open>RpcAsyncClient\<close> (\<^verbatim>\<open>src/src/client/rpc_async_client.cc\<close>) act on the \<^verbatim>\<open>TcpClient\<close> they borrow from the
  pool.  A transport is its slot, a client the number that stands for its address.
\<close>

section \<open>Borrowing and returning a transport\<close>

definition setupCallbacks :: "TcpClient \<Rightarrow> TcpClient" where
  "setupCallbacks t = t\<lparr>tl_connectionCallback := True, tl_messageCallback := True,
     tl_connection := map_option (\<lambda>(i, conn). (i, conn\<lparr>tc_connectionCallback := True, tc_messageCallback := True\<rparr>))
       (tl_connection t)\<rparr>"

definition borrow :: "call_env \<Rightarrow> nat \<Rightarrow> nat \<Rightarrow> TcpClient list \<Rightarrow> AsyncClient \<times> TcpClient list" where
  "borrow e a i ts =
     (let (claimed, t) = tryClaim a (ts ! i);
          t = (if claimed then setupCallbacks t else t)
      in (pooled_AsyncClient e i claimed (healthy t), ts[i := t]))"

text \<open>
  What the client does to its transports when it lets go of them; the two that stop a transport
  also clear its callbacks.
\<close>

definition transport_effect :: "nat \<Rightarrow> transport_action \<Rightarrow> TcpClient list \<Rightarrow> TcpClient list" where
  "transport_effect a act ts =
     (case act of
        StopTransport i \<Rightarrow> ts[i := client_stop ((ts ! i)\<lparr>tl_connectionCallback := False, tl_messageCallback := False\<rparr>)]
      | ClearCallbacks i \<Rightarrow> ts[i := clearCallbacks (ts ! i)]
      | DisconnectPermanently i \<Rightarrow>
          ts[i := (case disconnectPermanently False (ts ! i) of Some t \<Rightarrow> t | None \<Rightarrow> ts ! i)]
      | ReleaseClaim i \<Rightarrow> ts[i := releaseClaim a (ts ! i)])"

definition give_back :: "nat \<Rightarrow> AsyncClient \<Rightarrow> TcpClient list \<Rightarrow> TcpClient list" where
  "give_back a c ts = fold (transport_effect a) (fst (destroy_AsyncClient c)) ts"

section \<open>Clients that come and go\<close>

text \<open>
  A new client takes a number that is not in use and a slot that exists; other requests are no events.
\<close>

datatype pooled_op = MakeClient call_env nat nat | DestroyClient nat

definition pooled_op :: "pooled_op \<Rightarrow> TcpClient list \<times> (nat \<times> AsyncClient) list \<Rightarrow> TcpClient list \<times> (nat \<times> AsyncClient) list" where
  "pooled_op oper = (\<lambda>(ts, cs).
     case oper of
       MakeClient e a i \<Rightarrow>
         if map_of cs a \<noteq> None \<or> length ts \<le> i then (ts, cs)
         else let (c, ts) = borrow e a i ts in (ts, (a, c) # cs)
     | DestroyClient a \<Rightarrow>
         (case map_of cs a of
            None \<Rightarrow> (ts, cs)
          | Some c \<Rightarrow> (give_back a c ts, AList.delete a cs)))"

text \<open>Who holds what: a slot is claimed by the one client that uses it, and its callbacks are that client's.\<close>

definition slot_inv :: "(nat \<times> AsyncClient) list \<Rightarrow> nat \<Rightarrow> TcpClient \<Rightarrow> bool" where
  "slot_inv cs i t \<longleftrightarrow> (tl_messageCallback t \<longleftrightarrow> isClaimed t)
     \<and> (\<forall>a. tl_owner t = Some a \<longleftrightarrow> (\<exists>c. map_of cs a = Some c \<and> rc_tcpClient c = Some i))"

definition holder_inv :: "AsyncClient \<Rightarrow> bool" where
  "holder_inv c \<longleftrightarrow> rc_endpoints c = [] \<and> rc_borrowedTransport c = rc_ownsClient c
     \<and> (rc_ownsClient c \<longleftrightarrow> rc_tcpClient c \<noteq> None)"

definition pooled_inv :: "TcpClient list \<times> (nat \<times> AsyncClient) list \<Rightarrow> bool" where
  "pooled_inv = (\<lambda>(ts, cs). (\<forall>a c. map_of cs a = Some c \<longrightarrow> holder_inv c)
     \<and> (\<forall>i < length ts. slot_inv cs i (ts ! i))
     \<and> (\<forall>a c i. map_of cs a = Some c \<longrightarrow> rc_tcpClient c = Some i \<longrightarrow> i < length ts))"

lemma slot_unique:
  assumes "slot_inv cs i t" and "map_of cs a = Some c" and "rc_tcpClient c = Some i"
    and "map_of cs b = Some d" and "rc_tcpClient d = Some i"
  shows "a = b"
proof -
  have "tl_owner t = Some a" "tl_owner t = Some b" using assms by (auto simp: slot_inv_def)
  then show ?thesis by simp
qed

lemma borrow_spec:
  assumes "i < length ts"
  shows "borrow e a i ts =
    (if tl_owner (ts ! i) = None
     then (pooled_AsyncClient e i True (healthy (setupCallbacks ((ts ! i)\<lparr>tl_owner := Some a\<rparr>))),
           ts[i := setupCallbacks ((ts ! i)\<lparr>tl_owner := Some a\<rparr>)])
     else (pooled_AsyncClient e i False (healthy (ts ! i)), ts))"
  by (simp add: borrow_def tryClaim_def Let_def)

lemma pooled_AsyncClient_fields:
  "rc_tcpClient (pooled_AsyncClient e i claimed up) = (if claimed then Some i else None)"
  "holder_inv (pooled_AsyncClient e i claimed up)"
  by (simp_all add: pooled_AsyncClient_def new_AsyncClient_def holder_inv_def Let_def)

lemma setupCallbacks_fields [simp]: "tl_owner (setupCallbacks t) = tl_owner t" "tl_messageCallback (setupCallbacks t)"
  by (simp_all add: setupCallbacks_def)

lemma make_inv:
  assumes "pooled_inv (ts, cs)" and "map_of cs a = None" and "i < length ts" and "borrow e a i ts = (c, ts')"
  shows "pooled_inv (ts', (a, c) # cs)"
proof (cases "tl_owner (ts ! i) = None")
  case True
  let ?t = "setupCallbacks ((ts ! i)\<lparr>tl_owner := Some a\<rparr>)"
  have c: "ts' = ts[i := ?t]" "rc_tcpClient c = Some i" "holder_inv c"
    using assms(4) True by (auto simp: borrow_spec [OF assms(3)] pooled_AsyncClient_fields)
  have slots: "slot_inv ((a, c) # cs) j (ts' ! j)" if "j < length ts'" for j
  proof -
    have "slot_inv cs j (ts ! j)" "slot_inv cs i (ts ! i)" using assms(1,3) that by (auto simp: pooled_inv_def c)
    then show ?thesis using assms(2,3) True c(2) that by (auto simp: slot_inv_def c(1) nth_list_update isClaimed_def)
  qed
  then show ?thesis using assms(1,3) c by (auto simp: pooled_inv_def)
next
  case False
  then have c: "ts' = ts" "rc_tcpClient c = None" "holder_inv c"
    using assms(4) by (auto simp: borrow_spec [OF assms(3)] pooled_AsyncClient_fields)
  have "slot_inv ((a, c) # cs) j (ts ! j)" if "j < length ts" for j
    using assms(1,2) that c(2) by (auto simp: pooled_inv_def slot_inv_def)
  then show ?thesis using assms(1) c by (auto simp: pooled_inv_def)
qed

lemma give_back_spec:
  assumes "holder_inv c"
  shows "give_back a c ts = (case rc_tcpClient c of None \<Rightarrow> ts
    | Some i \<Rightarrow> ts[i := releaseClaim a ((ts[i := clearCallbacks (ts ! i)]) ! i)])"
  using assms
  by (auto simp: holder_inv_def give_back_def destroy_AsyncClient_def disconnect_def stopHeartbeat_def
      transport_effect_def Let_def split: option.split)

lemma destroy_inv:
  assumes "pooled_inv (ts, cs)" and "map_of cs a = Some c"
  shows "pooled_inv (give_back a c ts, AList.delete a cs)"
proof -
  have h: "holder_inv c" and slots: "\<forall>i < length ts. slot_inv cs i (ts ! i)"
    using assms by (auto simp: pooled_inv_def)
  have rest: "map_of (AList.delete a cs) b = (if b = a then None else map_of cs b)" for b
    by (simp add: delete_conv')
  have "slot_inv (AList.delete a cs) j (give_back a c ts ! j)" if j: "j < length ts" for j
  proof (cases "rc_tcpClient c = Some j")
    case True
    then have "tl_owner (ts ! j) = Some a" using slots j assms(2) by (auto simp: slot_inv_def)
    then have "tl_owner (give_back a c ts ! j) = None" "\<not> tl_messageCallback (give_back a c ts ! j)"
      using True j by (simp_all add: give_back_spec [OF h] releaseClaim_def clearCallbacks_def)
    moreover have "b = a" if "map_of cs b = Some d" "rc_tcpClient d = Some j" for b d
      using slot_unique [of cs j "ts ! j"] slots j that assms(2) True by blast
    ultimately show ?thesis by (auto simp: slot_inv_def rest isClaimed_def)
  next
    case False
    then have "give_back a c ts ! j = ts ! j" by (auto simp: give_back_spec [OF h] split: option.split)
    then show ?thesis using slots j False assms(2) by (auto simp: slot_inv_def rest)
  qed
  moreover have "length (give_back a c ts) = length ts"
    by (simp add: give_back_spec [OF h] split: option.split)
  ultimately show ?thesis using assms(1) by (auto simp: pooled_inv_def rest split: if_splits)
qed

lemma pooled_op_inv: "pooled_inv s \<Longrightarrow> pooled_inv (pooled_op oper s)"
  by (cases s; cases oper)
    (auto simp: pooled_op_def make_inv destroy_inv not_le split: prod.split option.split)

lemma pooled_ops_inv: "pooled_inv s \<Longrightarrow> pooled_inv (fold pooled_op opers s)"
  by (induction opers arbitrary: s) (simp_all add: pooled_op_inv)

section \<open>Properties\<close>



section \<open>A claim that is never released\<close>

text \<open>
  \<^verbatim>\<open>disconnect\<close> lets go of the transport, and the destructor looks for it only afterwards: a client
  that was disconnected before it is destroyed leaves its transport claimed for ever.
\<close>

lemma disconnected_client_keeps_claim:
  assumes "disconnect c = (acts, d)" and "rc_ownsClient c" and "rc_tcpClient c = Some i" and "rc_endpoints c = []"
  shows "ReleaseClaim j \<notin> set acts \<and> fst (destroy_AsyncClient d) = []"
  using assms by (cases "rc_borrowedTransport c") (auto simp: destroy_AsyncClient_def disconnect_def stopHeartbeat_def Let_def)

end
