(* ===== verification/EtcdRegistry.thy ===== *)
theory EtcdRegistry
  imports Registry "HOL-Library.Sublist"
begin

text \<open>
  The registry kept in etcd, \<^verbatim>\<open>src/src/discovery/etcd_registry.cc\<close>.  The etcd client library and
  the JSON library are not part of the repository: they are the parameters \<open>ec\<close> and \<open>js\<close>, and the
  locales \<open>etcd_service\<close> and \<open>json_library\<close> state what their documentation promises.  The text of a
  JSON document is of a type of its own, \<open>'v\<close>, since only the two libraries look into it; \<open>'j\<close> is
  the type of JSON values.  \<open>er_etcd\<close> is the state of the service; \<open>er_notified\<close> lists the calls of
  the change callback.
\<close>

section \<open>The libraries\<close>

record ('j, 'v) json_lib =
  js_string :: "bytes \<Rightarrow> 'j"
  js_number :: "nat \<Rightarrow> 'j"
  js_dump :: "(bytes \<times> 'j) list \<Rightarrow> 'v option"
  js_parse :: "'v \<Rightarrow> (bytes \<times> 'j) list option"
  js_get_string :: "'j \<Rightarrow> bytes option"
  js_get_integer :: "'j \<Rightarrow> int option"

record ('v, 'e) etcd_client =
  ec_leasegrant :: "int \<Rightarrow> 'e \<Rightarrow> int option \<times> 'e"
  ec_put :: "bytes \<Rightarrow> 'v \<Rightarrow> int \<Rightarrow> 'e \<Rightarrow> bool \<times> 'e"
  ec_rm :: "bytes \<Rightarrow> 'e \<Rightarrow> bool \<times> 'e"
  ec_ls :: "bytes \<Rightarrow> 'e \<Rightarrow> (bytes \<times> 'v) list option"

text \<open>
  \<^verbatim>\<open>dump\<close> gives a document that parses to the same members, and may throw, as it does for a string
  that is not UTF-8; \<^verbatim>\<open>get\<close> gives back what a value was made from.
\<close>

locale json_library =
  fixes js :: "('j, 'v) json_lib"
  assumes parse_dump: "js_dump js obj = Some v \<Longrightarrow> \<exists>obj'. js_parse js v = Some obj' \<and> map_of obj' = map_of obj"
    and get_string: "js_get_string js (js_string js s) = Some s"
    and get_integer: "js_get_integer js (js_number js n) = Some (int n)"

text \<open>
  A successful \<^verbatim>\<open>put\<close> stores the value, a successful \<^verbatim>\<open>rm\<close> removes the key, and \<^verbatim>\<open>ls\<close> lists the keys
  that begin with its argument; \<open>kv\<close> is what the service holds.
\<close>

locale etcd_service =
  fixes ec :: "('v, 'e) etcd_client" and kv :: "'e \<Rightarrow> bytes \<rightharpoonup> 'v"
  assumes put_stores: "ec_put ec k v l e = (True, e') \<Longrightarrow> kv e' = (kv e)(k \<mapsto> v)"
    and rm_removes: "ec_rm ec k e = (True, e') \<Longrightarrow> kv e' = (kv e)(k := None)"
    and rm_missing: "kv e k = None \<Longrightarrow> kv (snd (ec_rm ec k e)) = kv e"
    and ls_lists: "ec_ls ec p e = Some kvs \<Longrightarrow> (k, v) \<in> set kvs \<longleftrightarrow> kv e k = Some v \<and> prefix p k"

text \<open>While the service can be reached every request is answered.\<close>

locale reachable_etcd = etcd_service ec kv
  for ec :: "('v, 'e) etcd_client" and kv :: "'e \<Rightarrow> bytes \<rightharpoonup> 'v" +
  assumes put_answers: "fst (ec_put ec k v l e)"
    and rm_answers: "kv e k \<noteq> None \<Longrightarrow> fst (ec_rm ec k e)"
    and ls_answers: "ec_ls ec p e \<noteq> None"

section \<open>Nodes as JSON\<close>

definition nodeToJson :: "('j, 'v) json_lib \<Rightarrow> RegistryNode \<Rightarrow> 'v option" where
  "nodeToJson js node = js_dump js
     [(str ''serviceName'', js_string js (rn_serviceName node)), (str ''nodeId'', js_string js (rn_nodeId node)),
      (str ''host'', js_string js (rn_host node)), (str ''port'', js_number js (unat (rn_port node))),
      (str ''registerTime'', js_number js (unat (rn_registerTime node))),
      (str ''lastHeartbeat'', js_number js (unat (rn_lastHeartbeat node)))]"

text \<open>\<^verbatim>\<open>value(key, default)\<close>; \<open>None\<close> is the exception for a member of the wrong type.\<close>

definition member_value :: "(bytes \<times> 'j) list \<Rightarrow> bytes \<Rightarrow> ('j \<Rightarrow> 'a option) \<Rightarrow> 'a \<Rightarrow> 'a option" where
  "member_value obj key get dflt = (case map_of obj key of None \<Rightarrow> Some dflt | Some j \<Rightarrow> get j)"

text \<open>
  An exception leaves the members assigned so far; the three numbers of a fresh node are
  unspecified and hence arguments.
\<close>

definition jsonToNode :: "('j, 'v) json_lib \<Rightarrow> u16 \<Rightarrow> u64 \<Rightarrow> u64 \<Rightarrow> 'v \<Rightarrow> RegistryNode" where
  "jsonToNode js port0 reg0 hb0 v =
     (let node = \<lparr>rn_serviceName = [], rn_nodeId = [], rn_host = [], rn_port = port0, rn_registerTime = reg0,
                  rn_lastHeartbeat = hb0\<rparr>
      in case js_parse js v of None \<Rightarrow> node
         | Some j \<Rightarrow>
        (case member_value j (str ''serviceName'') (js_get_string js) [] of None \<Rightarrow> node
         | Some s \<Rightarrow> let node = node\<lparr>rn_serviceName := s\<rparr> in
        (case member_value j (str ''nodeId'') (js_get_string js) [] of None \<Rightarrow> node
         | Some s \<Rightarrow> let node = node\<lparr>rn_nodeId := s\<rparr> in
        (case member_value j (str ''host'') (js_get_string js) [] of None \<Rightarrow> node
         | Some s \<Rightarrow> let node = node\<lparr>rn_host := s\<rparr> in
        (case member_value j (str ''port'') (js_get_integer js) 0 of None \<Rightarrow> node
         | Some n \<Rightarrow> let node = node\<lparr>rn_port := of_int n\<rparr> in
        (case member_value j (str ''registerTime'') (js_get_integer js) 0 of None \<Rightarrow> node
         | Some n \<Rightarrow> let node = node\<lparr>rn_registerTime := of_int n\<rparr> in
        (case member_value j (str ''lastHeartbeat'') (js_get_integer js) 0 of None \<Rightarrow> node
         | Some n \<Rightarrow> node\<lparr>rn_lastHeartbeat := of_int n\<rparr>)))))))"

section \<open>The registry\<close>

record 'e EtcdRegistry =
  er_leaseTTL :: int
  er_prefix :: bytes
  er_leaseId :: int
  er_keepAlive :: bool
  er_running :: bool
  er_watching :: "bytes set"
  er_changeCallback :: bool
  er_notified :: "change list"
  er_etcd :: 'e

definition new_EtcdRegistry :: "('v, 'e) etcd_client \<Rightarrow> int \<Rightarrow> bytes \<Rightarrow> 'e \<Rightarrow> 'e EtcdRegistry" where
  "new_EtcdRegistry ec leaseTTL keyPrefix e =
     (let (lease, e) = ec_leasegrant ec leaseTTL e;
          r = \<lparr>er_leaseTTL = leaseTTL, er_prefix = keyPrefix, er_leaseId = 0, er_keepAlive = False, er_running = True,
               er_watching = {}, er_changeCallback = False, er_notified = [], er_etcd = e\<rparr>
      in case lease of None \<Rightarrow> r | Some l \<Rightarrow> r\<lparr>er_leaseId := l, er_keepAlive := True\<rparr>)"

definition destroy_EtcdRegistry :: "'e EtcdRegistry \<Rightarrow> 'e EtcdRegistry" where
  "destroy_EtcdRegistry r = r\<lparr>er_running := False, er_keepAlive := False\<rparr>"

definition nodeKey :: "bytes \<Rightarrow> bytes \<Rightarrow> bytes \<Rightarrow> bytes" where
  "nodeKey pre serviceName nodeId = pre @ str ''/'' @ serviceName @ str ''/'' @ nodeId"

definition servicePrefix :: "bytes \<Rightarrow> bytes \<Rightarrow> bytes" where
  "servicePrefix pre serviceName = pre @ str ''/'' @ serviceName @ str ''/''"

text \<open>\<open>fresh\<close> gives the unspecified numbers of the nodes that are read.\<close>

definition etcd_discover ::
    "('j, 'v) json_lib \<Rightarrow> ('v, 'e) etcd_client \<Rightarrow> u16 \<times> u64 \<times> u64 \<Rightarrow> bytes \<Rightarrow> 'e EtcdRegistry \<Rightarrow> RegistryNode list" where
  "etcd_discover js ec fresh serviceName r =
     (case ec_ls ec (servicePrefix (er_prefix r) serviceName) (er_etcd r) of
        None \<Rightarrow> []
      | Some kvs \<Rightarrow> map (\<lambda>(key, v). case fresh of (p, t, h) \<Rightarrow> jsonToNode js p t h v) kvs)"

definition notifyChange ::
    "('j, 'v) json_lib \<Rightarrow> ('v, 'e) etcd_client \<Rightarrow> u16 \<times> u64 \<times> u64 \<Rightarrow> bytes \<Rightarrow> 'e EtcdRegistry \<Rightarrow> 'e EtcdRegistry" where
  "notifyChange js ec fresh serviceName r =
     (if \<not> er_changeCallback r then r
      else r\<lparr>er_notified := er_notified r @ [(serviceName, etcd_discover js ec fresh serviceName r)]\<rparr>)"

text \<open>A service in \<open>er_watching\<close> has a thread; \<open>watch_fired\<close> is a round of it in which \<^verbatim>\<open>Wait\<close> returned \<open>ok\<close>.\<close>

definition startWatchLoop :: "bytes \<Rightarrow> 'e EtcdRegistry \<Rightarrow> 'e EtcdRegistry" where
  "startWatchLoop serviceName r =
     (if serviceName \<in> er_watching r then r else r\<lparr>er_watching := insert serviceName (er_watching r)\<rparr>)"

definition watch_fired ::
    "('j, 'v) json_lib \<Rightarrow> ('v, 'e) etcd_client \<Rightarrow> u16 \<times> u64 \<times> u64 \<Rightarrow> bool \<Rightarrow> bytes \<Rightarrow> 'e EtcdRegistry \<Rightarrow> 'e EtcdRegistry" where
  "watch_fired js ec fresh ok serviceName r =
     (if er_running r \<and> serviceName \<in> er_watching r \<and> ok then notifyChange js ec fresh serviceName r else r)"

text \<open>\<open>None\<close> is the exception of \<^verbatim>\<open>dump\<close>, which nothing here catches.\<close>

definition etcd_registerService ::
    "('j, 'v) json_lib \<Rightarrow> ('v, 'e) etcd_client \<Rightarrow> u16 \<times> u64 \<times> u64 \<Rightarrow> RegistryNode \<Rightarrow> 'e EtcdRegistry
      \<Rightarrow> (bool \<times> 'e EtcdRegistry) option" where
  "etcd_registerService js ec fresh node r =
     map_option (\<lambda>v.
       case ec_put ec (nodeKey (er_prefix r) (rn_serviceName node) (rn_nodeId node)) v (er_leaseId r) (er_etcd r) of
         (False, e) \<Rightarrow> (False, r\<lparr>er_etcd := e\<rparr>)
       | (True, e) \<Rightarrow>
           (True, startWatchLoop (rn_serviceName node)
                    (notifyChange js ec fresh (rn_serviceName node) (r\<lparr>er_etcd := e\<rparr>))))
       (nodeToJson js node)"

definition etcd_deregisterService ::
    "('j, 'v) json_lib \<Rightarrow> ('v, 'e) etcd_client \<Rightarrow> u16 \<times> u64 \<times> u64 \<Rightarrow> bytes \<Rightarrow> bytes \<Rightarrow> 'e EtcdRegistry \<Rightarrow> bool \<times> 'e EtcdRegistry" where
  "etcd_deregisterService js ec fresh serviceName nodeId r =
     (case ec_rm ec (nodeKey (er_prefix r) serviceName nodeId) (er_etcd r) of
        (ok, e) \<Rightarrow> (ok, if ok then notifyChange js ec fresh serviceName (r\<lparr>er_etcd := e\<rparr>) else r\<lparr>er_etcd := e\<rparr>))"

definition etcd_heartbeat :: "bytes \<Rightarrow> bytes \<Rightarrow> 'e EtcdRegistry \<Rightarrow> bool \<times> 'e EtcdRegistry" where
  "etcd_heartbeat serviceName nodeId r = (True, r)"

definition etcd_setServiceChangeCallback :: "bool \<Rightarrow> 'e EtcdRegistry \<Rightarrow> 'e EtcdRegistry" where
  "etcd_setServiceChangeCallback cb r = r\<lparr>er_changeCallback := cb\<rparr>"

section \<open>Keys\<close>

lemma slash [simp]: "str ''/'' = [47]"
  by (simp add: str_def of_char_def)

lemma split_at_slash:
  "(47 :: u8) \<notin> set a \<Longrightarrow> 47 \<notin> set b \<Longrightarrow> a @ 47 # x = b @ 47 # y \<longleftrightarrow> a = b \<and> x = y"
proof (induction a arbitrary: b)
  case (Cons c a)
  then show ?case by (cases b) auto
qed (auto simp: Cons_eq_append_conv)

lemma nodeKey_inject:
  "47 \<notin> set svc \<Longrightarrow> 47 \<notin> set svc' \<Longrightarrow> nodeKey pre svc i = nodeKey pre svc' i' \<longleftrightarrow> svc = svc' \<and> i = i'"
  by (simp add: nodeKey_def split_at_slash)

lemma servicePrefix_nodeKey:
  "47 \<notin> set svc \<Longrightarrow> 47 \<notin> set svc' \<Longrightarrow> prefix (servicePrefix pre svc) (nodeKey pre svc' i) \<longleftrightarrow> svc = svc'"
  by (auto simp: servicePrefix_def nodeKey_def prefix_def split_at_slash)


section \<open>Nodes survive the JSON round trip\<close>

lemma unat_of_char: "unat (of_char c :: u8) = of_char c"
proof -
  have "(of_char c :: u8) = of_nat (of_char c)" by (simp only: of_nat_of_char)
  then show ?thesis using nat_of_char_less_256 [of c] by (simp add: unat_of_nat)
qed

lemma of_char_inject: "(of_char c :: u8) = of_char d \<longleftrightarrow> c = d"
  by (metis of_char_eq_iff unat_of_char)

lemma str_inject: "str s = str t \<longleftrightarrow> s = t"
  by (simp add: str_def inj_map_eq_map inj_def of_char_inject)

lemma json_node_roundtrip:
  assumes "json_library js" and "nodeToJson js node = Some v"
  shows "jsonToNode js p t h v = node"
proof -
  obtain obj where "js_parse js v = Some obj" and "map_of obj = map_of
     [(str ''serviceName'', js_string js (rn_serviceName node)), (str ''nodeId'', js_string js (rn_nodeId node)),
      (str ''host'', js_string js (rn_host node)), (str ''port'', js_number js (unat (rn_port node))),
      (str ''registerTime'', js_number js (unat (rn_registerTime node))),
      (str ''lastHeartbeat'', js_number js (unat (rn_lastHeartbeat node)))]"
    using json_library.parse_dump [OF assms(1) assms(2) [unfolded nodeToJson_def]] by blast
  then show ?thesis
    by (simp add: jsonToNode_def member_value_def str_inject
        json_library.get_string [OF assms(1)] json_library.get_integer [OF assms(1)])
qed

section \<open>Lookups\<close>

definition no_slash :: "bytes \<Rightarrow> bool" where
  "no_slash s \<longleftrightarrow> 47 \<notin> set s"

definition node_key :: "'e EtcdRegistry \<Rightarrow> RegistryNode \<Rightarrow> bytes" where
  "node_key r n = nodeKey (er_prefix r) (rn_serviceName n) (rn_nodeId n)"

text \<open>Whatever lies under the prefix was put there by a registration.\<close>

definition etcd_inv :: "('j, 'v) json_lib \<Rightarrow> ('e \<Rightarrow> bytes \<rightharpoonup> 'v) \<Rightarrow> 'e EtcdRegistry \<Rightarrow> bool" where
  "etcd_inv js kv r \<longleftrightarrow> (\<forall>k v. kv (er_etcd r) k = Some v \<and> prefix (er_prefix r @ str ''/'') k \<longrightarrow>
     (\<exists>n. no_slash (rn_serviceName n) \<and> k = node_key r n \<and> nodeToJson js n = Some v))"

definition stored :: "('j, 'v) json_lib \<Rightarrow> ('e \<Rightarrow> bytes \<rightharpoonup> 'v) \<Rightarrow> 'e EtcdRegistry \<Rightarrow> RegistryNode set" where
  "stored js kv r = {n. no_slash (rn_serviceName n) \<and> nodeToJson js n \<noteq> None
     \<and> kv (er_etcd r) (node_key r n) = nodeToJson js n}"

lemma etcd_state_simps [simp]:
  "er_etcd (startWatchLoop s r) = er_etcd r" "er_prefix (startWatchLoop s r) = er_prefix r"
  "er_etcd (notifyChange js ec fresh s r) = er_etcd r" "er_prefix (notifyChange js ec fresh s r) = er_prefix r"
  by (simp_all add: startWatchLoop_def notifyChange_def)

lemma prefix_nodeKey [simp]: "prefix (pre @ [47]) (nodeKey pre svc i)"
  by (simp add: nodeKey_def)

lemma node_key_eq:
  "no_slash (rn_serviceName m) \<Longrightarrow> no_slash (rn_serviceName n) \<Longrightarrow>
    node_key r m = node_key r n \<longleftrightarrow> rn_serviceName m = rn_serviceName n \<and> rn_nodeId m = rn_nodeId n"
  by (simp add: node_key_def no_slash_def nodeKey_inject)

lemma etcd_register_Some:
  assumes "etcd_registerService js ec fresh n r = Some (ok, r')"
  shows "\<exists>v. nodeToJson js n = Some v \<and> er_prefix r' = er_prefix r
    \<and> ec_put ec (node_key r n) v (er_leaseId r) (er_etcd r) = (ok, er_etcd r')"
proof -
  obtain v where v: "nodeToJson js n = Some v" using assms by (auto simp: etcd_registerService_def)
  obtain b e where put: "ec_put ec (node_key r n) v (er_leaseId r) (er_etcd r) = (b, e)" by fastforce
  have "ok = b \<and> er_prefix r' = er_prefix r \<and> er_etcd r' = e"
    using assms put v by (cases b) (auto simp: etcd_registerService_def node_key_def)
  with v put show ?thesis by simp
qed

lemma etcd_deregister:
  "er_prefix (snd (etcd_deregisterService js ec fresh svc i r)) = er_prefix r
   \<and> ec_rm ec (nodeKey (er_prefix r) svc i) (er_etcd r)
     = (fst (etcd_deregisterService js ec fresh svc i r), er_etcd (snd (etcd_deregisterService js ec fresh svc i r)))"
  by (simp add: etcd_deregisterService_def split: prod.split)

lemma stored_inject:
  assumes "json_library js" and "nodeToJson js m = Some v" and "nodeToJson js n = Some v"
  shows "m = n"
  using json_node_roundtrip [OF assms(1,2), of 0 0 0] json_node_roundtrip [OF assms(1,3), of 0 0 0] by simp

locale etcd_backend = reachable_etcd ec kv + json_library js
  for ec :: "('v, 'e) etcd_client" and kv :: "'e \<Rightarrow> bytes \<rightharpoonup> 'v" and js :: "('j, 'v) json_lib"
begin

lemma discover_stored:
  assumes "etcd_inv js kv r" and "no_slash svc"
  shows "set (etcd_discover js ec fresh svc r) = {n \<in> stored js kv r. rn_serviceName n = svc}"
proof -
  obtain kvs where ls: "ec_ls ec (servicePrefix (er_prefix r) svc) (er_etcd r) = Some kvs"
    using ls_answers by fastforce
  obtain p t h where fresh: "fresh = (p, t, h)" by (cases fresh)
  have d: "set (etcd_discover js ec fresh svc r) = (\<lambda>(k, v). jsonToNode js p t h v) ` set kvs"
    by (auto simp: etcd_discover_def ls fresh)
  have entry: "(k, v) \<in> set kvs \<longleftrightarrow> (\<exists>n \<in> stored js kv r. rn_serviceName n = svc \<and> k = node_key r n \<and> nodeToJson js n = Some v)"
    for k v
  proof -
    have "kv (er_etcd r) k = Some v \<and> prefix (servicePrefix (er_prefix r) svc) k \<Longrightarrow>
        \<exists>n. no_slash (rn_serviceName n) \<and> k = node_key r n \<and> nodeToJson js n = Some v"
      using assms(1) by (auto simp: etcd_inv_def servicePrefix_def prefix_def)
    moreover have "prefix (servicePrefix (er_prefix r) svc) (node_key r n) \<longleftrightarrow> rn_serviceName n = svc"
      if "no_slash (rn_serviceName n)" for n
      using that assms(2) by (auto simp: node_key_def no_slash_def servicePrefix_nodeKey)
    ultimately show ?thesis
      unfolding ls_lists [OF ls] by (fastforce simp: stored_def)
  qed
  have "n \<in> (\<lambda>(k, v). jsonToNode js p t h v) ` set kvs \<longleftrightarrow> n \<in> {n \<in> stored js kv r. rn_serviceName n = svc}" for n
  proof
    assume "n \<in> (\<lambda>(k, v). jsonToNode js p t h v) ` set kvs"
    then obtain k v where kv: "(k, v) \<in> set kvs" and n: "n = jsonToNode js p t h v" by auto
    then obtain m where "m \<in> stored js kv r" "rn_serviceName m = svc" "nodeToJson js m = Some v" using entry by blast
    with n json_node_roundtrip [OF json_library_axioms] show "n \<in> {n \<in> stored js kv r. rn_serviceName n = svc}" by auto
  next
    assume n: "n \<in> {n \<in> stored js kv r. rn_serviceName n = svc}"
    then obtain v where v: "nodeToJson js n = Some v" by (auto simp: stored_def)
    with n entry have "(node_key r n, v) \<in> set kvs" by blast
    with json_node_roundtrip [OF json_library_axioms v] show "n \<in> (\<lambda>(k, v). jsonToNode js p t h v) ` set kvs"
      by (force simp: image_iff)
  qed
  with d show ?thesis by blast
qed

lemma register_spec:
  assumes "etcd_inv js kv r" and "no_slash (rn_serviceName n)" and "etcd_registerService js ec fresh n r = Some (ok, r')"
  shows "ok \<and> etcd_inv js kv r' \<and> stored js kv r'
    = insert n {m \<in> stored js kv r. \<not> (rn_serviceName m = rn_serviceName n \<and> rn_nodeId m = rn_nodeId n)}"
proof -
  obtain v where v: "nodeToJson js n = Some v" and pre: "er_prefix r' = er_prefix r"
    and put: "ec_put ec (node_key r n) v (er_leaseId r) (er_etcd r) = (ok, er_etcd r')"
    using etcd_register_Some [OF assms(3)] by blast
  have ok: ok using put_answers [of "node_key r n" v "er_leaseId r" "er_etcd r"] put by simp
  have kv: "kv (er_etcd r') = (kv (er_etcd r))(node_key r n \<mapsto> v)" using put ok by (simp add: put_stores)
  have key: "node_key r' m = node_key r m" for m by (simp add: node_key_def pre)
  have "etcd_inv js kv r'"
    using assms(1,2) v by (auto simp: etcd_inv_def kv pre key)
  moreover have "m \<in> stored js kv r' \<longleftrightarrow> m = n \<or> m \<in> stored js kv r
      \<and> \<not> (rn_serviceName m = rn_serviceName n \<and> rn_nodeId m = rn_nodeId n)" for m
  proof (cases "no_slash (rn_serviceName m)")
    case True
    note eq = node_key_eq [OF True assms(2), of r]
    have st: "m \<in> stored js kv r' \<longleftrightarrow> nodeToJson js m \<noteq> None
        \<and> (if node_key r m = node_key r n then Some v else kv (er_etcd r) (node_key r m)) = nodeToJson js m"
      using True by (simp add: stored_def kv key)
    show ?thesis
    proof (cases "node_key r m = node_key r n")
      case True
      with st eq v stored_inject [OF json_library_axioms _ v, of m] show ?thesis by auto
    next
      case False
      with st eq \<open>no_slash (rn_serviceName m)\<close> show ?thesis by (auto simp: stored_def)
    qed
  next
    case False
    with assms(2) show ?thesis by (auto simp: stored_def)
  qed
  ultimately show ?thesis using ok by blast
qed

lemma deregister_spec:
  assumes "etcd_inv js kv r" and "no_slash svc"
  shows "etcd_inv js kv (snd (etcd_deregisterService js ec fresh svc i r))
    \<and> stored js kv (snd (etcd_deregisterService js ec fresh svc i r))
      = {m \<in> stored js kv r. \<not> (rn_serviceName m = svc \<and> rn_nodeId m = i)}"
proof -
  let ?r = "snd (etcd_deregisterService js ec fresh svc i r)"
  let ?k = "nodeKey (er_prefix r) svc i"
  have pre: "er_prefix ?r = er_prefix r" using etcd_deregister [of js ec fresh svc i r] by simp
  have key: "node_key ?r m = node_key r m" for m by (simp add: node_key_def pre)
  have kv: "kv (er_etcd ?r) = (kv (er_etcd r))(?k := None)"
  proof -
    obtain ok where rm: "ec_rm ec ?k (er_etcd r) = (ok, er_etcd ?r)" using etcd_deregister [of js ec fresh svc i r] by blast
    show ?thesis
    proof (cases "kv (er_etcd r) ?k")
      case None
      with rm_missing [OF None] rm show ?thesis by (simp add: fun_upd_idem)
    next
      case (Some v)
      with rm rm_answers [of "er_etcd r" ?k] show ?thesis by (simp add: rm_removes)
    qed
  qed
  have "node_key r m = ?k \<longleftrightarrow> rn_serviceName m = svc \<and> rn_nodeId m = i" if "no_slash (rn_serviceName m)" for m
    using that assms(2) by (simp add: node_key_def no_slash_def nodeKey_inject)
  with assms(1) show ?thesis by (auto simp: etcd_inv_def stored_def kv pre key)
qed

end

text \<open>The registry in etcd implements the interface of the registries, for names without a slash and nodes that can be dumped.\<close>

sublocale etcd_backend \<subseteq> registry: service_registry "etcd_inv js kv" "\<lambda>svc i. no_slash svc"
    "\<lambda>n. no_slash (rn_serviceName n) \<and> nodeToJson js n \<noteq> None"
    "\<lambda>n r. snd (the (etcd_registerService js ec fresh n r))"
    "\<lambda>svc i r. snd (etcd_deregisterService js ec fresh svc i r)" "etcd_discover js ec fresh" id for fresh
proof unfold_locales
  fix r n svc and i :: bytes and svc' and i' :: bytes
  assume inv: "etcd_inv js kv r"
  show "etcd_inv js kv (snd (etcd_deregisterService js ec fresh svc i r))" if "no_slash svc"
    using deregister_spec [OF inv that] by simp
  show "rn_serviceName n = svc" if "no_slash svc" "n \<in> set (etcd_discover js ec fresh svc r)"
    using that discover_stored [OF inv] by simp
  show "set (etcd_discover js ec fresh svc' (snd (etcd_deregisterService js ec fresh svc i r))) = (if svc' = svc
      then {m \<in> set (etcd_discover js ec fresh svc r). rn_nodeId m \<noteq> i} else set (etcd_discover js ec fresh svc' r))"
    if "no_slash svc" "no_slash svc'"
  proof -
    have d: "etcd_inv js kv (snd (etcd_deregisterService js ec fresh svc i r))"
        "stored js kv (snd (etcd_deregisterService js ec fresh svc i r))
          = {m \<in> stored js kv r. \<not> (rn_serviceName m = svc \<and> rn_nodeId m = i)}"
      using deregister_spec [OF inv that(1)] by blast+
    show ?thesis
      unfolding discover_stored [OF d(1) that(2)] discover_stored [OF inv that(1)] discover_stored [OF inv that(2)] d(2)
      by auto
  qed
  assume n: "no_slash (rn_serviceName n) \<and> nodeToJson js n \<noteq> None"
  then obtain ok r' where reg: "etcd_registerService js ec fresh n r = Some (ok, r')"
    by (cases "the (etcd_registerService js ec fresh n r)") (auto simp: etcd_registerService_def)
  have r': "snd (the (etcd_registerService js ec fresh n r)) = r'" using reg by simp
  from n have "no_slash (rn_serviceName n)" ..
  from register_spec [OF inv this reg] have spec: "etcd_inv js kv r'" "stored js kv r'
    = insert n {m \<in> stored js kv r. \<not> (rn_serviceName m = rn_serviceName n \<and> rn_nodeId m = rn_nodeId n)}"
    by blast+
  show "etcd_inv js kv (snd (the (etcd_registerService js ec fresh n r)))" unfolding r' by (rule spec(1))
  show "set (etcd_discover js ec fresh svc (snd (the (etcd_registerService js ec fresh n r)))) = (if svc = rn_serviceName n
      then insert (id n) {m \<in> set (etcd_discover js ec fresh svc r). rn_nodeId m \<noteq> rn_nodeId n}
      else set (etcd_discover js ec fresh svc r))" if "no_slash svc"
    unfolding r' discover_stored [OF spec(1) that] discover_stored [OF inv that] spec(2) by auto
qed simp_all

context etcd_backend
begin

lemma backend_lookups:
  assumes "etcd_inv js kv r" and "no_slash (rn_serviceName n)" and "no_slash svc"
    and "etcd_registerService js ec fresh n r = Some (ok, r')"
  shows "ok \<and> n \<in> set (etcd_discover js ec fresh (rn_serviceName n) r')
    \<and> (svc \<noteq> rn_serviceName n \<longrightarrow> set (etcd_discover js ec fresh svc r') = set (etcd_discover js ec fresh svc r))
    \<and> ((\<forall>m \<in> set (etcd_discover js ec fresh (rn_serviceName n) r). rn_nodeId m \<noteq> rn_nodeId n) \<longrightarrow>
        set (etcd_discover js ec fresh svc (snd (etcd_deregisterService js ec fresh (rn_serviceName n) (rn_nodeId n) r')))
          = set (etcd_discover js ec fresh svc r))"
proof -
  have fits: "no_slash (rn_serviceName n) \<and> nodeToJson js n \<noteq> None"
    using assms(2) etcd_register_Some [OF assms(4)] by auto
  have r': "r' = snd (the (etcd_registerService js ec fresh n r))" using assms(4) by simp
  from register_spec [OF assms(1,2,4)] have ok .. 
  with registry.register_then_lookup [OF assms(1) fits, of fresh] registry.lookup_register [OF assms(1) fits assms(3), of fresh]
    registry.register_deregister [OF assms(1) fits assms(3), of fresh]
  show ?thesis by (simp add: r')
qed

end

section \<open>A service and a library that keep their promises\<close>

definition reference_json :: "(bytes + nat, (bytes \<times> (bytes + nat)) list) json_lib" where
  "reference_json = \<lparr>js_string = Inl, js_number = Inr, js_dump = Some, js_parse = Some,
     js_get_string = (\<lambda>j. case j of Inl s \<Rightarrow> Some s | Inr n \<Rightarrow> None),
     js_get_integer = (\<lambda>j. case j of Inl s \<Rightarrow> None | Inr n \<Rightarrow> Some (int n))\<rparr>"

definition reference_etcd :: "('v, (bytes \<times> 'v) list) etcd_client" where
  "reference_etcd = \<lparr>ec_leasegrant = (\<lambda>ttl e. (Some 1, e)), ec_put = (\<lambda>k v l e. (True, AList.update k v e)),
     ec_rm = (\<lambda>k e. (map_of e k \<noteq> None, AList.delete k e)),
     ec_ls = (\<lambda>p e. Some (filter (\<lambda>kv. prefix p (fst kv)) (AList.clearjunk e)))\<rparr>"

interpretation ref_etcd: etcd_backend reference_etcd map_of reference_json
proof unfold_locales
  fix k :: bytes and v v' p l and e e' kvs :: "(bytes \<times> 'v) list"
  show "ec_put reference_etcd k v l e = (True, e') \<Longrightarrow> map_of e' = (map_of e)(k \<mapsto> v)"
    by (auto simp: reference_etcd_def update_conv')
  show "ec_rm reference_etcd k e = (True, e') \<Longrightarrow> map_of e' = (map_of e)(k := None)"
    by (auto simp: reference_etcd_def delete_conv')
  show "map_of e k = None \<Longrightarrow> map_of (snd (ec_rm reference_etcd k e)) = map_of e"
    by (simp add: reference_etcd_def delete_conv' fun_upd_idem)
  show "(k, v) \<in> set kvs \<longleftrightarrow> map_of e k = Some v \<and> prefix p k" if "ec_ls reference_etcd p e = Some kvs"
    using that distinct_clearjunk [of e] map_of_clearjunk [of e]
    by (auto simp: reference_etcd_def simp flip: map_of_eq_Some_iff)
qed (auto simp: reference_etcd_def reference_json_def)

section \<open>Properties\<close>


definition empty_etcd_registry :: "(bytes \<times> (bytes \<times> (bytes + nat)) list) list EtcdRegistry" where
  "empty_etcd_registry = new_EtcdRegistry reference_etcd 30 (str ''/rpc/services'') []"

lemma empty_etcd_registry_inv: "etcd_inv reference_json map_of empty_etcd_registry"
  by (simp add: etcd_inv_def empty_etcd_registry_def new_EtcdRegistry_def reference_etcd_def)


section \<open>Where the registry differs from its interface\<close>

text \<open>With a slash in a service's name its nodes appear among those of another service.\<close>

lemma slash_mixes_services:
  "prefix (servicePrefix pre svc) (nodeKey pre (svc @ str ''/'' @ sub) i)"
  by (simp add: servicePrefix_def nodeKey_def)

text \<open>When etcd grants no lease the registry still registers, with lease 0, which never expires.\<close>

lemma no_lease_registers:
  assumes "ec_leasegrant ec ttl e = (None, e')" and "nodeToJson js n = Some v"
    and "ec_put ec (nodeKey pre (rn_serviceName n) (rn_nodeId n)) v 0 e' = (True, e'')"
  shows "\<exists>r'. etcd_registerService js ec fresh n (new_EtcdRegistry ec ttl pre e) = Some (True, r') \<and> er_etcd r' = e''"
  using assms by (simp add: etcd_registerService_def new_EtcdRegistry_def)

text \<open>A document that does not parse gives a node whose numbers are whatever the memory held.\<close>

lemma bad_json_gives_garbage: "js_parse js v = None \<Longrightarrow> rn_port (jsonToNode js p t h v) = p"
  by (simp add: jsonToNode_def)

end
