(* ===== verification/Spec2Isabelle.thy ===== *)
theory Spec2Isabelle
  imports EchoPrograms RateLimiter EventLoop TcpServer LoopThread PooledClient InlineClients EtcdRegistry
begin

text \<open>
  This is a verification library for the C++ RPC framework under \<^verbatim>\<open>src/\<close>.

  \<^bold>\<open>The program.\<close>  A client encodes a request (\<^verbatim>\<open>codec/rpc_codec.cc\<close>), over messages that the protobuf
  compiler generates (\<^verbatim>\<open>protocol/rpc_service.pb.cc\<close>), and sends it on a non-blocking TCP connection
  (\<^verbatim>\<open>network/\<close>).  The server decodes the packets in the connection's input buffer, calls the method's
  handler and sends the response (\<^verbatim>\<open>server/rpc_server.cc\<close>).  The client matches responses with its
  pending requests by id (\<^verbatim>\<open>client/\<close>).  Around this are interceptors, a circuit breaker, rate
  limiters, consistent hashing, service registries and a connection pool.

  \<^bold>\<open>How it is modelled.\<close>  State is passed explicitly: a class is a record with the class's members, and
  a method is a function of the same name on it.  Two methods with the same name carry the class in
  theirs.  What the code learns from outside is an argument: answers of system calls,
  clock readings, random numbers, the order of a hash table.  A failed assertion or an abort is
  \<open>None\<close>, and so is a wait that has not ended when the given rounds are used up.  What the
  code does to the outside is recorded in a list of effects.  A 64-bit counter is a word that wraps; the
  theorems that need it not to wrap bound the number of steps.  Locks make a method atomic, and
  where the code reads an atomic and acts later, or two threads hand over, the steps interleave.

  \<^bold>\<open>The theories\<close>, each with the files under \<^verbatim>\<open>src/src/\<close> that it models:
  \<^item> \<open>Rpc_Prelude\<close>: bytes, little-endian fields, decimal numbers, and lemmas on lists and words.
  \<^item> \<open>Buffer\<close> (\<^verbatim>\<open>network/buffer.cc\<close>): the vector with its two indices refines a queue of bytes, for
    every operation and for \<^verbatim>\<open>readFd\<close> and \<^verbatim>\<open>writeFd\<close>.
  \<^item> \<open>Crc32\<close>: the table-driven checksum of the codec is the IEEE polynomial division, and finds
    every burst of at most 32 bits.
  \<^item> \<open>Protobuf\<close>, \<open>Wire_Format\<close>, \<open>ServiceMessages\<close> (\<^verbatim>\<open>protocol/rpc_service.pb.cc\<close>): parsing, serialization, sizes,
    merging and copying of the nine message classes over the protobuf runtime, the parameter \<open>rt\<close> with the locale
    \<open>wire_runtime\<close>.  The generated parsers are one loop, \<open>parse_fields\<close>, around the \<^verbatim>\<open>switch\<close> of each class;
    round trips, that parsing concatenated messages merges them, and that the parse loops end with fuel of one
    more than the number of bytes.
  \<^item> \<open>Codec\<close>, \<open>Codec_Bodies\<close>, \<open>Codec_Stream\<close> (\<^verbatim>\<open>codec/rpc_codec.cc\<close>): encoders, decoders and the framing
    of \<^verbatim>\<open>decode\<close>; it refines a specification of frames, accepts only what the encoder packs, gives
    messages back as they were, drops damaged packets, and does not depend on how the stream is
    cut into reads (locale \<open>packet_stream\<close> over \<open>byte_stream\<close>).
  \<^item> \<open>Server\<close> (\<^verbatim>\<open>server/\<close>): service tables and \<^verbatim>\<open>onMessage\<close>: every request is answered once, in order.
  \<^item> \<open>Channel\<close>, \<open>EventLoop\<close> (\<^verbatim>\<open>network/channel.cc\<close>, \<^verbatim>\<open>event_loop.cc\<close>): registration in the epoll set,
    dispatch, timers and functors: exactly the due timers run, and a cancelled one never.
  \<^item> \<open>LoopThread\<close> (\<^verbatim>\<open>network/event_loop_thread.cc\<close>): the owner and the new thread as a step relation;
    \<^verbatim>\<open>startLoop\<close> returns a live loop, and \<^verbatim>\<open>stop\<close> on a loop that has begun returns.
  \<^item> \<open>Socket\<close> (\<^verbatim>\<open>network/socket.cc\<close>): the owner of a descriptor, with the system calls it makes.
  \<^item> \<open>TcpConnection\<close> (\<^verbatim>\<open>network/tcp_connection.cc\<close>): what is written and buffered is what was sent, in
    order; the callbacks come once; the half-close comes after the data.
  \<^item> \<open>Connector\<close>, \<open>TcpClient\<close> (\<^verbatim>\<open>network/connector.cc\<close>, \<^verbatim>\<open>tcp_client.cc\<close>): no socket is leaked or
    closed twice, the back-off doubles, and the connector rests while there is a connection.
  \<^item> \<open>TcpServer\<close> (\<^verbatim>\<open>network/tcp_server.cc\<close>, \<^verbatim>\<open>acceptor.cc\<close>, \<^verbatim>\<open>event_loop_thread_pool.cc\<close>): every accepted
    connection is established once and destroyed once, in its loop, also by the destructor.
  \<^item> \<open>ConnectionPool\<close>, \<open>PooledClient\<close> (\<^verbatim>\<open>pool/connection_pool.cc\<close> and the clients that borrow from it): a
    transport never serves two clients.
  \<^item> \<open>RequestTable\<close>, \<open>AsyncClient\<close>, \<open>InlineClients\<close> (\<^verbatim>\<open>client/\<close>): every request is completed exactly once
    (locale \<open>request_table\<close>, interpreted for the asynchronous and the pipelining client), a
    call returns its own response, and the destructor leaves nobody waiting.
  \<^item> \<open>Interceptor\<close>, \<open>CircuitBreaker\<close>, \<open>RateLimiter\<close> (\<^verbatim>\<open>interceptor/\<close>, \<^verbatim>\<open>circuit_breaker/\<close>,
    \<^verbatim>\<open>rate_limiter/\<close>): the order of the chain, when the breaker opens and closes, and how many
    requests a bucket admits in an interval.
  \<^item> \<open>ConsistentHash\<close> (\<^verbatim>\<open>loadbalance/\<close>): a key goes to the successor of its hash, and a new node only takes
    keys over.
  \<^item> \<open>Registry\<close>, \<open>EtcdRegistry\<close> (\<^verbatim>\<open>discovery/\<close>): both registries implement the locale \<open>service_registry\<close>,
    the second over the etcd and JSON libraries as parameters with the locales \<open>etcd_service\<close>,
    \<open>reachable_etcd\<close> and \<open>json_library\<close>.
  \<^item> \<open>EndToEnd\<close> and this theory: client, codec and server composed.
  \<^item> \<open>ServerStack\<close> (\<^verbatim>\<open>server/rpc_server.cc\<close> over \<^verbatim>\<open>network/\<close>): the started server accepts a connection, and on it reads,
    decodes, serves and writes, whatever the kernel does with reads and writes.
  \<^item> \<open>EchoService\<close>, \<open>EchoPrograms\<close> (\<^verbatim>\<open>examples/\<close>, beside \<^verbatim>\<open>src/src/\<close>): the echo service, the server program and the three client
    programs, with what these print.

  Every locale that stands for a library outside the repository has an instance that satisfies it
  (\<open>reference_runtime\<close>, \<open>reference_etcd\<close>, \<open>reference_json\<close>); the other locales are interpreted on the
  model itself.  Sections whose title begins with ``Where'' collect lemmas about behaviour that
  differs from what comments, documents or the interfaces promise.

  \<^bold>\<open>Bounds.\<close>  Real numbers stand for the \<^verbatim>\<open>double\<close>s of the token buckets.  Durations and times are
  unbounded integers in the unit the code uses.  Packets are limited as in the code, by
  \<open>kMaxBodyLen\<close> and \<open>kMaxBufferSize\<close>; theorems on streams require that the buffer stays within the latter.

  \<^bold>\<open>Not modelled.\<close>  Reflection, arenas and descriptor tables of the generated messages, which serve the protobuf
  library.  Logging.  Memory and lifetimes: shared pointers are values here, and what a dangling pointer would do is
  outside the model, although the lemmas on destructors show who may still run.  Handlers and
  callbacks of users are functions or flags; callbacks that call back into the object that
  calls them are modelled for the event loop and for the server's message callback only.  The program
  \<^verbatim>\<open>examples/echo/echo_server.cc\<close> calls functions of the codec that do not exist and is not built.  The tests.
\<close>

section \<open>A remote call from end to end\<close>

text \<open>C1: A batch of calls from the client's encoder through the server and back: the server serves the
  requests it finds in its buffer in order, each with the content that was sent and on the state
  the earlier ones left, and what it sends completes exactly these requests of the client, in
  order, each with the response of its own call.
\<close>

theorem rpc_end_to_end:
  assumes "wire_runtime rt" and "list_all (call_ok rt) calls"
    and "buf_inv b" and "content b = concat (map (call_packet rt) calls)" and "length (content b) \<le> kMaxBufferSize"
    and "ac_inv (reg, c)" and "distinct (map fst calls)" and "set (map fst calls) \<subseteq> set (pending c)"
    and "\<And>calls'. list_all2 same_call calls' calls \<Longrightarrow>
      list_all (\<lambda>(i, st, resp). resp_ok rt resp) (fst (serve_calls srv calls' s))"
  shows "\<exists>calls' sent b'. list_all2 same_call calls' calls \<and> content b' = []
    \<and> onMessage rt time t i srv b s = (sent, b', snd (serve_calls srv calls' s))
    \<and> sent = map (reply_packet rt) (fst (serve_calls srv calls' s))
    \<and> (\<forall>cb t' i'. buf_inv cb \<and> content cb = concat sent \<and> length (content cb) \<le> kMaxBufferSize \<longrightarrow>
        rc_completed (fst (client_onMessage rt t' i' cb c))
          = rc_completed c @ map (\<lambda>(i, st, resp). (i, resp)) (fst (serve_calls srv calls' s)))"
  using assms by (rule calls_answered)

theorem rpc_end_to_end_witness:
  "\<exists>sent b'. onMessage reference_runtime (\<lambda>k. 0) REQUEST 0 echo_server
      (buffer_of (call_packet reference_runtime sample_call)) () = (sent, b', ())
    \<and> rc_completed (fst (client_onMessage reference_runtime REQUEST 0 (buffer_of (concat sent)) waiting_client))
      = [(1, sample_response)]"
proof -
  have ok: "resp_ok reference_runtime sample_response"
    by (simp add: sample_response_def resp_ok_def RpcResponse_new_def RpcResponse_ByteSizeLong_def
        wire_eval kMaxField_def)
  have len: "length (reply_packet reference_runtime (1, SUCCESS, sample_response)) \<le> kMaxBufferSize"
    by (simp add: sample_response_def reply_packet_def encodeResponse_def encodeResponseBody_def RpcResponse_SerializeToString_def
        RpcResponse_InternalSerialize_def RpcResponse_new_def RpcResponse_ByteSizeLong_def wire_eval appendPayload_field kMaxBufferSize_def)
  note served = sample_call_served
  have call: "list_all (call_ok reference_runtime) [sample_call]" by (simp add: sample_call_ok)
  have "\<exists>calls' sent b'. list_all2 same_call calls' [sample_call] \<and> content b' = []
    \<and> onMessage reference_runtime (\<lambda>k. 0) REQUEST 0 echo_server (buffer_of (call_packet reference_runtime sample_call)) ()
      = (sent, b', snd (serve_calls echo_server calls' ()))
    \<and> sent = map (reply_packet reference_runtime) (fst (serve_calls echo_server calls' ()))
    \<and> (\<forall>cb t' i'. buf_inv cb \<and> content cb = concat sent \<and> length (content cb) \<le> kMaxBufferSize \<longrightarrow>
        rc_completed (fst (client_onMessage reference_runtime t' i' cb waiting_client))
          = rc_completed waiting_client @ map (\<lambda>(i, st, resp). (i, resp)) (fst (serve_calls echo_server calls' ())))"
    by (rule rpc_end_to_end [OF ref_rt.wire_runtime_axioms call _ _ _ waiting_client_inv])
      (simp_all add: served ok sample_call_length kMaxBufferSize_def waiting_client_def pending_def)
  then obtain calls' sent b' where c: "list_all2 same_call calls' [sample_call]"
    and m: "onMessage reference_runtime (\<lambda>k. 0) REQUEST 0 echo_server
      (buffer_of (call_packet reference_runtime sample_call)) () = (sent, b', ())"
    and sent: "sent = map (reply_packet reference_runtime) (fst (serve_calls echo_server calls' ()))"
    and r: "\<forall>cb t' i'. buf_inv cb \<and> content cb = concat sent \<and> length (content cb) \<le> kMaxBufferSize \<longrightarrow>
        rc_completed (fst (client_onMessage reference_runtime t' i' cb waiting_client))
          = rc_completed waiting_client @ map (\<lambda>(i, st, resp). (i, resp)) (fst (serve_calls echo_server calls' ()))"
    by auto
  from len have "length (concat sent) \<le> kMaxBufferSize" by (simp add: sent served [OF c])
  with r [THEN spec, of "buffer_of (concat sent)", THEN spec, of REQUEST, THEN spec, of 0]
  have "rc_completed (fst (client_onMessage reference_runtime REQUEST 0 (buffer_of (concat sent)) waiting_client))
      = [(1, sample_response)]"
    by (simp add: served [OF c] waiting_client_def new_AsyncClient_def)
  with m show ?thesis by blast
qed

end
